(* ===== verification/Prelude.thy ===== *)
theory Prelude
  imports Main "HOL-Library.Char_ord" "HOL-Library.List_Lexorder" "HOL-Library.Sublist"
    "HOL-Library.AList"
begin

text \<open>
  What the components share: the type of byte strings, the errors a C++ call can end with,
  the collections of facts the component proofs are run with, and the generic facts about
  lists, prefixes and sorted sequences.

  A \<open>std::string\<close>, a blob and a protobuf \<open>bytes\<close> field are all sequences of octets, and
  a \<open>char\<close> of HOL is exactly an octet, so all three are \<open>string\<close>. The order of
  \<open>Char_ord\<close> and \<open>List_Lexorder\<close> on them is the bytewise order with a proper prefix
  first, which is the order of RocksDB's default comparator and of \<open>std::string\<close>.
\<close>

type_synonym bytes = string

text \<open>
  The ways a call of the program can fail: a \<open>std::runtime_error\<close> with its text, an
  exception that does not derive from \<open>std::runtime_error\<close> (the JSON library's, which
  derive from \<open>std::exception\<close> directly), and behaviour C++ leaves undefined (a null or
  dangling pointer is followed, an uninitialised member is read).
\<close>

datatype exn =
    RuntimeError string
  | JsonException string
  | UndefinedBehaviour string

type_synonym 'a result = "exn + 'a"

named_theorems engine_simps \<open>unfolding the storage engine's operations\<close>
named_theorems handler_simps \<open>unfolding the command handlers\<close>
named_theorems repo_simps \<open>unfolding the operations of the whole repository\<close>

section \<open>Results\<close>

definition is_ok :: "'a result \<Rightarrow> bool" where
  "is_ok r \<longleftrightarrow> (case r of Inl _ \<Rightarrow> False | Inr _ \<Rightarrow> True)"

lemma is_ok_simps [simp]: "is_ok (Inr x)" "\<not> is_ok (Inl e)"
  by (simp_all add: is_ok_def)

lemma is_ok_iff: "is_ok r \<longleftrightarrow> (\<exists>x. r = Inr x)"
  by (cases r) simp_all

text \<open>Sequencing of calls that may throw.\<close>

definition rbind :: "'a result \<Rightarrow> ('a \<Rightarrow> 'b result) \<Rightarrow> 'b result" where
  "rbind r f = (case r of Inl ex \<Rightarrow> Inl ex | Inr x \<Rightarrow> f x)"

lemma rbind_simps [simp]: "rbind (Inr x) f = f x" "rbind (Inl ex) f = Inl ex"
  by (simp_all add: rbind_def)

lemma rbind_Inr: "rbind r f = Inr y \<longleftrightarrow> (\<exists>x. r = Inr x \<and> f x = Inr y)"
  by (cases r) (simp_all add: rbind_def)

section \<open>Prefixes and the bytewise order\<close>

lemma prefix_le_lex: "prefix p s \<Longrightarrow> p \<le> (s :: 'a :: linorder list)"
proof (induction p arbitrary: s)
  case Nil
  show ?case by simp
next
  case (Cons x p)
  then show ?case by (cases s) (auto simp: list_le_def)
qed

text \<open>The strings that start with \<open>p\<close> are an interval of the order that begins at \<open>p\<close>.\<close>

lemma prefix_interval:
  "p \<le> a \<Longrightarrow> a \<le> b \<Longrightarrow> prefix p b \<Longrightarrow> prefix p (a :: 'a :: linorder list)"
proof (induction p arbitrary: a b)
  case Nil
  show ?case by simp
next
  case (Cons x p)
  from Cons.prems(3) obtain b' where b: "b = x # b'" "prefix p b'"
    by (cases b) auto
  from Cons.prems(1) obtain y a' where a: "a = y # a'"
    by (cases a) auto
  have "x = y" "p \<le> a'" "a' \<le> b'"
    using Cons.prems(1,2) a b(1) by (auto simp: list_le_def)
  with Cons.IH [OF _ _ b(2)] a show ?case by simp
qed

section \<open>Sorted association lists\<close>

abbreviation sorted_keys :: "('k :: linorder \<times> 'v) list \<Rightarrow> bool" where
  "sorted_keys es \<equiv> sorted_wrt (<) (map fst es)"

lemma sorted_keys_distinct: "sorted_keys es \<Longrightarrow> distinct (map fst es)"
  by (induction es) auto

lemma sorted_keys_map_of:
  "sorted_keys es \<Longrightarrow> map_of es k = Some v \<longleftrightarrow> (k, v) \<in> set es"
  by (simp add: sorted_keys_distinct)

text \<open>
  A cursor that is placed on the first key not below \<open>p\<close> and moved on while the key starts
  with \<open>p\<close> visits exactly the entries whose key starts with \<open>p\<close>.
\<close>

lemma take_prefix_of_sorted:
  assumes "sorted_keys es" and "\<forall>e \<in> set es. p \<le> fst e"
  shows "takeWhile (\<lambda>e. prefix p (fst e)) es = filter (\<lambda>e. prefix p (fst e)) es"
  using assms
proof (induction es)
  case Nil
  show ?case by simp
next
  case (Cons e es)
  show ?case
  proof (cases "prefix p (fst e)")
    case True
    with Cons show ?thesis by simp
  next
    case False
    have "\<not> prefix p (fst e')" if "e' \<in> set es" for e'
    proof
      assume "prefix p (fst e')"
      moreover have "fst e \<le> fst e'"
        using Cons.prems(1) that by auto
      ultimately show False
        using prefix_interval [of p "fst e" "fst e'"] Cons.prems(2) False by simp
    qed
    with False show ?thesis by (simp add: filter_empty_conv)
  qed
qed

lemma seek_prefix_scan:
  assumes "sorted_keys es"
  shows "takeWhile (\<lambda>e. prefix p (fst e)) (dropWhile (\<lambda>e. fst e < p) es)
       = filter (\<lambda>e. prefix p (fst e)) es"
  using assms
proof (induction es)
  case Nil
  show ?case by simp
next
  case (Cons e es)
  show ?case
  proof (cases "fst e < p")
    case True
    then have "\<not> prefix p (fst e)"
      using prefix_le_lex [of p "fst e"] by auto
    with True Cons show ?thesis by simp
  next
    case False
    have "\<forall>e' \<in> set (e # es). p \<le> fst e'"
      using False Cons.prems by fastforce
    with False show ?thesis
      using take_prefix_of_sorted [OF Cons.prems] by simp
  qed
qed

lemma last_filter_sorted_max:
  assumes "sorted_wrt (<) (xs :: 'a :: linorder list)" and "x \<in> set xs"
  shows "x \<le> last xs"
  using assms by (induction xs) (auto simp: order.strict_implies_order)

lemma sorted_wrt_filter_keys: "sorted_keys es \<Longrightarrow> sorted_keys (filter P es)"
  by (induction es) auto

section \<open>Splitting at slashes\<close>

text \<open>Boost's \<open>split(tokens, s, is_any_of("/"))\<close>: one token between any two slashes.\<close>

fun split_slash :: "string \<Rightarrow> string list" where
  "split_slash [] = [[]]"
| "split_slash (c # s) =
     (if c = CHR ''/'' then [] # split_slash s
      else (case split_slash s of [] \<Rightarrow> [[c]] | t # ts \<Rightarrow> (c # t) # ts))"

lemma split_slash_plain: "CHR ''/'' \<notin> set s \<Longrightarrow> split_slash s = [s]"
  by (induction s) auto

lemma split_slash_append:
  "CHR ''/'' \<notin> set s \<Longrightarrow> split_slash (s @ CHR ''/'' # r) = s # split_slash r"
  by (induction s) auto

lemma split_slash_uri:
  assumes "\<forall>c. CHR ''/'' \<notin> set (f c)" and "n \<noteq> []"
  shows "split_slash (concat (map (\<lambda>c. CHR ''/'' # f c) n)) = [] # map f n"
  using assms(2)
proof (induction n)
  case Nil
  then show ?case by simp
next
  case (Cons c n)
  show ?case
  proof (cases n)
    case Nil
    with assms(1) show ?thesis by (simp add: split_slash_plain)
  next
    case (Cons d m)
    with Cons.IH assms(1) show ?thesis
      by (simp add: split_slash_append)
  qed
qed

end
