(* ===== verification/Std_Map.thy ===== *)
theory Std_Map
  imports Prelude
begin

text \<open>
  \<open>std::map\<close>: a finite map whose iteration order is the order of its keys. The tables of the
  program that are iterated (the active fetch patterns, the factory's creators) are of this
  type. A map is represented by its entries in ascending key order, and the representation
  invariant is part of the type. The locale \<open>ordered_map\<close> is the contract the clients use.
\<close>

section \<open>Operations on sorted entries\<close>

fun put_entry :: "'k :: linorder \<Rightarrow> 'v \<Rightarrow> ('k \<times> 'v) list \<Rightarrow> ('k \<times> 'v) list" where
  "put_entry k v [] = [(k, v)]"
| "put_entry k v (e # es) =
     (if k < fst e then (k, v) # e # es
      else if k = fst e then (k, v) # es
      else e # put_entry k v es)"

definition remove_entry :: "'k :: linorder \<Rightarrow> ('k \<times> 'v) list \<Rightarrow> ('k \<times> 'v) list" where
  "remove_entry k es = filter (\<lambda>e. fst e \<noteq> k) es"

lemma put_entry_keys: "fst ` set (put_entry k v es) = insert k (fst ` set es)"
  by (induction es) auto

lemma put_entry_sorted: "sorted_keys es \<Longrightarrow> sorted_keys (put_entry k v es)"
proof (induction es)
  case Nil
  show ?case by simp
next
  case (Cons e es)
  from Cons.prems have low: "\<forall>y \<in> fst ` set es. fst e < y" and tl: "sorted_keys es" by auto
  consider "k < fst e" | "k = fst e" | "fst e < k" by (rule linorder_cases)
  then show ?case
  proof cases
    case 1
    with low have "\<forall>y \<in> fst ` set es. k < y" by (auto intro: less_trans)
    with 1 low tl show ?thesis by simp
  next
    case 2
    with low tl show ?thesis by simp
  next
    case 3
    with low have "\<forall>y \<in> fst ` set (put_entry k v es). fst e < y"
      by (simp add: put_entry_keys)
    with 3 Cons.IH [OF tl] show ?thesis by auto
  qed
qed

lemma put_entry_map_of:
  "sorted_keys es \<Longrightarrow> map_of (put_entry k v es) = (map_of es)(k \<mapsto> v)"
proof (induction es)
  case Nil
  show ?case by simp
next
  case (Cons e es)
  then show ?case
    by (cases e) (auto simp: fun_eq_iff)
qed

lemma remove_entry_map_of: "map_of (remove_entry k es) = (map_of es)(k := None)"
  by (induction es) (auto simp: remove_entry_def fun_eq_iff)

lemma remove_entry_sorted: "sorted_keys es \<Longrightarrow> sorted_keys (remove_entry k es)"
  by (simp add: remove_entry_def sorted_wrt_filter_keys)

section \<open>The type of maps\<close>

typedef (overloaded) ('k, 'v) omap = "{es :: ('k :: linorder \<times> 'v) list. sorted_keys es}"
  morphisms entries Omap
  by (rule exI [of _ "[]"]) simp

setup_lifting type_definition_omap

lift_definition omap_empty :: "('k :: linorder, 'v) omap" is "[]"
  by simp

lift_definition omap_find :: "('k :: linorder, 'v) omap \<Rightarrow> 'k \<Rightarrow> 'v option" is map_of .

lift_definition omap_store :: "'k :: linorder \<Rightarrow> 'v \<Rightarrow> ('k, 'v) omap \<Rightarrow> ('k, 'v) omap"
  is put_entry
  by (rule put_entry_sorted)

lift_definition omap_erase :: "'k :: linorder \<Rightarrow> ('k, 'v) omap \<Rightarrow> ('k, 'v) omap"
  is remove_entry
  by (rule remove_entry_sorted)

text \<open>Evaluation works on the entries.\<close>

lemma entries_eval [simp]:
  "entries omap_empty = []"
  "entries (omap_store k v m) = put_entry k v (entries m)"
  "entries (omap_erase k m) = remove_entry k (entries m)"
  by (transfer, simp)+

lemma entries_sorted [simp]: "sorted_keys (entries m)"
  by transfer simp

lemma omap_find_entries: "omap_find m k = map_of (entries m) k"
  by transfer simp

lemma omap_eq_iff: "m = m' \<longleftrightarrow> entries m = entries m'"
  by (simp add: entries_inject)

section \<open>The contract of an ordered map\<close>

locale ordered_map =
  fixes emp :: "'m"
    and find :: "'m \<Rightarrow> 'k :: linorder \<Rightarrow> 'v option"
    and store :: "'k \<Rightarrow> 'v \<Rightarrow> 'm \<Rightarrow> 'm"
    and erase :: "'k \<Rightarrow> 'm \<Rightarrow> 'm"
    and iter :: "'m \<Rightarrow> ('k \<times> 'v) list"
  assumes find_emp: "find emp k = None"
    and find_store: "find (store k v m) = (find m)(k \<mapsto> v)"
    and find_erase: "find (erase k m) = (find m)(k := None)"
    and iter_sorted: "sorted_keys (iter m)"
    and iter_find: "map_of (iter m) = find m"
begin

lemma iter_mem: "(k, v) \<in> set (iter m) \<longleftrightarrow> find m k = Some v"
  using sorted_keys_map_of [OF iter_sorted] iter_find [of m] by metis

lemma iter_keys: "set (map fst (iter m)) = dom (find m)"
proof -
  have "set (map fst (iter m)) = dom (map_of (iter m))"
    by (simp add: dom_map_of_conv_image_fst)
  then show ?thesis by (simp only: iter_find)
qed

lemma dom_finite: "finite (dom (find m))"
  using finite_set [of "map fst (iter m)"] by (simp only: iter_keys)

lemma find_store_simps:
  "find (store k v m) k = Some v"
  "k' \<noteq> k \<Longrightarrow> find (store k v m) k' = find m k'"
  by (simp_all add: find_store)

lemma find_erase_simps:
  "find (erase k m) k = None"
  "k' \<noteq> k \<Longrightarrow> find (erase k m) k' = find m k'"
  by (simp_all add: find_erase)

lemma erase_store_fresh: "find m k = None \<Longrightarrow> find (erase k (store k v m)) = find m"
  by (auto simp: find_erase find_store)

lemma store_ran: "find (store k v m) k' = Some v' \<Longrightarrow> v' = v \<or> find m k' = Some v'"
  by (cases "k' = k") (auto simp: find_store)

lemma erase_ran: "find (erase k m) k' = Some v' \<Longrightarrow> find m k' = Some v' \<and> k' \<noteq> k"
  by (cases "k' = k") (auto simp: find_erase)

end

interpretation om: ordered_map omap_empty omap_find omap_store omap_erase entries
proof unfold_locales
  fix m :: "('k :: linorder, 'v) omap" and k :: 'k and v :: 'v
  show "omap_find omap_empty k = (None :: 'v option)" by transfer simp
  show "omap_find (omap_store k v m) = (omap_find m)(k \<mapsto> v)"
    by transfer (simp add: put_entry_map_of)
  show "omap_find (omap_erase k m) = (omap_find m)(k := None)"
    by transfer (simp add: remove_entry_map_of)
  show "sorted_keys (entries m)" by simp
  show "map_of (entries m) = omap_find m" by transfer simp
qed

lemma remove_put_entry: "remove_entry k (put_entry k v es) = remove_entry k es"
  by (induction es) (auto simp: remove_entry_def)

lemma erase_store: "omap_erase k (omap_store k v m) = omap_erase k m"
  by transfer (rule remove_put_entry)

lemma put_put_entry: "put_entry k v (put_entry k w es) = put_entry k v es"
  by (induction es) auto

lemma store_store [simp]: "omap_store k v (omap_store k w m) = omap_store k v m"
  by transfer (rule put_put_entry)

lemma put_present: "sorted_keys es \<Longrightarrow> map_of es k = Some v \<Longrightarrow> put_entry k v es = es"
proof (induction es)
  case (Cons e es)
  then have "k = fst e \<or> fst e < k"
    by (auto simp: map_of_Cons_code split: if_splits dest!: map_of_SomeD)
  with Cons show ?case by (cases e) auto
qed simp

lemma store_present: "omap_find m k = Some v \<Longrightarrow> omap_store k v m = m"
  by transfer (rule put_present)

lemma omap_find_empty [simp]: "omap_find omap_empty = Map.empty"
  by (simp add: fun_eq_iff om.find_emp)

lemma omap_no_entries:
  assumes "\<And>k. omap_find m k = None"
  shows "m = omap_empty"
proof -
  have "omap_find m = Map.empty" using assms by auto
  then have "map_of (entries m) = Map.empty" by (simp only: om.iter_find)
  then show ?thesis by (simp add: omap_eq_iff)
qed

lemma remove_absent: "map_of es k = None \<Longrightarrow> remove_entry k es = es"
  by (auto simp: remove_entry_def map_of_eq_None_iff filter_id_conv)

lemma erase_absent: "omap_find m k = None \<Longrightarrow> omap_erase k m = m"
  by transfer (rule remove_absent)

lemmas omap_simps [simp] =
  om.find_emp om.find_store_simps om.find_erase_simps

end
