(* ===== verification/Ndn_Types.thy ===== *)
theory Ndn_Types
  imports Prelude "HOL-Library.Word"
begin

text \<open>
  The values the program exchanges with the NDN library: names, data packets, interests, and
  the two protobuf messages of the repo protocol. The library itself (ndn-cpp, protobuf) is
  not part of the repository. Its functions are the fields of one record \<open>ndn_lib\<close>, an
  argument of every definition that calls them, and what the program relies on is stated as
  the predicates \<open>uri_laws\<close>, \<open>wire_laws\<close> and \<open>packet_laws\<close>.
\<close>

section \<open>Names\<close>

text \<open>
  A name is a sequence of components; a component has a TLV type and a value. The generic
  component type, the one \<open>Name::append\<close> gives to a string, has the TLV number 8.
\<close>

datatype component = Component (ctype: nat) (cvalue: bytes)

type_synonym name = "component list"

definition generic :: "bytes \<Rightarrow> component" where
  "generic v = Component 8 v"

definition generic_name :: "name \<Rightarrow> bool" where
  "generic_name n \<longleftrightarrow> (\<forall>c \<in> set n. ctype c = 8)"

lemma generic_sel [simp]: "ctype (generic v) = 8" "cvalue (generic v) = v"
  by (simp_all add: generic_def)

lemma generic_cvalue: "ctype c = 8 \<Longrightarrow> generic (cvalue c) = c"
  by (cases c) (simp add: generic_def)

lemma generic_inject [simp]: "generic v = generic w \<longleftrightarrow> v = w"
  by (simp add: generic_def)

text \<open>
  The canonical order of components: by type, then shorter values first, then bytewise.
  \<open>std::map<Name, _>\<close> iterates in the order of names this gives.
\<close>

definition component_key :: "component \<Rightarrow> nat \<times> nat \<times> bytes" where
  "component_key c = (ctype c, length (cvalue c), cvalue c)"

lemma component_key_inj: "component_key c = component_key d \<longleftrightarrow> c = d"
  by (cases c; cases d) (auto simp: component_key_def)

instantiation component :: linorder
begin

definition less_eq_component :: "component \<Rightarrow> component \<Rightarrow> bool" where
  "c \<le> d \<longleftrightarrow> ctype c < ctype d \<or> ctype c = ctype d \<and>
     (length (cvalue c) < length (cvalue d) \<or>
      length (cvalue c) = length (cvalue d) \<and> cvalue c \<le> cvalue d)"

definition less_component :: "component \<Rightarrow> component \<Rightarrow> bool" where
  "c < d \<longleftrightarrow> ctype c < ctype d \<or> ctype c = ctype d \<and>
     (length (cvalue c) < length (cvalue d) \<or>
      length (cvalue c) = length (cvalue d) \<and> cvalue c < cvalue d)"

instance
proof
  fix c d e :: component
  show "c < d \<longleftrightarrow> c \<le> d \<and> \<not> d \<le> c"
    by (auto simp: less_eq_component_def less_component_def)
  show "c \<le> c" by (simp add: less_eq_component_def)
  show "c \<le> d \<Longrightarrow> d \<le> e \<Longrightarrow> c \<le> e"
    by (auto simp: less_eq_component_def)
  show "c \<le> d \<Longrightarrow> d \<le> c \<Longrightarrow> c = d"
    by (cases c; cases d) (auto simp: less_eq_component_def)
  show "c \<le> d \<or> d \<le> c"
    by (auto simp: less_eq_component_def)
qed

end

section \<open>Packets\<close>

record meta_info =
  freshnessPeriod :: "int option"
  finalBlockId :: "component option"

datatype signature =
    NoSignature
  | DigestSha256 bytes
  | OtherSignature bytes

record data =
  dName :: name
  dMetaInfo :: meta_info
  dContent :: bytes
  dSignature :: signature

text \<open>
  An interest carries the selectors the repository looks at; \<open>-1\<close> in the suffix bounds is
  the library's value for a selector that is not set.
\<close>

record interest =
  iName :: name
  canBePrefix :: bool
  mustBeFresh :: bool
  minSuffixComponents :: int
  maxSuffixComponents :: int
  lifetimeMs :: "int option"

section \<open>The repo protocol messages\<close>

text \<open>
  \<open>RepoCommandResponse\<close> (\<open>repo-command-response.proto\<close>): proto3 scalars, 0 when not set.
\<close>

record response =
  processId :: "64 word"
  statusCode :: "64 word"
  startBlockId :: "64 word"
  endBlockId :: "64 word"
  insertNum :: "64 word"
  deleteNum :: "64 word"

definition empty_response :: response where
  "empty_response = \<lparr>processId = 0, statusCode = 0, startBlockId = 0, endBlockId = 0,
     insertNum = 0, deleteNum = 0\<rparr>"

text \<open>\<open>RepoCommandParameter\<close> (\<open>repo-command-parameter.proto\<close>).\<close>

record selectors =
  selMinSuffix :: "32 word"
  selMaxSuffix :: "32 word"
  selPublisherKey :: bytes
  selChild :: "32 word"

record parameter =
  pName :: "bytes list"
  pSelectors :: selectors
  pStartBlockId :: "64 word"
  pEndBlockId :: "64 word"
  pProcessId :: "64 word"
  pMaxInterestNum :: "64 word"
  pWatchTimeout :: "64 word"
  pWatchStatus :: "64 word"
  pInterestLifetime :: "64 word"

text \<open>A parameter message in which only the name has been set.\<close>

definition no_selectors :: selectors where
  "no_selectors = \<lparr>selMinSuffix = 0, selMaxSuffix = 0, selPublisherKey = [], selChild = 0\<rparr>"

definition name_parameter :: "bytes list \<Rightarrow> parameter" where
  "name_parameter cs = \<lparr>pName = cs, pSelectors = no_selectors, pStartBlockId = 0,
     pEndBlockId = 0, pProcessId = 0, pMaxInterestNum = 0, pWatchTimeout = 0,
     pWatchStatus = 0, pInterestLifetime = 0\<rparr>"

section \<open>The library's functions\<close>

record ndn_lib =
  escaped :: "component \<Rightarrow> string"             \<comment> \<open>\<open>Name::Component::toEscapedString\<close>\<close>
  toUri :: "name \<Rightarrow> string"                    \<comment> \<open>\<open>Name::toUri\<close>\<close>
  ofUri :: "string \<Rightarrow> name"                    \<comment> \<open>the constructor \<open>Name(uri)\<close>\<close>
  fromEscapedString :: "string \<Rightarrow> bytes"       \<comment> \<open>\<open>Name::fromEscapedString\<close>, a blob\<close>
  newData :: "name \<Rightarrow> data"                    \<comment> \<open>the constructor \<open>Data(name)\<close>\<close>
  newInterest :: "name \<Rightarrow> interest"            \<comment> \<open>the constructor \<open>Interest(name)\<close>\<close>
  signData :: "data \<Rightarrow> data"                   \<comment> \<open>\<open>KeyChain::sign\<close>\<close>
  wireEncode :: "data \<Rightarrow> bytes"                \<comment> \<open>\<open>Data::wireEncode\<close>\<close>
  wireDecode :: "bytes \<Rightarrow> data option"         \<comment> \<open>\<open>Data::wireDecode\<close>, \<open>None\<close> when it throws\<close>
  encodeResponse :: "response \<Rightarrow> bytes"        \<comment> \<open>\<open>ProtobufTlv::encode\<close>\<close>
  decodeResponse :: "bytes \<Rightarrow> response option" \<comment> \<open>\<open>ProtobufTlv::decode\<close>\<close>
  decodeParameter :: "bytes \<Rightarrow> parameter option"
  decodeNameMsg :: "bytes \<Rightarrow> bytes list option"

text \<open>
  The NDN URI scheme: the URI of a name is a slash followed by the escaped component, for
  every component; the empty name is a single slash. An escaped component is never empty
  (\<open>...\<close> stands for the empty value) and holds no slash. Parsing inverts printing.
\<close>

definition uri_laws :: "ndn_lib \<Rightarrow> bool" where
  "uri_laws L \<longleftrightarrow>
     (\<forall>n. toUri L n = (if n = [] then ''/'' else concat (map (\<lambda>c. CHR ''/'' # escaped L c) n)))
   \<and> (\<forall>c. escaped L c \<noteq> [] \<and> CHR ''/'' \<notin> set (escaped L c))
   \<and> (\<forall>n. ofUri L (toUri L n) = n)
   \<and> (\<forall>c. ofUri L (escaped L c) = [c])
   \<and> ofUri L '''' = []
   \<and> (\<forall>v. fromEscapedString L (escaped L (generic v)) = v)"

text \<open>The wire format: decoding inverts encoding.\<close>

definition wire_laws :: "ndn_lib \<Rightarrow> bool" where
  "wire_laws L \<longleftrightarrow> (\<forall>d. wireDecode L (wireEncode L d) = Some d)"

text \<open>Constructors and signing set and keep the name and the content.\<close>

definition packet_laws :: "ndn_lib \<Rightarrow> bool" where
  "packet_laws L \<longleftrightarrow>
     (\<forall>n. dName (newData L n) = n) \<and> (\<forall>n. iName (newInterest L n) = n)
   \<and> (\<forall>d. dName (signData L d) = dName d \<and> dContent (signData L d) = dContent d)
   \<and> (\<forall>r. decodeResponse L (encodeResponse L r) = Some r)"

section \<open>Consequences of the URI laws\<close>

lemma uri_lawsD:
  assumes "uri_laws L"
  shows uri_nil: "toUri L [] = ''/''"
    and uri_cons: "n \<noteq> [] \<Longrightarrow> toUri L n = concat (map (\<lambda>c. CHR ''/'' # escaped L c) n)"
    and escaped_ne: "escaped L c \<noteq> []"
    and escaped_slash: "CHR ''/'' \<notin> set (escaped L c)"
    and of_to_uri: "ofUri L (toUri L n) = n"
    and of_escaped: "ofUri L (escaped L c) = [c]"
    and of_empty: "ofUri L '''' = []"
    and from_escaped: "fromEscapedString L (escaped L (generic v)) = v"
  using assms unfolding uri_laws_def by (blast | simp)+

lemma uri_inject: "uri_laws L \<Longrightarrow> toUri L m = toUri L n \<longleftrightarrow> m = n"
  using of_to_uri by metis

lemma escaped_inject: "uri_laws L \<Longrightarrow> escaped L c = escaped L d \<longleftrightarrow> c = d"
  using of_escaped by (metis list.inject)

lemma uri_ne: "uri_laws L \<Longrightarrow> toUri L n \<noteq> []"
  by (cases n) (simp_all add: uri_lawsD)

end
