(* ===== verification/Reference_Lib.thy ===== *)
theory Reference_Lib
  imports Ndn_Types
begin

text \<open>
  A concrete instance of the library's functions. It satisfies every law of
  \<open>Ndn_Types\<close>, so the theorems that assume the laws are about something, and it computes, so
  the witnesses can evaluate the program's definitions on concrete names and packets. The
  escaping of generic components is the one of the NDN URI scheme; the wire formats are
  simple framings and not the ones of the real library.
\<close>

section \<open>Escaping a component\<close>

definition unreserved :: "char \<Rightarrow> bool" where
  "unreserved c \<longleftrightarrow> c \<in> set ''ABCDEFGHIJKLMNOPQRSTUVWXYZabcdefghijklmnopqrstuvwxyz0123456789+-._''"

definition hex_digits :: string where
  "hex_digits = ''0123456789ABCDEF''"

definition hex_value :: "char \<Rightarrow> nat" where
  "hex_value c = length (takeWhile (\<lambda>d. d \<noteq> c) hex_digits)"

definition escape_char :: "char \<Rightarrow> string" where
  "escape_char c = (if unreserved c then [c]
     else [CHR ''%'', hex_digits ! (of_char c div 16), hex_digits ! (of_char c mod 16)])"

fun unescape_chars :: "string \<Rightarrow> string" where
  "unescape_chars [] = []"
| "unescape_chars (c # s) =
     (if c = CHR ''%'' then
        (case s of a # b # r \<Rightarrow> char_of (16 * hex_value a + hex_value b) # unescape_chars r
         | _ \<Rightarrow> [])
      else c # unescape_chars s)"

definition all_dots :: "string \<Rightarrow> bool" where
  "all_dots v \<longleftrightarrow> (\<forall>c \<in> set v. c = CHR ''.'')"

definition escape_value :: "bytes \<Rightarrow> string" where
  "escape_value v = (if all_dots v then ''...'' @ v else concat (map escape_char v))"

definition unescape_value :: "string \<Rightarrow> bytes" where
  "unescape_value s = (if all_dots s then drop 3 s else unescape_chars s)"

lemma hex_value_digit: "n < 16 \<Longrightarrow> hex_value (hex_digits ! n) = n"
proof -
  have "\<forall>n \<in> set [0..<16]. hex_value (hex_digits ! n) = n" by code_simp
  then show "n < 16 \<Longrightarrow> hex_value (hex_digits ! n) = n" by simp
qed

lemma hex_digits_plain: "n < 16 \<Longrightarrow> hex_digits ! n \<in> set hex_digits"
  by (rule nth_mem) (simp add: hex_digits_def)

lemma nibbles: "of_char c div 16 < (16 :: nat)" "of_char c mod 16 < (16 :: nat)"
proof -
  have "of_char c < (16 * 16 :: nat)" by simp
  then show "of_char c div 16 < (16 :: nat)" by (rule less_mult_imp_div_less)
qed simp

lemma percent_reserved: "\<not> unreserved CHR ''%''"
  by code_simp

lemma unescape_escape_char: "unescape_chars (escape_char c @ s) = c # unescape_chars s"
proof (cases "unreserved c")
  case True
  then have "c \<noteq> CHR ''%''" using percent_reserved by auto
  with True show ?thesis by (simp add: escape_char_def)
next
  case False
  have "16 * hex_value (hex_digits ! (of_char c div 16)) +
      hex_value (hex_digits ! (of_char c mod 16)) = of_char c"
    by (simp add: hex_value_digit nibbles)
  with False show ?thesis by (simp add: escape_char_def)
qed

lemma unescape_escape_chars: "unescape_chars (concat (map escape_char v)) = v"
  by (induction v) (simp_all add: unescape_escape_char)

definition plain :: "string \<Rightarrow> bool" where
  "plain s \<longleftrightarrow> s \<noteq> [] \<and> CHR ''/'' \<notin> set s \<and> CHR ''='' \<notin> set s"

lemma escape_char_plain: "plain (escape_char c)"
proof (cases "unreserved c")
  case True
  moreover have "\<not> unreserved CHR ''/''" "\<not> unreserved CHR ''=''" by code_simp+
  ultimately show ?thesis by (auto simp: escape_char_def plain_def)
next
  case False
  have "CHR ''/'' \<notin> set hex_digits" "CHR ''='' \<notin> set hex_digits" by code_simp+
  then show ?thesis
    using False hex_digits_plain [OF nibbles(1)] hex_digits_plain [OF nibbles(2)]
    by (auto simp: escape_char_def plain_def)
qed

lemma escape_char_dots: "all_dots (escape_char c) \<longleftrightarrow> c = CHR ''.''"
proof (cases "unreserved c")
  case True
  then show ?thesis by (simp add: escape_char_def all_dots_def)
next
  case False
  moreover have "unreserved CHR ''.''" by code_simp
  ultimately show ?thesis by (auto simp: escape_char_def all_dots_def)
qed

lemma escape_value_plain: "plain (escape_value v)"
proof (cases "all_dots v")
  case True
  then show ?thesis by (auto simp: escape_value_def plain_def all_dots_def)
next
  case False
  then have "v \<noteq> []" by (auto simp: all_dots_def)
  with False escape_char_plain show ?thesis
    by (cases v) (auto simp: escape_value_def plain_def)
qed

lemma unescape_escape_value: "unescape_value (escape_value v) = v"
proof (cases "all_dots v")
  case True
  then show ?thesis by (simp add: escape_value_def unescape_value_def all_dots_def)
next
  case False
  then obtain c where "c \<in> set v" "c \<noteq> CHR ''.''" by (auto simp: all_dots_def)
  then have "\<not> all_dots (concat (map escape_char v))"
    using escape_char_dots [of c] by (auto simp: all_dots_def)
  with False show ?thesis
    by (simp add: escape_value_def unescape_value_def unescape_escape_chars)
qed

section \<open>URIs\<close>

text \<open>A typed component other than the generic one is marked by its type in unary.\<close>

definition ref_escaped :: "component \<Rightarrow> string" where
  "ref_escaped c = (if ctype c = 8 then escape_value (cvalue c)
     else replicate (Suc (ctype c)) CHR ''='' @ escape_value (cvalue c))"

definition ref_component :: "string \<Rightarrow> component" where
  "ref_component s = (let m = takeWhile (\<lambda>c. c = CHR ''='') s
     in if m = [] then generic (unescape_value s)
        else Component (length m - 1) (unescape_value (drop (length m) s)))"

definition ref_toUri :: "name \<Rightarrow> string" where
  "ref_toUri n = (if n = [] then ''/''
     else concat (map (\<lambda>c. CHR ''/'' # ref_escaped c) n))"

definition ref_ofUri :: "string \<Rightarrow> name" where
  "ref_ofUri s = map ref_component (filter (\<lambda>t. t \<noteq> []) (split_slash s))"

lemma takeWhile_plain: "plain s \<Longrightarrow> takeWhile (\<lambda>c. c = CHR ''='') s = []"
  by (cases s) (auto simp: plain_def)

lemma ref_component_escaped: "ref_component (ref_escaped c) = c"
proof (cases "ctype c = 8")
  case True
  then show ?thesis
    using takeWhile_plain [OF escape_value_plain]
    by (simp add: ref_component_def ref_escaped_def unescape_escape_value generic_cvalue)
next
  case False
  have "takeWhile (\<lambda>c. c = CHR ''='') (replicate (Suc (ctype c)) CHR ''='' @ escape_value (cvalue c))
      = replicate (Suc (ctype c)) CHR ''=''"
    using takeWhile_plain [OF escape_value_plain [of "cvalue c"]]
    by (simp add: takeWhile_append)
  with False show ?thesis
    by (cases c) (simp add: ref_component_def ref_escaped_def unescape_escape_value Let_def)
qed

lemma ref_escaped_plain: "ref_escaped c \<noteq> [] \<and> CHR ''/'' \<notin> set (ref_escaped c)"
  using escape_value_plain [of "cvalue c"] by (auto simp: ref_escaped_def plain_def)

lemma ref_ofUri_toUri: "ref_ofUri (ref_toUri n) = n"
proof (cases "n = []")
  case True
  then show ?thesis by (simp add: ref_ofUri_def ref_toUri_def)
next
  case False
  have "filter (\<lambda>t. t \<noteq> []) (map ref_escaped n) = map ref_escaped n"
    using ref_escaped_plain by (simp add: filter_id_conv)
  with False ref_escaped_plain show ?thesis
    by (simp add: ref_ofUri_def ref_toUri_def split_slash_uri map_idI ref_component_escaped)
qed

lemma ref_ofUri_escaped: "ref_ofUri (ref_escaped c) = [c]"
  using ref_escaped_plain [of c]
  by (simp add: ref_ofUri_def split_slash_plain ref_component_escaped)

section \<open>Framing\<close>

text \<open>A frame is the length in unary, a dot, and the bytes.\<close>

definition frame :: "bytes \<Rightarrow> bytes" where
  "frame s = replicate (length s) CHR ''I'' @ CHR ''.'' # s"

definition unframe :: "bytes \<Rightarrow> bytes \<times> bytes" where
  "unframe s = (let n = length (takeWhile (\<lambda>c. c = CHR ''I'') s); r = drop (Suc n) s
     in (take n r, drop n r))"

fun unframe_many :: "nat \<Rightarrow> bytes \<Rightarrow> bytes list option" where
  "unframe_many fuel [] = Some []"
| "unframe_many 0 (c # s) = None"
| "unframe_many (Suc fuel) (c # s) =
     (let (x, r) = unframe (c # s)
      in if frame x @ r = c # s then map_option ((#) x) (unframe_many fuel r) else None)"

definition frames :: "bytes list \<Rightarrow> bytes" where
  "frames xs = concat (map frame xs)"

definition unframes :: "bytes \<Rightarrow> bytes list option" where
  "unframes s = unframe_many (length s) s"

lemma unframe_frame [simp]: "unframe (frame s @ r) = (s, r)"
  by (simp add: unframe_def frame_def takeWhile_append takeWhile_tail Let_def)

lemma frame_ne [simp]: "frame s \<noteq> []"
  by (simp add: frame_def)

lemma unframe_many_frames:
  "length (frames xs) \<le> fuel \<Longrightarrow> unframe_many fuel (frames xs) = Some xs"
proof (induction xs arbitrary: fuel)
  case Nil
  show ?case by (simp add: frames_def)
next
  case (Cons x xs)
  obtain c s where cs: "frame x @ frames xs = c # s"
    by (cases "frame x @ frames xs") auto
  have len: "length (frames (x # xs)) = length (frame x) + length (frames xs)"
    by (simp add: frames_def)
  then have "0 < fuel" using Cons.prems by (cases "frame x") (auto simp: frame_def)
  then obtain f where f: "fuel = Suc f" by (cases fuel) auto
  have "length (frames xs) \<le> f"
    using Cons.prems len f by (simp add: frame_def)
  then have "unframe_many f (frames xs) = Some xs" by (rule Cons.IH)
  moreover have "unframe (c # s) = (x, frames xs)"
    using unframe_frame [of x "frames xs"] cs by simp
  ultimately show ?case
    using cs f by (simp add: frames_def)
qed

lemma unframes_frames [simp]: "unframes (frames xs) = Some xs"
  by (simp add: unframes_def unframe_many_frames)

section \<open>Packets\<close>

definition int_field :: "int option \<Rightarrow> bytes" where
  "int_field x = (case x of None \<Rightarrow> []
     | Some i \<Rightarrow> (if 0 \<le> i then CHR ''+'' else CHR ''-'') # replicate (nat \<bar>i\<bar>) CHR ''I'')"

definition field_int :: "bytes \<Rightarrow> int option" where
  "field_int s = (case s of [] \<Rightarrow> None
     | c # r \<Rightarrow> Some (if c = CHR ''+'' then int (length r) else - int (length r)))"

definition component_field :: "component option \<Rightarrow> bytes" where
  "component_field x = (case x of None \<Rightarrow> [] | Some c \<Rightarrow> ref_escaped c)"

definition field_component :: "bytes \<Rightarrow> component option" where
  "field_component s = (if s = [] then None else Some (ref_component s))"

fun signature_field :: "signature \<Rightarrow> bytes" where
  "signature_field NoSignature = ''N''"
| "signature_field (DigestSha256 b) = CHR ''D'' # b"
| "signature_field (OtherSignature b) = CHR ''O'' # b"

definition field_signature :: "bytes \<Rightarrow> signature" where
  "field_signature s = (case s of [] \<Rightarrow> NoSignature
     | c # b \<Rightarrow> if c = CHR ''D'' then DigestSha256 b
               else if c = CHR ''O'' then OtherSignature b else NoSignature)"

definition ref_wireEncode :: "data \<Rightarrow> bytes" where
  "ref_wireEncode d = frames [ref_toUri (dName d), int_field (freshnessPeriod (dMetaInfo d)),
     component_field (finalBlockId (dMetaInfo d)), dContent d, signature_field (dSignature d)]"

definition ref_wireDecode :: "bytes \<Rightarrow> data option" where
  "ref_wireDecode s = (case unframes s of
     Some [n, f, b, c, g] \<Rightarrow> Some \<lparr>dName = ref_ofUri n,
       dMetaInfo = \<lparr>freshnessPeriod = field_int f, finalBlockId = field_component b\<rparr>,
       dContent = c, dSignature = field_signature g\<rparr>
   | _ \<Rightarrow> None)"

lemma field_roundtrips [simp]:
  "field_int (int_field x) = x"
  "field_component (component_field y) = y"
  "field_signature (signature_field z) = z"
  using ref_escaped_plain
  by (auto simp: field_int_def int_field_def field_component_def component_field_def
      field_signature_def ref_component_escaped split: option.split, cases z, simp_all)

lemma ref_wire_roundtrip: "ref_wireDecode (ref_wireEncode d) = Some d"
  by (simp add: ref_wireDecode_def ref_wireEncode_def ref_ofUri_toUri)

section \<open>Messages\<close>

definition word_field :: "64 word \<Rightarrow> bytes" where
  "word_field w = map (\<lambda>i. if bit w i then CHR ''1'' else CHR ''0'') [0..<64]"

definition field_word :: "bytes \<Rightarrow> 64 word" where
  "field_word s = horner_sum of_bool 2 (map (\<lambda>c. c = CHR ''1'') s)"

lemma field_word_roundtrip [simp]: "field_word (word_field w) = w"
proof -
  have "map (\<lambda>c. c = CHR ''1'') (word_field w) = map (bit w) [0..<64]"
    by (simp add: word_field_def)
  moreover have "horner_sum of_bool 2 (map (bit w) [0..<64]) = take_bit 64 w"
    by (rule horner_sum_bit_eq_take_bit)
  moreover have "take_bit 64 w = w"
    by (rule bit_word_eqI) (simp add: bit_take_bit_iff)
  ultimately show ?thesis by (simp add: field_word_def)
qed

definition ref_encodeResponse :: "response \<Rightarrow> bytes" where
  "ref_encodeResponse r = frames (map word_field
     [processId r, statusCode r, startBlockId r, endBlockId r, insertNum r, deleteNum r])"

definition ref_decodeResponse :: "bytes \<Rightarrow> response option" where
  "ref_decodeResponse s = (case map_option (map field_word) (unframes s) of
     Some [p, c, b, e, i, d] \<Rightarrow> Some \<lparr>processId = p, statusCode = c, startBlockId = b,
       endBlockId = e, insertNum = i, deleteNum = d\<rparr>
   | _ \<Rightarrow> None)"

lemma ref_response_roundtrip: "ref_decodeResponse (ref_encodeResponse r) = Some r"
  by (simp add: ref_decodeResponse_def ref_encodeResponse_def)

text \<open>Parameters with a name only are enough for the commands the repository serves.\<close>

definition ref_lib :: ndn_lib where
  "ref_lib = \<lparr>escaped = ref_escaped, toUri = ref_toUri, ofUri = ref_ofUri,
     fromEscapedString = unescape_value,
     newData = (\<lambda>n. \<lparr>dName = n,
       dMetaInfo = \<lparr>freshnessPeriod = None, finalBlockId = None\<rparr>,
       dContent = [], dSignature = NoSignature\<rparr>),
     newInterest = (\<lambda>n. \<lparr>iName = n, canBePrefix = True, mustBeFresh = False,
       minSuffixComponents = -1, maxSuffixComponents = -1, lifetimeMs = None\<rparr>),
     signData = (\<lambda>d. d\<lparr>dSignature := OtherSignature ''signed''\<rparr>),
     wireEncode = ref_wireEncode, wireDecode = ref_wireDecode,
     encodeResponse = ref_encodeResponse, decodeResponse = ref_decodeResponse,
     decodeParameter = (\<lambda>s. map_option name_parameter (unframes s)),
     decodeNameMsg = unframes\<rparr>"

lemma ref_lib_sel [simp]:
  "escaped ref_lib = ref_escaped" "toUri ref_lib = ref_toUri" "ofUri ref_lib = ref_ofUri"
  "fromEscapedString ref_lib = unescape_value"
  "wireEncode ref_lib = ref_wireEncode" "wireDecode ref_lib = ref_wireDecode"
  "encodeResponse ref_lib = ref_encodeResponse" "decodeResponse ref_lib = ref_decodeResponse"
  "decodeParameter ref_lib s = map_option name_parameter (unframes s)"
  "decodeNameMsg ref_lib = unframes"
  by (simp_all add: ref_lib_def)

theorem ref_uri_laws: "uri_laws ref_lib"
proof -
  have "unescape_value (ref_escaped (generic v)) = v" for v
    by (simp add: ref_escaped_def unescape_escape_value)
  moreover have "ref_ofUri [] = []"
    by (simp add: ref_ofUri_def)
  ultimately show ?thesis
    using ref_escaped_plain
    by (simp add: uri_laws_def ref_ofUri_escaped ref_ofUri_toUri) (simp add: ref_toUri_def)
qed

theorem ref_wire_laws: "wire_laws ref_lib"
  by (simp add: wire_laws_def ref_wire_roundtrip)

theorem ref_packet_laws: "packet_laws ref_lib"
  by (simp add: packet_laws_def ref_lib_def ref_response_roundtrip)

end
