(* ===== verification/Rocks_Db.thy ===== *)
theory Rocks_Db
  imports Std_Map Reference_Lib
begin

text \<open>
  The key-value store below the storage engine. RocksDB is a library: its functions are the
  fields of the record \<open>rocksdb\<close>, over an unknown type \<open>'db\<close> of database states, and what
  its documentation promises is the predicate \<open>kv_laws\<close>. An iterator is the list of the
  entries it has still to visit: it is valid while the list is not empty, its key and value
  are the list's head, and \<open>Next\<close> drops the head.
\<close>

record 'db rocksdb =
  kvOpen :: "bool \<Rightarrow> string \<Rightarrow> string + 'db"            \<comment> \<open>read-only?, path; a failed status' text\<close>
  kvPut :: "'db \<Rightarrow> string \<Rightarrow> bytes \<Rightarrow> bool \<times> 'db"       \<comment> \<open>is the status ok?\<close>
  kvGet :: "'db \<Rightarrow> string \<Rightarrow> bytes option"             \<comment> \<open>\<open>None\<close>: the status is not ok\<close>
  kvSeekToFirst :: "'db \<Rightarrow> (string \<times> bytes) list"
  kvSeek :: "'db \<Rightarrow> string \<Rightarrow> (string \<times> bytes) list"

text \<open>
  Iteration is in the bytewise order of the keys; \<open>Seek\<close> is placed on the first key that is
  not below its argument; \<open>Get\<close> finds what iteration shows; a successful \<open>Put\<close> overrides one
  key and a failed one changes nothing.
\<close>

definition kv_laws :: "'db rocksdb \<Rightarrow> bool" where
  "kv_laws K \<longleftrightarrow>
     (\<forall>b. sorted_keys (kvSeekToFirst K b))
   \<and> (\<forall>b k. kvGet K b k = map_of (kvSeekToFirst K b) k)
   \<and> (\<forall>b k. kvSeek K b k = dropWhile (\<lambda>e. fst e < k) (kvSeekToFirst K b))
   \<and> (\<forall>b k v. map_of (kvSeekToFirst K (snd (kvPut K b k v))) =
        (if fst (kvPut K b k v) then (map_of (kvSeekToFirst K b))(k \<mapsto> v)
         else map_of (kvSeekToFirst K b)))"

lemma kv_lawsD:
  assumes "kv_laws K"
  shows kv_sorted: "sorted_keys (kvSeekToFirst K b)"
    and kv_get: "kvGet K b k = map_of (kvSeekToFirst K b) k"
    and kv_seek: "kvSeek K b k = dropWhile (\<lambda>e. fst e < k) (kvSeekToFirst K b)"
    and kv_put: "kvPut K b k v = (ok, b') \<Longrightarrow> map_of (kvSeekToFirst K b') =
        (if ok then (map_of (kvSeekToFirst K b))(k \<mapsto> v) else map_of (kvSeekToFirst K b))"
  using assms unfolding kv_laws_def by (simp, simp, simp, metis fst_conv snd_conv)

lemma kv_get_mem:
  "kv_laws K \<Longrightarrow> kvGet K b k = Some v \<longleftrightarrow> (k, v) \<in> set (kvSeekToFirst K b)"
  by (simp add: kv_get sorted_keys_map_of [OF kv_sorted])

lemma kv_get_put:
  "kv_laws K \<Longrightarrow> kvPut K b k v = (ok, b') \<Longrightarrow>
     kvGet K b' = (if ok then (kvGet K b)(k \<mapsto> v) else kvGet K b)"
  by (auto simp: fun_eq_iff kv_get kv_put)

text \<open>
  A scan that starts at \<open>Seek(p)\<close> and runs while the key starts with \<open>p\<close> visits all entries
  whose key starts with \<open>p\<close> and no other.
\<close>

lemma kv_prefix_scan:
  "kv_laws K \<Longrightarrow> takeWhile (\<lambda>e. prefix p (fst e)) (kvSeek K b p)
     = filter (\<lambda>e. prefix p (fst e)) (kvSeekToFirst K b)"
  by (simp add: kv_seek seek_prefix_scan [OF kv_sorted])

section \<open>Two concrete stores\<close>

text \<open>
  An in-memory store, and the same store opened for reading only, where every \<open>Put\<close> fails.
\<close>

definition ref_kv :: "(string, bytes) omap rocksdb" where
  "ref_kv = \<lparr>kvOpen = (\<lambda>_ _. Inr omap_empty),
     kvPut = (\<lambda>m k v. (True, omap_store k v m)),
     kvGet = omap_find, kvSeekToFirst = entries,
     kvSeek = (\<lambda>m k. dropWhile (\<lambda>e. fst e < k) (entries m))\<rparr>"

definition ref_kv_ro :: "(string, bytes) omap rocksdb" where
  "ref_kv_ro = ref_kv\<lparr>kvPut := (\<lambda>m k v. (False, m))\<rparr>"

lemma ref_kv_sel [simp]:
  "kvOpen ref_kv ro p = Inr omap_empty" "kvPut ref_kv m k v = (True, omap_store k v m)"
  "kvGet ref_kv = omap_find" "kvSeekToFirst ref_kv = entries"
  "kvSeek ref_kv m k = dropWhile (\<lambda>e. fst e < k) (entries m)"
  "kvOpen ref_kv_ro ro p = Inr omap_empty" "kvPut ref_kv_ro m k v = (False, m)"
  "kvGet ref_kv_ro = omap_find" "kvSeekToFirst ref_kv_ro = entries"
  "kvSeek ref_kv_ro m k = dropWhile (\<lambda>e. fst e < k) (entries m)"
  by (simp_all add: ref_kv_def ref_kv_ro_def)

theorem ref_kv_laws: "kv_laws ref_kv"
  by (simp add: kv_laws_def omap_find_entries put_entry_map_of)

theorem ref_kv_ro_laws: "kv_laws ref_kv_ro"
  by (simp add: kv_laws_def omap_find_entries)

end
