(* ===== verification/Name_Trie.thy ===== *)
theory Name_Trie
  imports Reference_Lib
begin

text \<open>
  The trie of the keys' components (\<open>StorageEngineImpl::NameTrie\<close>) from which the repository
  derives the data prefixes it registers at start. The children of a node are an association
  list; C++ keeps them in an \<open>unordered_map\<close>, whose iteration order is not specified, and the
  facts below are about the set of prefixes only.
\<close>

section \<open>The structure and its operations\<close>

datatype trie_node = TrieNode (isLeaf: bool) (components: "(string \<times> trie_node) list")

definition new_node :: trie_node where
  "new_node = TrieNode False []"

fun insert_components :: "string list \<Rightarrow> trie_node \<Rightarrow> trie_node" where
  "insert_components [] node = node"
| "insert_components (c # cs) node =
     (if c = [] then insert_components cs node
      else
        let child = (case map_of (components node) c of None \<Rightarrow> new_node | Some t \<Rightarrow> t)
        in TrieNode (isLeaf node)
             (AList.update c (insert_components cs child) (components node)))"

definition trie_insert :: "string \<Rightarrow> trie_node \<Rightarrow> trie_node" where
  "trie_insert n head = insert_components (split_slash n) head"

text \<open>The loop that walks down while the node is no leaf and has a single child.\<close>

fun follow :: "ndn_lib \<Rightarrow> name \<Rightarrow> trie_node \<Rightarrow> name" where
  "follow L n (TrieNode False [(c, t)]) =
     follow L (n @ [generic (fromEscapedString L c)]) t"
| "follow L n node = n"

definition getLongestPrefixes :: "ndn_lib \<Rightarrow> trie_node \<Rightarrow> name list" where
  "getLongestPrefixes L head = map (\<lambda>(c, t). follow L (ofUri L c) t) (components head)"

section \<open>Well-formed tries and their paths\<close>

fun trie_ok :: "trie_node \<Rightarrow> bool" where
  "trie_ok (TrieNode l ch) \<longleftrightarrow>
     \<not> l \<and> distinct (map fst ch) \<and> (\<forall>e \<in> set ch. fst e \<noteq> [] \<and> trie_ok (snd e))"

fun has_path :: "trie_node \<Rightarrow> string list \<Rightarrow> bool" where
  "has_path t [] \<longleftrightarrow> True"
| "has_path t (c # cs) \<longleftrightarrow>
     (case map_of (components t) c of None \<Rightarrow> False | Some t' \<Rightarrow> has_path t' cs)"

lemma trie_ok_new_node [simp]: "trie_ok new_node"
  by (simp add: new_node_def)

lemma has_path_new_node [simp]: "has_path new_node p \<longleftrightarrow> p = []"
  by (cases p) (simp_all add: new_node_def)

lemma components_new_node [simp]: "components new_node = []"
  by (simp add: new_node_def)

lemma insert_components_skip:
  "insert_components cs t = insert_components (filter (\<lambda>c. c \<noteq> []) cs) t"
  by (induction cs t rule: insert_components.induct) (auto simp: Let_def)

lemma trie_ok_child:
  "trie_ok t \<Longrightarrow> map_of (components t) c = Some t' \<Longrightarrow> trie_ok t' \<and> c \<noteq> []"
  by (cases t) (force dest: map_of_SomeD)

lemma set_alist_update:
  "e \<in> set (AList.update k v xs) \<Longrightarrow> e = (k, v) \<or> e \<in> set xs"
  by (induction xs) (auto split: if_splits)

lemma insert_components_ok: "trie_ok t \<Longrightarrow> trie_ok (insert_components cs t)"
proof (induction cs t rule: insert_components.induct)
  case (1 node)
  then show ?case by simp
next
  case (2 c cs node)
  obtain l ch where t: "node = TrieNode l ch" by (cases node)
  show ?case
  proof (cases "c = []")
    case True
    with "2.IH"(1) "2.prems" show ?thesis by simp
  next
    case False
    let ?child = "case map_of ch c of None \<Rightarrow> new_node | Some t \<Rightarrow> t"
    have "trie_ok ?child"
      using trie_ok_child [OF "2.prems"] t by (auto split: option.split)
    then have "trie_ok (insert_components cs ?child)"
      using "2.IH"(2) [OF False refl] t by simp
    with False t "2.prems" show ?thesis
      by (auto simp: distinct_update dest!: set_alist_update)
  qed
qed

lemma has_path_insert:
  "has_path (insert_components cs t) p
     \<longleftrightarrow> has_path t p \<or> prefix p (filter (\<lambda>c. c \<noteq> []) cs)"
proof (induction cs t arbitrary: p rule: insert_components.induct)
  case (1 node)
  then show ?case by (cases p) auto
next
  case (2 c cs node)
  show ?case
  proof (cases "c = []")
    case True
    with "2.IH"(1) show ?thesis by simp
  next
    case False
    note IH = "2.IH"(2) [OF False refl]
    show ?thesis
    proof (cases p)
      case Nil
      then show ?thesis by simp
    next
      case (Cons d p')
      with False show ?thesis
        by (cases "d = c") (auto simp: Let_def update_conv' IH split: option.splits)
    qed
  qed
qed

text \<open>A whole sequence of insertions.\<close>

abbreviation insert_keys :: "string list \<Rightarrow> trie_node \<Rightarrow> trie_node" where
  "insert_keys ks t \<equiv> fold trie_insert ks t"

lemma insert_keys_ok: "trie_ok t \<Longrightarrow> trie_ok (insert_keys ks t)"
  by (induction ks arbitrary: t) (simp_all add: trie_insert_def insert_components_ok)

lemma has_path_insert_keys:
  "has_path (insert_keys ks t) p
     \<longleftrightarrow> has_path t p \<or> (\<exists>k \<in> set ks. prefix p (filter (\<lambda>c. c \<noteq> []) (split_slash k)))"
  by (induction ks arbitrary: t) (auto simp: trie_insert_def has_path_insert)

section \<open>Splitting the URI of a name\<close>

lemma uri_tokens:
  assumes "uri_laws L"
  shows "filter (\<lambda>c. c \<noteq> []) (split_slash (toUri L n)) = map (escaped L) n"
proof (cases "n = []")
  case True
  with assms show ?thesis by (simp add: uri_nil)
next
  case False
  have "filter (\<lambda>c. c \<noteq> []) (map (escaped L) n) = map (escaped L) n"
    using assms by (simp add: escaped_ne filter_id_conv)
  with False assms show ?thesis
    by (simp add: uri_cons split_slash_uri escaped_slash)
qed

section \<open>The chain below a node\<close>

fun chain :: "trie_node \<Rightarrow> string list" where
  "chain (TrieNode False [(c, t)]) = c # chain t"
| "chain t = []"

lemma follow_chain:
  "follow L n t = n @ map (\<lambda>c. generic (fromEscapedString L c)) (chain t)"
  by (induction L n t rule: follow.induct) auto

lemma has_path_chain: "has_path t (chain t)"
  by (induction t rule: chain.induct) auto

text \<open>Every path is comparable with the chain: the chain never passes a branching.\<close>

lemma chain_comparable: "has_path t p \<Longrightarrow> prefix p (chain t) \<or> prefix (chain t) p"
proof (induction t arbitrary: p rule: chain.induct)
  case (1 c t)
  then show ?case by (cases p) (auto split: if_splits)
qed auto

lemma empty_node_paths: "has_path (TrieNode l []) p \<longleftrightarrow> p = []"
  by (cases p) simp_all

lemma branching_node_paths:
  assumes "trie_ok (TrieNode l (x # y # ys))"
  shows "\<exists>a b. a \<noteq> b \<and> has_path (TrieNode l (x # y # ys)) [a]
     \<and> has_path (TrieNode l (x # y # ys)) [b]"
proof -
  obtain a t b u where xy: "x = (a, t)" "y = (b, u)" by (cases x; cases y)
  with assms have "a \<noteq> b" by auto
  moreover from xy this have "has_path (TrieNode l (x # y # ys)) [a]"
    "has_path (TrieNode l (x # y # ys)) [b]" by auto
  ultimately show ?thesis by blast
qed

text \<open>
  Where the chain ends, either nothing continues or two continuations diverge, unless the
  node is marked as a leaf.
\<close>

lemma chain_maximal:
  "trie_ok t \<Longrightarrow>
     (\<forall>p. has_path t p \<longrightarrow> prefix p (chain t))
   \<or> (\<exists>a b. a \<noteq> b \<and> has_path t (chain t @ [a]) \<and> has_path t (chain t @ [b]))"
proof (induction t rule: chain.induct)
  case (1 c t)
  from "1.prems" have "trie_ok t" by simp
  note IH = "1.IH" [OF this]
  then show ?case
  proof
    assume all: "\<forall>p. has_path t p \<longrightarrow> prefix p (chain t)"
    have "prefix p (c # chain t)" if "has_path (TrieNode False [(c, t)]) p" for p
      using that all by (cases p) (auto split: if_splits)
    then show ?thesis by simp
  qed auto
next
  case "2_1"
  then show ?case by simp
next
  case "2_2"
  then show ?case by (simp add: empty_node_paths)
next
  case "2_3"
  then show ?case by (simp only: chain.simps append_Nil) (blast dest: branching_node_paths)
qed

section \<open>The prefixes of a set of names\<close>

text \<open>\<open>keys_trie L ns\<close> is the trie of the keys of the names \<open>ns\<close>, inserted in turn.\<close>

abbreviation keys_trie :: "ndn_lib \<Rightarrow> name list \<Rightarrow> trie_node" where
  "keys_trie L ns \<equiv> insert_keys (map (toUri L) ns) new_node"

lemma keys_trie_ok: "trie_ok (keys_trie L ns)"
  by (simp add: insert_keys_ok)

lemma keys_trie_path:
  assumes "uri_laws L"
  shows "has_path (keys_trie L ns) p \<longleftrightarrow> p = [] \<or> (\<exists>n \<in> set ns. prefix p (map (escaped L) n))"
  using uri_tokens [OF assms] by (simp add: has_path_insert_keys)

lemma prefix_map_escaped:
  assumes "uri_laws L"
  shows "prefix (map (escaped L) m) (map (escaped L) n) \<longleftrightarrow> prefix m n"
proof (induction m arbitrary: n)
  case Nil
  show ?case by simp
next
  case (Cons c m)
  then show ?case by (cases n) (simp_all add: escaped_inject [OF assms])
qed

lemma prefix_of_escaped:
  "prefix p (map (escaped L) n) \<Longrightarrow> p = map (escaped L) (take (length p) n)"
  by (auto simp: prefix_def simp flip: take_map)

text \<open>
  A child of the root stands for a first component, and the chain below it, unescaped, for
  the name the loop builds.
\<close>

lemma child_name:
  assumes L: "uri_laws L" and gen: "\<forall>n \<in> set ns. generic_name n"
    and child: "(c, t) \<in> set (components (keys_trie L ns))"
  shows "map (escaped L) (follow L (ofUri L c) t) = c # chain t"
    and "\<exists>n \<in> set ns. prefix (follow L (ofUri L c) t) n"
proof -
  let ?T = "keys_trie L ns"
  have "distinct (map fst (components ?T))"
    using keys_trie_ok [of L ns] by (cases ?T) simp
  with child have "map_of (components ?T) c = Some t" by simp
  then have "has_path ?T (c # chain t)" by (simp add: has_path_chain)
  then obtain n where n: "n \<in> set ns" "prefix (c # chain t) (map (escaped L) n)"
    using keys_trie_path [OF L, of ns "c # chain t"] by (auto simp del: has_path.simps)
  define m where "m = take (length (c # chain t)) n"
  have m: "c # chain t = map (escaped L) m"
    unfolding m_def using n(2) by (rule prefix_of_escaped)
  then obtain d m' where dm: "m = d # m'" "c = escaped L d" "chain t = map (escaped L) m'"
    by auto
  have "set m' \<subseteq> set n"
    using dm(1) set_take_subset [of "length (c # chain t)" n] m_def by auto
  then have "\<forall>e \<in> set m'. ctype e = 8"
    using gen n(1) by (auto simp: generic_name_def)
  then have "map (\<lambda>c. generic (fromEscapedString L c)) (chain t) = m'"
    unfolding dm(3) map_map
    by (intro map_idI) (metis L comp_apply from_escaped generic_cvalue)
  then have fm: "follow L (ofUri L c) t = m"
    by (simp add: follow_chain dm of_escaped [OF L])
  show "map (escaped L) (follow L (ofUri L c) t) = c # chain t"
    by (simp only: fm m)
  have "prefix m n" unfolding m_def by (rule take_is_prefix)
  with n(1) show "\<exists>n \<in> set ns. prefix (follow L (ofUri L c) t) n"
    unfolding fm by blast
qed

lemma mem_getLongestPrefixes:
  "P \<in> set (getLongestPrefixes L h) \<longleftrightarrow> (\<exists>(c, t) \<in> set (components h). P = follow L (ofUri L c) t)"
  by (auto simp: getLongestPrefixes_def)

text \<open>The paths of the trie are comparable with the prefix that has the same first component.\<close>

lemma prefix_comparable:
  assumes L: "uri_laws L" and gen: "\<forall>n \<in> set ns. generic_name n"
    and P: "P \<in> set (getLongestPrefixes L (keys_trie L ns))"
    and n: "n \<in> set ns" "n \<noteq> []" and hd: "hd n = hd P"
  shows "prefix P n \<or> strict_prefix n P"
proof -
  let ?T = "keys_trie L ns"
  obtain c t where ct: "(c, t) \<in> set (components ?T)" "P = follow L (ofUri L c) t"
    using P by (auto simp: mem_getLongestPrefixes)
  note PE = child_name(1) [OF L gen ct(1), folded ct(2)]
  then have cP: "c = escaped L (hd P)" by (cases P) auto
  have "map_of (components ?T) c = Some t"
    using ct(1) keys_trie_ok [of L ns] by (cases ?T) simp
  moreover have "has_path ?T (map (escaped L) n)"
    using n(1) by (auto simp: keys_trie_path [OF L])
  ultimately have "has_path t (map (escaped L) (tl n))"
    using n(2) hd cP by (cases n) auto
  then have "prefix (map (escaped L) n) (map (escaped L) P)
      \<or> prefix (map (escaped L) P) (map (escaped L) n)"
    using chain_comparable [of t "map (escaped L) (tl n)"] n(2) hd cP PE
    by (cases n) auto
  then show ?thesis by (auto simp: prefix_map_escaped [OF L] strict_prefix_def)
qed

text \<open>Every non-empty key has a prefix with its first component.\<close>

lemma prefix_exists:
  assumes L: "uri_laws L" and gen: "\<forall>n \<in> set ns. generic_name n"
    and n: "n \<in> set ns" "n \<noteq> []"
  obtains P where "P \<in> set (getLongestPrefixes L (keys_trie L ns))" "P \<noteq> []" "hd P = hd n"
proof -
  let ?T = "keys_trie L ns"
  have "prefix [escaped L (hd n)] (map (escaped L) n)"
    using n(2) by (cases n) auto
  then have "has_path ?T [escaped L (hd n)]"
    using keys_trie_path [OF L] n(1) by blast
  then obtain t where t: "(escaped L (hd n), t) \<in> set (components ?T)"
    by (auto split: option.splits dest: map_of_SomeD)
  let ?P = "follow L (ofUri L (escaped L (hd n))) t"
  have "?P \<in> set (getLongestPrefixes L ?T)"
    using t by (auto simp: mem_getLongestPrefixes)
  moreover have "?P \<noteq> []" "hd ?P = hd n"
    using child_name(1) [OF L gen t] by (auto simp: follow_chain of_escaped [OF L])
  ultimately show thesis by (rule that)
qed

text \<open>
  A name that is a prefix of one of the keys with this first component, and comparable with
  all of them, is no longer than the prefix the loop returns.
\<close>

lemma prefix_maximal:
  assumes L: "uri_laws L" and gen: "\<forall>n \<in> set ns. generic_name n"
    and P: "P \<in> set (getLongestPrefixes L (keys_trie L ns))"
    and Q: "\<forall>n \<in> set ns. n \<noteq> [] \<and> hd n = hd P \<longrightarrow> prefix Q n \<or> strict_prefix n Q"
    and k: "k \<in> set ns" "k \<noteq> []" "hd k = hd P" "prefix Q k"
  shows "prefix Q P"
proof -
  let ?T = "keys_trie L ns" and ?E = "map (escaped L)"
  obtain c t where ct: "(c, t) \<in> set (components ?T)" "P = follow L (ofUri L c) t"
    using P by (auto simp: mem_getLongestPrefixes)
  note PE = child_name(1) [OF L gen ct(1), folded ct(2)]
  have mo: "map_of (components ?T) c = Some t"
    using ct(1) keys_trie_ok [of L ns] by (cases ?T) simp
  have t: "trie_ok t" using trie_ok_child [OF keys_trie_ok mo] by simp
  have key: "\<exists>n. (prefix Q n \<or> strict_prefix n Q) \<and> prefix (c # p) (?E n)" if "has_path t p" for p
  proof -
    have "has_path ?T (c # p)" using that mo by simp
    then obtain n where n: "n \<in> set ns" "prefix (c # p) (?E n)"
      using keys_trie_path [OF L, of ns "c # p"] by (auto simp del: has_path.simps)
    moreover have "n \<noteq> []" "hd n = hd P"
      using n(2) PE by (cases n; cases P; auto simp: escaped_inject [OF L])+
    ultimately show ?thesis using Q by blast
  qed
  from chain_maximal [OF t] show ?thesis
  proof
    assume all: "\<forall>p. has_path t p \<longrightarrow> prefix p (chain t)"
    have "has_path ?T (?E k)" using k(1) by (auto simp: keys_trie_path [OF L])
    moreover have "escaped L (hd k) = c" using k(3) PE by (cases P) auto
    ultimately have "prefix (?E k) (?E P)"
      using all PE mo k(2) by (cases k) auto
    then show ?thesis using k(4) by (auto simp: prefix_map_escaped [OF L] intro: prefix_order.trans)
  next
    assume "\<exists>a b. a \<noteq> b \<and> has_path t (chain t @ [a]) \<and> has_path t (chain t @ [b])"
    then obtain a b where ab: "a \<noteq> b" "has_path t (chain t @ [a])" "has_path t (chain t @ [b])"
      by blast
    obtain m n where m: "prefix Q m \<or> strict_prefix m Q" "prefix (?E P @ [a]) (?E m)"
      and n: "prefix Q n \<or> strict_prefix n Q" "prefix (?E P @ [b]) (?E n)"
      using key [OF ab(2)] key [OF ab(3)] unfolding PE append_Cons by blast
    have "prefix (?E P) (?E m)" using m(2) by (rule append_prefixD)
    then have "prefix P m" by (simp only: prefix_map_escaped [OF L])
    then have "prefix Q P \<or> strict_prefix P Q"
      using prefix_same_cases [of Q m P] m(1)
      by (auto simp: strict_prefix_def dest: prefix_order.trans prefix_order.antisym)
    moreover have False if PQ: "strict_prefix P Q"
    proof -
      obtain d R where QP: "Q = P @ d # R"
        using PQ by (rule strict_prefixE')
      have branch: "x = escaped L d"
        if "prefix Q k \<or> strict_prefix k Q" "prefix (?E P @ [x]) (?E k)" for x k
      proof -
        from that(1) have "prefix (?E Q) (?E k) \<or> prefix (?E k) (?E Q)"
          by (auto simp: prefix_map_escaped [OF L] strict_prefix_def)
        with that(2) QP show ?thesis
          by (auto simp: prefix_def append_eq_append_conv2 append_eq_Cons_conv)
      qed
      from branch [OF m] branch [OF n] ab(1) show False by simp
    qed
    ultimately show ?thesis by blast
  qed
qed

end
