(* ===== verification/Storage_Engine.thy ===== *)
theory Storage_Engine
  imports Rocks_Db Name_Trie
begin

text \<open>
  \<open>storage-engine.cpp\<close>: packets are kept in the key-value store under the URI of their name.
  \<open>StorageEngine\<close> is a thin wrapper over \<open>StorageEngineImpl\<close>; the engine record is the
  implementation object, its \<open>db\<close> the pointer to the open database. The build is the one with
  RocksDB (\<open>HAVE_LIBROCKSDB\<close>); without it the constructor always throws.
\<close>

section \<open>The engine's state\<close>

text \<open>The libraries the engine calls.\<close>

record 'db env =
  lib :: ndn_lib
  kv :: "'db rocksdb"

text \<open>\<open>size_t\<close> is 64 bits wide.\<close>

record stats =
  nKeys :: "64 word"
  valueSizeBytes :: "64 word"

text \<open>The constructor leaves \<open>stats_\<close> uninitialised: \<open>None\<close> until the first scan.\<close>

record 'db engine =
  dbPath :: string
  renamePrefix :: string
  keysTrieBuilt :: bool
  keysTrie :: trie_node
  engineStats :: "stats option"
  db :: "'db option"

section \<open>Opening and closing\<close>

fun what :: "exn \<Rightarrow> string" where
  "what (RuntimeError s) = s"
| "what (JsonException s) = s"
| "what (UndefinedBehaviour s) = s"

definition impl_new :: "string \<Rightarrow> 'db engine" where
  "impl_new path = \<lparr>dbPath = path, renamePrefix = '''', keysTrieBuilt = False,
     keysTrie = new_node, engineStats = None, db = None\<rparr>"

definition impl_open :: "'db env \<Rightarrow> 'db engine \<Rightarrow> bool \<Rightarrow> 'db engine result" where
  "impl_open E e readOnly =
     (case kvOpen (kv E) readOnly (dbPath e) of
        Inl state \<Rightarrow> Inl (RuntimeError state)
      | Inr b \<Rightarrow> Inr (e\<lparr>db := Some b\<rparr>))"

definition impl_close :: "'db engine \<Rightarrow> 'db engine" where
  "impl_close e = (case db e of None \<Rightarrow> e | Some b \<Rightarrow> e\<lparr>db := None\<rparr>)"

definition storageEngine :: "'db env \<Rightarrow> string \<Rightarrow> bool \<Rightarrow> string \<Rightarrow> 'db engine result" where
  "storageEngine E path readOnly rename =
     (case impl_open E (impl_new path) readOnly of
        Inl ex \<Rightarrow> Inl (RuntimeError (''Failed to open storage at '' @ path @ '': '' @ what ex))
      | Inr e \<Rightarrow> Inr (if rename \<noteq> '''' then e\<lparr>renamePrefix := rename\<rparr> else e))"

text \<open>The constructor of a build without RocksDB; nothing catches what it throws.\<close>

definition impl_new_without_db :: "string \<Rightarrow> 'db engine result" where
  "impl_new_without_db path =
     Inl (RuntimeError ''The library is not copmiled with persistent storage support.'')"

text \<open>The destructors: the wrapper's closes the database, and so does that of the implementation.\<close>

definition impl_destroy :: "'db engine \<Rightarrow> 'db engine" where
  "impl_destroy e = impl_close e"

definition se_destroy :: "'db engine \<Rightarrow> 'db engine" where
  "se_destroy e = impl_destroy (impl_close e)"

text \<open>The database is deleted once only.\<close>

lemma se_destroy_closes: "se_destroy e = impl_close e" "db (impl_close e) = None"
  by (simp_all add: se_destroy_def impl_destroy_def impl_close_def split: option.splits)

section \<open>Storing and retrieving\<close>

text \<open>The packet that is stored instead of \<open>d\<close> when a rename prefix is set.\<close>

definition renamed_data :: "ndn_lib \<Rightarrow> string \<Rightarrow> data \<Rightarrow> data" where
  "renamed_data L p d =
     (newData L (ofUri L p @ dName d))
       \<lparr>dMetaInfo := dMetaInfo d, dContent := dContent d,
        dSignature := DigestSha256 (replicate 32 (CHR 0x00))\<rparr>"

definition impl_put :: "'db env \<Rightarrow> 'db engine \<Rightarrow> data \<Rightarrow> ('db engine \<times> name) result" where
  "impl_put E e d =
     (case db e of
        None \<Rightarrow> Inl (RuntimeError ''DB is not open'')
      | Some b \<Rightarrow>
          if renamePrefix e \<noteq> '''' then
            let d' = renamed_data (lib E) (renamePrefix e) d;
                (ok, b') = kvPut (kv E) b (toUri (lib E) (dName d')) (wireEncode (lib E) d')
            in Inr (e\<lparr>db := Some b'\<rparr>, if ok then dName d' else [])
          else
            let (ok, b') = kvPut (kv E) b (toUri (lib E) (dName d)) (wireEncode (lib E) d)
            in Inr (e\<lparr>db := Some b'\<rparr>, if ok then dName d else []))"

text \<open>
  \<open>StorageEngine::put\<close> also emits \<open>afterDataInsertion\<close>, always with the name of the packet it
  was given; the third component of the result is that name.
\<close>

definition se_put :: "'db env \<Rightarrow> 'db engine \<Rightarrow> data \<Rightarrow> ('db engine \<times> name \<times> name) result" where
  "se_put E e d =
     (case impl_put E e d of
        Inl ex \<Rightarrow> Inl ex
      | Inr (e', n) \<Rightarrow> Inr (e', n, dName d))"

definition impl_get :: "'db env \<Rightarrow> 'db engine \<Rightarrow> name \<Rightarrow> data option result" where
  "impl_get E e n =
     (case db e of
        None \<Rightarrow> Inl (RuntimeError ''DB is not open'')
      | Some b \<Rightarrow>
          (case kvGet (kv E) b (toUri (lib E) n) of
             None \<Rightarrow> Inr None
           | Some dataString \<Rightarrow>
               (case wireDecode (lib E) dataString of
                  None \<Rightarrow> Inl (RuntimeError ''wireDecode'')
                | Some d \<Rightarrow> Inr (Some d))))"

text \<open>
  The check of the suffix bounds against a key, the body of the loop in \<open>read\<close>. The
  difference of the two sizes is an \<open>int\<close>.
\<close>

definition pass_check :: "ndn_lib \<Rightarrow> interest \<Rightarrow> string \<Rightarrow> bool" where
  "pass_check L i k =
     (let checkMax = (maxSuffixComponents i \<noteq> -1);
          checkMin = (minSuffixComponents i \<noteq> -1)
      in if checkMax \<or> checkMin then
           let nSuffix = int (length (ofUri L k)) - int (length (iName i))
           in checkMax \<and> nSuffix \<le> maxSuffixComponents i
              \<or> checkMin \<and> nSuffix \<ge> minSuffixComponents i
         else True)"

fun prefix_scan :: "ndn_lib \<Rightarrow> interest \<Rightarrow> (string \<times> bytes) list \<Rightarrow> string \<Rightarrow> string" where
  "prefix_scan L i [] key = key"
| "prefix_scan L i ((k, v) # it) key =
     (if prefix (toUri L (iName i)) k
      then prefix_scan L i it (if pass_check L i k then k else key)
      else key)"

definition impl_read :: "'db env \<Rightarrow> 'db engine \<Rightarrow> interest \<Rightarrow> data option result" where
  "impl_read E e i =
     (if canBePrefix i then
        (case db e of
           None \<Rightarrow> Inl (UndefinedBehaviour ''null database'')
         | Some b \<Rightarrow>
             let key = prefix_scan (lib E) i (kvSeek (kv E) b (toUri (lib E) (iName i))) ''''
             in if key \<noteq> '''' then impl_get E e (ofUri (lib E) key) else Inr None)
      else impl_get E e (iName i))"

text \<open>\<open>StorageEngine\<close> passes its calls on.\<close>

definition se_get :: "'db env \<Rightarrow> 'db engine \<Rightarrow> name \<Rightarrow> data option result" where
  "se_get E e n = impl_get E e n"

definition se_read :: "'db env \<Rightarrow> 'db engine \<Rightarrow> interest \<Rightarrow> data option result" where
  "se_read E e i = impl_read E e i"

declare se_get_def [simp] se_read_def [simp]

section \<open>The scan for prefixes\<close>

fun key_loop :: "(string \<times> bytes) list \<Rightarrow> trie_node \<Rightarrow> stats \<Rightarrow> trie_node \<times> stats" where
  "key_loop [] t st = (t, st)"
| "key_loop ((k, v) # it) t st =
     key_loop it (trie_insert k t)
       (st\<lparr>nKeys := nKeys st + 1, valueSizeBytes := valueSizeBytes st + of_nat (length v)\<rparr>)"

definition buildKeyTrie :: "'db env \<Rightarrow> 'db engine \<Rightarrow> 'db engine result" where
  "buildKeyTrie E e =
     (case db e of
        None \<Rightarrow> Inl (UndefinedBehaviour ''null database'')
      | Some b \<Rightarrow>
          let (t, st) = key_loop (kvSeekToFirst (kv E) b) (keysTrie e)
                          \<lparr>nKeys = 0, valueSizeBytes = 0\<rparr>
          in Inr (e\<lparr>keysTrie := t, engineStats := Some st\<rparr>))"

text \<open>
  The task that \<open>getLongestPrefixes\<close> dispatches: the new engine and the argument of the
  completion callback.
\<close>

definition se_scan :: "'db env \<Rightarrow> 'db engine \<Rightarrow> ('db engine \<times> name list) result" where
  "se_scan E e =
     (case buildKeyTrie E e of
        Inl ex \<Rightarrow> Inl ex
      | Inr e' \<Rightarrow> Inr (e'\<lparr>keysTrieBuilt := True\<rparr>, getLongestPrefixes (lib E) (keysTrie e')))"

text \<open>Like \<open>get\<close> and \<open>read\<close>, the call is passed on.\<close>

definition scanForLongestPrefixes :: "'db env \<Rightarrow> 'db engine \<Rightarrow> ('db engine \<times> name list) result" where
  "scanForLongestPrefixes E e = se_scan E e"

declare scanForLongestPrefixes_def [simp]

definition getPayloadSize :: "'db engine \<Rightarrow> 64 word result" where
  "getPayloadSize e = (case engineStats e of
     None \<Rightarrow> Inl (UndefinedBehaviour ''uninitialised stats'') | Some st \<Rightarrow> Inr (valueSizeBytes st))"

definition getKeysNum :: "'db engine \<Rightarrow> 64 word result" where
  "getKeysNum e = (case engineStats e of
     None \<Rightarrow> Inl (UndefinedBehaviour ''uninitialised stats'') | Some st \<Rightarrow> Inr (nKeys st))"

definition getRenamePrefix :: "'db engine \<Rightarrow> string" where
  "getRenamePrefix e = renamePrefix e"

lemmas [engine_simps] = impl_put_def se_put_def impl_get_def impl_read_def

section \<open>What the engine holds\<close>

definition env_ok :: "'db env \<Rightarrow> bool" where
  "env_ok E \<longleftrightarrow> uri_laws (lib E) \<and> wire_laws (lib E) \<and> packet_laws (lib E) \<and> kv_laws (kv E)"

text \<open>The abstraction: the packet stored under each name.\<close>

definition stored :: "'db env \<Rightarrow> 'db engine \<Rightarrow> name \<Rightarrow> data option" where
  "stored E e n = (case db e of None \<Rightarrow> None
     | Some b \<Rightarrow> Option.bind (kvGet (kv E) b (toUri (lib E) n)) (wireDecode (lib E)))"

text \<open>
  The invariant of an open engine: every entry is the wire format of a packet, under the URI of
  that packet's name.
\<close>

definition engine_ok :: "'db env \<Rightarrow> 'db engine \<Rightarrow> bool" where
  "engine_ok E e \<longleftrightarrow> env_ok E \<and> (\<exists>b. db e = Some b \<and>
     (\<forall>(k, v) \<in> set (kvSeekToFirst (kv E) b).
        \<exists>d. k = toUri (lib E) (dName d) \<and> v = wireEncode (lib E) d))"

text \<open>The packet that \<open>put\<close> writes.\<close>

definition as_stored :: "'db env \<Rightarrow> 'db engine \<Rightarrow> data \<Rightarrow> data" where
  "as_stored E e d =
     (if renamePrefix e \<noteq> '''' then renamed_data (lib E) (renamePrefix e) d else d)"

definition packets_only :: "'db env \<Rightarrow> 'db \<Rightarrow> bool" where
  "packets_only E b \<longleftrightarrow> (\<forall>k v. kvGet (kv E) b k = Some v \<longrightarrow>
     (\<exists>d. k = toUri (lib E) (dName d) \<and> v = wireEncode (lib E) d))"

lemma packets_onlyD: "packets_only E b \<Longrightarrow> kvGet (kv E) b k = Some v \<Longrightarrow>
    \<exists>d. k = toUri (lib E) (dName d) \<and> v = wireEncode (lib E) d"
  by (simp add: packets_only_def)

lemma env_okD:
  assumes "env_ok E"
  shows env_uri: "uri_laws (lib E)" and env_wire: "wireDecode (lib E) (wireEncode (lib E) d) = Some d"
    and env_packet: "packet_laws (lib E)" and env_kv: "kv_laws (kv E)"
  using assms by (simp_all add: env_ok_def wire_laws_def)

lemma engine_env: "engine_ok E e \<Longrightarrow> env_ok E"
  by (simp add: engine_ok_def)

lemma engine_ok_iff:
  "engine_ok E e \<longleftrightarrow> env_ok E \<and> (\<exists>b. db e = Some b \<and> packets_only E b)"
  by (auto simp: engine_ok_def packets_only_def kv_get_mem [OF env_kv])

lemma engine_okE:
  assumes "engine_ok E e"
  obtains b where "env_ok E" "db e = Some b" "packets_only E b"
  using assms by (auto simp: engine_ok_iff)

text \<open>An entry, seen through the abstraction.\<close>

lemma stored_iff:
  assumes "engine_ok E e" and b: "db e = Some b"
  shows "stored E e n = Some d
     \<longleftrightarrow> dName d = n \<and> kvGet (kv E) b (toUri (lib E) n) = Some (wireEncode (lib E) d)"
proof -
  from assms have E: "env_ok E" and ent: "packets_only E b"
    by (auto simp: engine_ok_iff)
  show ?thesis
  proof
    assume "stored E e n = Some d"
    with b obtain v where v: "kvGet (kv E) b (toUri (lib E) n) = Some v" "wireDecode (lib E) v = Some d"
      by (auto simp: stored_def bind_eq_Some_conv)
    obtain d' where d': "toUri (lib E) n = toUri (lib E) (dName d')" "v = wireEncode (lib E) d'"
      using packets_onlyD [OF ent v(1)] by blast
    then have "n = dName d'" "d' = d"
      using uri_inject [OF env_uri [OF E]] v(2) by (simp_all add: env_wire [OF E])
    with v d' show "dName d = n \<and> kvGet (kv E) b (toUri (lib E) n) = Some (wireEncode (lib E) d)"
      by simp
  next
    assume "dName d = n \<and> kvGet (kv E) b (toUri (lib E) n) = Some (wireEncode (lib E) d)"
    with b show "stored E e n = Some d"
      by (simp add: stored_def env_wire [OF E])
  qed
qed

lemma stored_name: "engine_ok E e \<Longrightarrow> stored E e n = Some d \<Longrightarrow> dName d = n"
  by (metis engine_okE stored_iff)

lemma stored_keys:
  assumes "engine_ok E e" and b: "db e = Some b"
  shows "k \<in> set (map fst (kvSeekToFirst (kv E) b))
     \<longleftrightarrow> (\<exists>n. k = toUri (lib E) n \<and> stored E e n \<noteq> None)"
proof -
  from assms have E: "env_ok E" and ent: "packets_only E b"
    by (auto simp: engine_ok_iff)
  have "k \<in> set (map fst (kvSeekToFirst (kv E) b)) \<longleftrightarrow> (\<exists>v. kvGet (kv E) b k = Some v)"
    by (force simp: kv_get_mem [OF env_kv [OF E]])
  also have "\<dots> \<longleftrightarrow> (\<exists>n. k = toUri (lib E) n \<and> stored E e n \<noteq> None)"
    using packets_onlyD [OF ent] by (auto simp: stored_iff [OF assms] not_None_eq) blast
  finally show ?thesis .
qed

lemma get_stored:
  assumes "engine_ok E e"
  shows "impl_get E e n = Inr (stored E e n)"
proof -
  from assms obtain b where b: "env_ok E" "db e = Some b"
    and ent: "packets_only E b"
    by (rule engine_okE)
  then show ?thesis
    by (auto simp: impl_get_def stored_def env_wire dest!: packets_onlyD [OF ent] split: option.split)
qed

section \<open>Writing\<close>

lemma put_cases:
  assumes "db e = Some b"
  obtains ok b' where
    "kvPut (kv E) b (toUri (lib E) (dName (as_stored E e d))) (wireEncode (lib E) (as_stored E e d))
       = (ok, b')"
    "impl_put E e d = Inr (e\<lparr>db := Some b'\<rparr>, if ok then dName (as_stored E e d) else [])"
proof -
  let ?d = "as_stored E e d"
  obtain ok b' where p: "kvPut (kv E) b (toUri (lib E) (dName ?d)) (wireEncode (lib E) ?d) = (ok, b')"
    by fastforce
  moreover from p assms have
    "impl_put E e d = Inr (e\<lparr>db := Some b'\<rparr>, if ok then dName ?d else [])"
    by (simp add: impl_put_def as_stored_def Let_def split: if_splits)
  ultimately show thesis by (rule that)
qed

lemma put_total: "engine_ok E e \<Longrightarrow> \<exists>e' n. impl_put E e d = Inr (e', n)"
  by (metis engine_okE put_cases)

text \<open>
  A successful write updates the abstraction at one name; a failed one leaves it alone and
  returns the empty name. Either way the invariant is kept.
\<close>

lemma put_effect:
  fixes d :: data
  assumes ok: "engine_ok E e" and b: "db e = Some b"
    and p: "kvPut (kv E) b (toUri (lib E) (dName (as_stored E e d)))
       (wireEncode (lib E) (as_stored E e d)) = (s, b')"
  shows "engine_ok E (e\<lparr>db := Some b'\<rparr>)"
    and "stored E (e\<lparr>db := Some b'\<rparr>) =
      (if s then (stored E e)(dName (as_stored E e d) \<mapsto> as_stored E e d) else stored E e)"
    and "impl_put E e d = Inr (e\<lparr>db := Some b'\<rparr>, if s then dName (as_stored E e d) else [])"
proof -
  from ok b have E: "env_ok E" and ent: "packets_only E b" by (auto simp: engine_ok_iff)
  note g = kv_get_put [OF env_kv [OF E] p]
  show "engine_ok E (e\<lparr>db := Some b'\<rparr>)"
    using E packets_onlyD [OF ent]
    by (auto simp: engine_ok_iff packets_only_def g split: if_splits)
  show "stored E (e\<lparr>db := Some b'\<rparr>) =
      (if s then (stored E e)(dName (as_stored E e d) \<mapsto> as_stored E e d) else stored E e)"
    using b uri_inject [OF env_uri [OF E]]
    by (auto simp: fun_eq_iff stored_def g env_wire [OF E])
  show "impl_put E e d = Inr (e\<lparr>db := Some b'\<rparr>, if s then dName (as_stored E e d) else [])"
    using b p by (simp add: impl_put_def as_stored_def Let_def split: if_splits)
qed

lemma put_refines:
  assumes ok: "engine_ok E e" and put: "impl_put E e d = Inr (e', n)"
  shows "engine_ok E e' \<and> renamePrefix e' = renamePrefix e \<and>
     (n = dName (as_stored E e d) \<and> stored E e' = (stored E e)(n \<mapsto> as_stored E e d)
      \<or> n = [] \<and> stored E e' = stored E e)"
proof -
  obtain b where b: "db e = Some b" using ok by (rule engine_okE)
  obtain s b' where p: "kvPut (kv E) b (toUri (lib E) (dName (as_stored E e d)))
      (wireEncode (lib E) (as_stored E e d)) = (s, b')"
    and r: "impl_put E e d = Inr (e\<lparr>db := Some b'\<rparr>, if s then dName (as_stored E e d) else [])"
    using b by (rule put_cases)
  have "e' = e\<lparr>db := Some b'\<rparr>" "n = (if s then dName (as_stored E e d) else [])"
    using put r by simp_all
  with put_effect [OF ok b p] show ?thesis by auto
qed

section \<open>The contract of the packet store\<close>

text \<open>
  What the handlers rely on: \<open>put\<close> never fails with an exception, writes one packet or none,
  and tells which by the name it returns; \<open>get\<close> finds what was written.
\<close>

locale packet_store =
  fixes put :: "'e \<Rightarrow> 's \<Rightarrow> data \<Rightarrow> ('s \<times> name \<times> name) result"
    and get :: "'e \<Rightarrow> 's \<Rightarrow> name \<Rightarrow> data option result"
    and inv :: "'e \<Rightarrow> 's \<Rightarrow> bool"
    and holds :: "'e \<Rightarrow> 's \<Rightarrow> name \<Rightarrow> data option"
    and packet :: "'e \<Rightarrow> 's \<Rightarrow> data \<Rightarrow> data"
  assumes put_returns: "inv E s \<Longrightarrow> \<exists>s' n. put E s d = Inr (s', n, dName d)"
    and put_inv: "inv E s \<Longrightarrow> put E s d = Inr (s', n, g) \<Longrightarrow> inv E s'"
    and put_holds: "inv E s \<Longrightarrow> put E s d = Inr (s', n, g) \<Longrightarrow>
       n = dName (packet E s d) \<and> holds E s' = (holds E s)(n \<mapsto> packet E s d)
       \<or> n = [] \<and> holds E s' = holds E s"
    and put_packet: "inv E s \<Longrightarrow> put E s d = Inr (s', n, g) \<Longrightarrow> packet E s' = packet E s"
    and get_holds: "inv E s \<Longrightarrow> get E s m = Inr (holds E s m)"
begin

lemma put_then_get:
  "inv E s \<Longrightarrow> put E s d = Inr (s', n, g) \<Longrightarrow> n \<noteq> [] \<Longrightarrow>
     n = dName (packet E s d) \<and> get E s' n = Inr (Some (packet E s d))"
  using put_holds [of E s d s' n g] get_holds [of E s' n] put_inv [of E s d s' n g] by auto

lemma put_frame:
  "inv E s \<Longrightarrow> put E s d = Inr (s', n, g) \<Longrightarrow> m \<noteq> dName (packet E s d) \<Longrightarrow>
     get E s' m = get E s m"
  using put_holds [of E s d s' n g] get_holds [of E s' m] put_inv [of E s d s' n g]
  by (auto simp: get_holds)

lemma put_keeps:
  "inv E s \<Longrightarrow> put E s d = Inr (s', n, g) \<Longrightarrow> holds E s m \<noteq> None \<Longrightarrow> holds E s' m \<noteq> None"
  using put_holds [of E s d s' n g] by auto

lemma put_failed: "inv E s \<Longrightarrow> put E s d = Inr (s', [], g) \<Longrightarrow>
    dName (packet E s d) \<noteq> [] \<Longrightarrow> holds E s' = holds E s"
  using put_holds [of E s d s' "[]" g] by auto

lemma put_same_twice:
  assumes "inv E s" "put E s d = Inr (s', n, g)" "put E s' d = Inr (s'', n', g')" "n \<noteq> []"
  shows "holds E s'' = holds E s'"
  using put_holds [OF assms(1,2)] put_holds [OF put_inv [OF assms(1,2)] assms(3)]
    put_packet [OF assms(1,2)] assms(4) by auto

end

interpretation se: packet_store se_put impl_get engine_ok stored as_stored
proof unfold_locales
  fix E :: "'db env" and s s' :: "'db engine" and d :: data and n g m :: name
  assume inv: "engine_ok E s"
  show "\<exists>s' n. se_put E s d = Inr (s', n, dName d)"
    using put_total [OF inv, of d] by (auto simp: se_put_def)
  show "impl_get E s m = Inr (stored E s m)"
    using inv by (rule get_stored)
  assume "se_put E s d = Inr (s', n, g)"
  then have put: "impl_put E s d = Inr (s', n)"
    by (auto simp: se_put_def split: sum.splits)
  note ref = put_refines [OF inv put]
  from ref show "engine_ok E s'" by blast
  from ref show "n = dName (as_stored E s d) \<and> stored E s' = (stored E s)(n \<mapsto> as_stored E s d)
      \<or> n = [] \<and> stored E s' = stored E s" by blast
  from ref show "as_stored E s' = as_stored E s" by (simp add: as_stored_def fun_eq_iff)
qed

end
