(* ===== verification/Storage_Read.thy ===== *)
theory Storage_Read
  imports Storage_Engine
begin

text \<open>
  What \<open>read\<close> and the prefix scan of the storage engine compute, in terms of the packets that
  are stored and no longer of keys and iterators.
\<close>

section \<open>Prefixes of URIs\<close>

text \<open>
  \<open>starts_with\<close> on URIs, told in names: all components but the last of the first name are
  components of the second one, and the last one's escaped text starts the text of its
  counterpart.
\<close>

fun near_prefix :: "ndn_lib \<Rightarrow> name \<Rightarrow> name \<Rightarrow> bool" where
  "near_prefix L [] m \<longleftrightarrow> True"
| "near_prefix L [c] m \<longleftrightarrow> (case m of [] \<Rightarrow> False | d # m' \<Rightarrow> prefix (escaped L c) (escaped L d))"
| "near_prefix L (c # n) m \<longleftrightarrow> (case m of [] \<Rightarrow> False | d # m' \<Rightarrow> c = d \<and> near_prefix L n m')"

lemma near_prefix_butlast:
  "near_prefix L n m \<Longrightarrow> prefix (butlast n) m"
  by (induction L n m rule: near_prefix.induct) (auto split: list.splits)

lemma prefix_near_prefix: "prefix n m \<Longrightarrow> near_prefix L n m"
  by (induction L n m rule: near_prefix.induct) (auto split: list.splits)

lemma near_prefix_snoc:
  "near_prefix L (n @ [c]) (n @ c' # m) \<longleftrightarrow> prefix (escaped L c) (escaped L c')"
proof (induction n)
  case (Cons d n)
  then show ?case by (cases n) auto
qed simp

text \<open>Slash-free texts in front of a slash or of the end.\<close>

lemma slash_free_prefix:
  assumes "CHR ''/'' \<notin> set s" and "r = [] \<or> (\<exists>q. r = CHR ''/'' # q)"
  shows "prefix s (t @ r) \<longleftrightarrow> prefix s t"
  using assms(1)
proof (induction s arbitrary: t)
  case Nil
  show ?case by simp
next
  case (Cons x s)
  with assms(2) show ?case by (cases t) auto
qed

lemma slash_free_split:
  assumes "CHR ''/'' \<notin> set s" "CHR ''/'' \<notin> set t" and "r = [] \<or> (\<exists>q. r = CHR ''/'' # q)"
  shows "prefix (s @ CHR ''/'' # p) (t @ r) \<longleftrightarrow> s = t \<and> prefix (CHR ''/'' # p) r"
  using assms(1,2)
proof (induction s arbitrary: t)
  case Nil
  with assms(3) show ?case by (cases t) auto
next
  case (Cons x s)
  with assms(3) show ?case by (cases t) auto
qed

lemma slashed_form:
  "concat (map (\<lambda>c. CHR ''/'' # f c) m) = [] \<or> (\<exists>q. concat (map (\<lambda>c. CHR ''/'' # f c) m) = CHR ''/'' # q)"
  by (cases m) auto

lemma slashed_prefix:
  assumes L: "uri_laws L"
  shows "n \<noteq> [] \<Longrightarrow> prefix (concat (map (\<lambda>c. CHR ''/'' # escaped L c) n))
      (concat (map (\<lambda>c. CHR ''/'' # escaped L c) m)) \<longleftrightarrow> near_prefix L n m"
proof (induction n arbitrary: m)
  case Nil
  then show ?case by simp
next
  case (Cons c n)
  note sf = escaped_slash [OF L] and form = slashed_form [of "escaped L"]
  show ?case
  proof (cases m)
    case Nil
    then show ?thesis by (cases n) simp_all
  next
    case m: (Cons d m')
    show ?thesis
    proof (cases n)
      case Nil
      with m show ?thesis
        using slash_free_prefix [OF sf form, of c "escaped L d" m'] by simp
    next
      case n: (Cons x n')
      with m Cons.IH [of m'] show ?thesis
        using slash_free_split [OF sf sf form, of c _ d m'] escaped_inject [OF L] by simp
    qed
  qed
qed

lemma uri_prefix_iff:
  assumes L: "uri_laws L"
  shows "prefix (toUri L n) (toUri L m) \<longleftrightarrow> near_prefix L n m"
proof (cases n)
  case Nil
  then show ?thesis by (cases m) (simp_all add: uri_nil [OF L] uri_cons [OF L])
next
  case n: (Cons c n')
  show ?thesis
  proof (cases m)
    case Nil
    moreover have "\<not> prefix (toUri L n) ''/''"
      using n escaped_ne [OF L, of c] by (cases "escaped L c") (auto simp: uri_cons [OF L])
    ultimately show ?thesis using n by (cases n') (simp_all add: uri_nil [OF L])
  next
    case (Cons d m')
    with n show ?thesis
      using slashed_prefix [OF L, of n m] by (simp add: uri_cons [OF L])
  qed
qed

section \<open>The prefix match\<close>

text \<open>
  The bounds are looked at one by one: a name passes when it meets either of the bounds that
  are set. \<open>k\<close> is the number of components it has beyond the interest's name.
\<close>

definition bounds_met :: "interest \<Rightarrow> int \<Rightarrow> bool" where
  "bounds_met i k \<longleftrightarrow>
     maxSuffixComponents i = -1 \<and> minSuffixComponents i = -1
     \<or> maxSuffixComponents i \<noteq> -1 \<and> k \<le> maxSuffixComponents i
     \<or> minSuffixComponents i \<noteq> -1 \<and> minSuffixComponents i \<le> k"

definition candidate :: "ndn_lib \<Rightarrow> interest \<Rightarrow> name \<Rightarrow> bool" where
  "candidate L i n \<longleftrightarrow>
     near_prefix L (iName i) n \<and> bounds_met i (int (length n) - int (length (iName i)))"

lemma prefix_scan_eq:
  "prefix_scan L i it key =
     (let ks = filter (pass_check L i) (map fst (takeWhile (\<lambda>e. prefix (toUri L (iName i)) (fst e)) it))
      in if ks = [] then key else last ks)"
  by (induction L i it key rule: prefix_scan.induct) (auto simp: Let_def)

lemma pass_check_uri:
  "uri_laws L \<Longrightarrow> pass_check L i (toUri L n) \<longleftrightarrow>
     bounds_met i (int (length n) - int (length (iName i)))"
  by (auto simp: pass_check_def bounds_met_def of_to_uri Let_def)

text \<open>
  The loop ends with the greatest key of a candidate, in the order of the URIs.
\<close>

lemma scan_key:
  fixes i :: interest
  assumes ok: "engine_ok E e" and b: "db e = Some b"
  defines "key \<equiv> prefix_scan (lib E) i (kvSeek (kv E) b (toUri (lib E) (iName i))) ''''"
  shows "(key = '''' \<and> (\<forall>m. stored E e m \<noteq> None \<longrightarrow> \<not> candidate (lib E) i m))
    \<or> (\<exists>n. key = toUri (lib E) n \<and> stored E e n \<noteq> None \<and> candidate (lib E) i n
         \<and> (\<forall>m. stored E e m \<noteq> None \<and> candidate (lib E) i m \<longrightarrow> toUri (lib E) m \<le> key))"
proof -
  let ?L = "lib E" and ?es = "kvSeekToFirst (kv E) b"
  note E = engine_env [OF ok]
  note L = env_uri [OF E] and K = env_kv [OF E]
  define ks where "ks = filter (\<lambda>k. prefix (toUri ?L (iName i)) k \<and> pass_check ?L i k) (map fst ?es)"
  have key: "key = (if ks = [] then '''' else last ks)"
    by (simp add: key_def prefix_scan_eq kv_prefix_scan [OF K] ks_def filter_map o_def conj_commute
        Let_def)
  have mem: "toUri ?L m \<in> set ks \<longleftrightarrow> stored E e m \<noteq> None \<and> candidate ?L i m" for m
    using stored_keys [OF ok b, of "toUri ?L m"]
    by (auto simp: ks_def candidate_def pass_check_uri [OF L] uri_prefix_iff [OF L]
        uri_inject [OF L])
  have uri: "\<exists>n. k = toUri ?L n" if "k \<in> set ks" for k
    using that stored_keys [OF ok b, of k] by (auto simp: ks_def)
  show ?thesis
  proof (cases "ks = []")
    case True
    with key have "key = []" by simp
    moreover have "\<forall>m. stored E e m \<noteq> None \<longrightarrow> \<not> candidate ?L i m"
      using mem unfolding True by (metis empty_iff list.set(1))
    ultimately show ?thesis by blast
  next
    case False
    have "sorted_wrt (<) ks"
      unfolding ks_def by (rule sorted_wrt_filter) (rule kv_sorted [OF K])
    then have max: "k \<le> last ks" if "k \<in> set ks" for k
      using that by (rule last_filter_sorted_max)
    obtain n where "last ks = toUri ?L n"
      using uri [OF last_in_set [OF False]] by blast
    with key mem max False show ?thesis by (metis last_in_set)
  qed
qed

lemma read_prefix_cases:
  assumes ok: "engine_ok E e" and can: "canBePrefix i"
  obtains (found) d where "impl_read E e i = Inr (Some d)" "stored E e (dName d) = Some d"
      "candidate (lib E) i (dName d)"
      "\<And>m. stored E e m \<noteq> None \<Longrightarrow> candidate (lib E) i m \<Longrightarrow>
         toUri (lib E) m \<le> toUri (lib E) (dName d)"
  | (absent) "impl_read E e i = Inr None"
      "\<And>m. stored E e m \<noteq> None \<Longrightarrow> \<not> candidate (lib E) i m"
proof -
  obtain b where b: "db e = Some b" using ok by (rule engine_okE)
  note L = env_uri [OF engine_env [OF ok]]
  let ?key = "prefix_scan (lib E) i (kvSeek (kv E) b (toUri (lib E) (iName i))) ''''"
  from scan_key [OF ok b, of i] show thesis
  proof
    assume "?key = '''' \<and> (\<forall>m. stored E e m \<noteq> None \<longrightarrow> \<not> candidate (lib E) i m)"
    with can b show thesis by (intro absent) (auto simp: impl_read_def)
  next
    assume "\<exists>n. ?key = toUri (lib E) n \<and> stored E e n \<noteq> None \<and> candidate (lib E) i n
         \<and> (\<forall>m. stored E e m \<noteq> None \<and> candidate (lib E) i m \<longrightarrow> toUri (lib E) m \<le> ?key)"
    then obtain n d where n: "?key = toUri (lib E) n" "stored E e n = Some d" "candidate (lib E) i n"
      "\<forall>m. stored E e m \<noteq> None \<and> candidate (lib E) i m \<longrightarrow> toUri (lib E) m \<le> ?key"
      by auto
    have "dName d = n" using stored_name [OF ok n(2)] .
    moreover have "impl_read E e i = Inr (Some d)"
      using can b n(1,2) uri_ne [OF L, of n]
      by (simp add: impl_read_def of_to_uri [OF L] get_stored [OF ok])
    ultimately show thesis using n by (intro found) auto
  qed
qed

section \<open>The scan for prefixes\<close>

lemma key_loop_eq:
  "key_loop es t st =
     (insert_keys (map fst es) t,
      st\<lparr>nKeys := nKeys st + of_nat (length es),
         valueSizeBytes := valueSizeBytes st + of_nat (sum_list (map (\<lambda>e. length (snd e)) es))\<rparr>)"
  by (induction es t st rule: key_loop.induct) (simp_all add: algebra_simps)

text \<open>The names of all stored packets, in the order of the keys.\<close>

definition stored_names :: "'db env \<Rightarrow> 'db \<Rightarrow> name list" where
  "stored_names E b = map (ofUri (lib E)) (map fst (kvSeekToFirst (kv E) b))"

lemma stored_names_keys:
  assumes "engine_ok E e" and "db e = Some b"
  shows "map fst (kvSeekToFirst (kv E) b) = map (toUri (lib E)) (stored_names E b)"
    and "set (stored_names E b) = {n. stored E e n \<noteq> None}"
    and "distinct (stored_names E b)"
proof -
  note L = env_uri [OF engine_env [OF assms(1)]]
  let ?ks = "map fst (kvSeekToFirst (kv E) b)"
  have uri: "toUri (lib E) (ofUri (lib E) k) = k" if "k \<in> set ?ks" for k
    using that stored_keys [OF assms, of k] by (auto simp: of_to_uri [OF L])
  have "map (toUri (lib E)) (map (ofUri (lib E)) ?ks) = ?ks"
    unfolding map_map [of "toUri (lib E)"] by (rule map_idI) (simp only: comp_apply uri)
  then show keys: "?ks = map (toUri (lib E)) (stored_names E b)"
    by (simp only: stored_names_def)
  have "n \<in> set (stored_names E b) \<longleftrightarrow> toUri (lib E) n \<in> set ?ks" for n
    unfolding keys using uri_inject [OF L] by auto
  then show "set (stored_names E b) = {n. stored E e n \<noteq> None}"
    using stored_keys [OF assms] uri_inject [OF L] by auto
  have "distinct (map (toUri (lib E)) (stored_names E b))"
    using kv_sorted [OF env_kv [OF engine_env [OF assms(1)]]]
    unfolding keys [symmetric] by (rule sorted_keys_distinct)
  then show "distinct (stored_names E b)" by (rule distinct_map [THEN iffD1, THEN conjunct1])
qed

lemma scan_first:
  assumes ok: "engine_ok E e" and fresh: "keysTrie e = new_node"
    and scan: "se_scan E e = Inr (e', ps)"
  obtains ns where "set ns = {n. stored E e n \<noteq> None}" "distinct ns"
    "ps = getLongestPrefixes (lib E) (keys_trie (lib E) ns)"
    "getKeysNum e' = Inr (of_nat (length ns))" "stored E e' = stored E e" "engine_ok E e'"
proof -
  obtain b where b: "db e = Some b" using ok by (rule engine_okE)
  note names = stored_names_keys [OF ok b]
  have len: "length (stored_names E b) = length (kvSeekToFirst (kv E) b)"
    by (simp add: stored_names_def)
  have e': "e' = e\<lparr>keysTrie := keys_trie (lib E) (stored_names E b), keysTrieBuilt := True,
       engineStats := engineStats e'\<rparr>"
    "ps = getLongestPrefixes (lib E) (keys_trie (lib E) (stored_names E b))"
    "getKeysNum e' = Inr (of_nat (length (stored_names E b)))"
    using scan b fresh names(1) len
    by (auto simp: se_scan_def buildKeyTrie_def key_loop_eq getKeysNum_def)
  have db: "db e' = db e" by (subst e'(1)) simp
  then have "stored E e' = stored E e" by (simp add: stored_def fun_eq_iff)
  moreover from db ok have "engine_ok E e'" by (simp add: engine_ok_def)
  ultimately show thesis using names(2,3) e'(2,3) by (intro that)
qed

lemma scan_returns: "engine_ok E e \<Longrightarrow> \<exists>e' ps. se_scan E e = Inr (e', ps)"
  by (erule engine_okE) (simp add: se_scan_def buildKeyTrie_def key_loop_eq)

text \<open>Some reported prefix begins with the first component of a stored name.\<close>

lemma scan_heads:
  assumes ok: "engine_ok E e" and fresh: "keysTrie e = new_node"
    and gen: "\<forall>n. stored E e n \<noteq> None \<longrightarrow> generic_name n"
    and scan: "se_scan E e = Inr (e', ps)" and n: "stored E e n \<noteq> None" "n \<noteq> []"
  shows "\<exists>P \<in> set ps. hd P = hd n"
proof -
  obtain ns where ns: "set ns = {n. stored E e n \<noteq> None}"
    "ps = getLongestPrefixes (lib E) (keys_trie (lib E) ns)"
    using ok fresh scan by (rule scan_first)
  have "\<forall>n \<in> set ns. generic_name n" "n \<in> set ns" using gen n(1) ns(1) by auto
  then show ?thesis
    using prefix_exists [OF env_uri [OF engine_env [OF ok]] _ _ n(2)] ns(2) by metis
qed

text \<open>A name no stored name extends has a reported prefix.\<close>

lemma scan_outer_names:
  assumes ok: "engine_ok E e" and fresh: "keysTrie e = new_node"
    and gen: "\<forall>n. stored E e n \<noteq> None \<longrightarrow> generic_name n"
    and scan: "se_scan E e = Inr (e', ps)"
    and n: "stored E e n \<noteq> None" "n \<noteq> []"
    and outer: "\<forall>m. stored E e m \<noteq> None \<longrightarrow> \<not> strict_prefix n m"
  shows "\<exists>P \<in> set ps. prefix P n"
proof -
  note L = env_uri [OF engine_env [OF ok]]
  obtain ns where ns: "set ns = {n. stored E e n \<noteq> None}"
    "ps = getLongestPrefixes (lib E) (keys_trie (lib E) ns)"
    using ok fresh scan by (rule scan_first)
  have g: "\<forall>n \<in> set ns. generic_name n" and m: "n \<in> set ns" using gen n(1) ns(1) by auto
  obtain P where P: "P \<in> set (getLongestPrefixes (lib E) (keys_trie (lib E) ns))" "hd P = hd n"
    using prefix_exists [OF L g m n(2)] by metis
  obtain k where k: "k \<in> set ns" "prefix P k"
    using P(1) child_name(2) [OF L g] by (fastforce simp: mem_getLongestPrefixes)
  have "\<not> strict_prefix n P"
    using outer k ns(1) prefix_order.less_le_trans by blast
  then show ?thesis
    using prefix_comparable [OF L g P(1) m n(2)] P ns(2) by auto
qed

end
