(* ===== verification/Reference_Engine.thy ===== *)
theory Reference_Engine
  imports Storage_Engine
begin

text \<open>
  A storage engine on the concrete libraries of \<open>Reference_Lib\<close> and \<open>Rocks_Db\<close>, with packets
  and interests to fill and ask it: the inputs of the witnesses.
\<close>

section \<open>A concrete engine\<close>

definition ref_env :: "(string, bytes) omap env" where
  "ref_env = \<lparr>lib = ref_lib, kv = ref_kv\<rparr>"

definition ref_packet :: "bytes list \<Rightarrow> bytes \<Rightarrow> data" where
  "ref_packet cs c = \<lparr>dName = map generic cs,
     dMetaInfo = \<lparr>freshnessPeriod = None, finalBlockId = None\<rparr>,
     dContent = c, dSignature = NoSignature\<rparr>"

definition ref_interest :: "bytes list \<Rightarrow> bool \<Rightarrow> interest" where
  "ref_interest cs can = \<lparr>iName = map generic cs, canBePrefix = can, mustBeFresh = False,
     minSuffixComponents = -1, maxSuffixComponents = -1, lifetimeMs = None\<rparr>"

text \<open>An opened engine with a rename prefix, and one into which packets have been put.\<close>

definition ref_open :: "string \<Rightarrow> (string, bytes) omap engine" where
  "ref_open p = (impl_new ''db'')\<lparr>db := Some omap_empty, renamePrefix := p\<rparr>"

definition ref_store :: "data list \<Rightarrow> (string, bytes) omap engine" where
  "ref_store ds = fold (\<lambda>d e. case impl_put ref_env e d of Inl _ \<Rightarrow> e | Inr (e', _) \<Rightarrow> e')
     ds (ref_open [])"

lemma ref_env_sel [simp]: "lib ref_env = ref_lib" "kv ref_env = ref_kv"
  by (simp_all add: ref_env_def)

lemma ref_env_ok: "env_ok ref_env"
  by (simp add: env_ok_def ref_uri_laws ref_wire_laws ref_packet_laws ref_kv_laws)

lemma ref_packet_sel [simp]: "dName (ref_packet cs c) = map generic cs" "dContent (ref_packet cs c) = c"
  by (simp_all add: ref_packet_def)

lemma ref_open_ok: "engine_ok ref_env (ref_open p)"
  by (simp add: engine_ok_iff ref_env_ok ref_open_def packets_only_def)

lemma ref_open_stored: "stored ref_env (ref_open p) = Map.empty"
  by (simp add: stored_def ref_open_def fun_eq_iff)

lemma ref_put:
  assumes "engine_ok ref_env e"
  obtains e' where "impl_put ref_env e d = Inr (e', dName (as_stored ref_env e d))"
    "engine_ok ref_env e'"
    "stored ref_env e' = (stored ref_env e)(dName (as_stored ref_env e d) \<mapsto> as_stored ref_env e d)"
    "renamePrefix e' = renamePrefix e" "keysTrie e' = keysTrie e"
proof -
  obtain b where b: "db e = Some b" using assms by (rule engine_okE)
  let ?e' = "e\<lparr>db := Some (omap_store (ref_toUri (dName (as_stored ref_env e d)))
      (ref_wireEncode (as_stored ref_env e d)) b)\<rparr>"
  have "kvPut (kv ref_env) b (toUri (lib ref_env) (dName (as_stored ref_env e d)))
      (wireEncode (lib ref_env) (as_stored ref_env e d)) = (True, the (db ?e'))"
    by simp
  from put_effect [OF assms b this] show thesis
    by (intro that [of ?e']) simp_all
qed

lemma ref_fold:
  fixes ds :: "data list"
  assumes "engine_ok ref_env e" "renamePrefix e = []" "keysTrie e = new_node"
  defines "r \<equiv> fold (\<lambda>d e. case impl_put ref_env e d of Inl _ \<Rightarrow> e | Inr (e', _) \<Rightarrow> e') ds e"
  shows "engine_ok ref_env r \<and> renamePrefix r = [] \<and> keysTrie r = new_node \<and>
    stored ref_env r = fold (\<lambda>d m. m(dName d \<mapsto> d)) ds (stored ref_env e)"
  using assms(1-3) unfolding r_def
proof (induction ds arbitrary: e)
  case Nil
  then show ?case by simp
next
  case (Cons d ds)
  obtain e' where e': "impl_put ref_env e d = Inr (e', dName (as_stored ref_env e d))"
    "engine_ok ref_env e'"
    "stored ref_env e' = (stored ref_env e)(dName (as_stored ref_env e d) \<mapsto> as_stored ref_env e d)"
    "renamePrefix e' = renamePrefix e" "keysTrie e' = keysTrie e"
    using Cons.prems(1) by (rule ref_put)
  with Cons.IH [of e'] Cons.prems show ?case by (simp add: as_stored_def)
qed

lemma ref_store:
  "engine_ok ref_env (ref_store ds)" "renamePrefix (ref_store ds) = []"
  "keysTrie (ref_store ds) = new_node"
  "stored ref_env (ref_store ds) = fold (\<lambda>d m. m(dName d \<mapsto> d)) ds Map.empty"
  using ref_fold [OF ref_open_ok, of "[]" ds] ref_open_stored [of "[]"]
  by (simp_all add: ref_store_def ref_open_def impl_new_def)

end
