(* ===== verification/Storage_Properties.thy ===== *)
theory Storage_Properties
  imports Storage_Read Reference_Engine
begin

text \<open>
  The properties of the storage engine: writing and reading back, renaming, the prefix match
  of \<open>read\<close> with its two weak points (a match inside a component, and suffix bounds that
  cancel each other), and the prefixes found by the scan at start.
\<close>

section \<open>Writing and reading back\<close>

text \<open>
  C19: a packet whose \<open>put\<close> reports a name is returned by \<open>read\<close> for an exact interest in that
  name, as it was written (renamed, if the engine renames).
\<close>

theorem put_read_roundtrip:
  assumes "engine_ok E e" and "se_put E e d = Inr (e', n, g)" and "n \<noteq> []"
    and "\<not> canBePrefix i" and "iName i = n"
  shows "impl_read E e' i = Inr (Some (as_stored E e d)) \<and> dName (as_stored E e d) = n"
  using se.put_then_get [OF assms(1-3)] assms(4,5) by (auto simp: impl_read_def)

theorem put_read_roundtrip_witness:
  "\<exists>e'. se_put ref_env (ref_open []) (ref_packet [''a'', ''b''] ''x'')
      = Inr (e', map generic [''a'', ''b''], map generic [''a'', ''b''])
    \<and> impl_read ref_env e' (ref_interest [''a'', ''b''] False) = Inr (Some (ref_packet [''a'', ''b''] ''x''))"
proof -
  let ?d = "ref_packet [''a'', ''b''] ''x''" and ?e = "ref_open []"
  have st: "as_stored ref_env ?e ?d = ?d" by (simp add: as_stored_def ref_open_def)
  obtain e' where "impl_put ref_env ?e ?d = Inr (e', dName (as_stored ref_env ?e ?d))"
    using ref_open_ok by (rule ref_put)
  then have put: "se_put ref_env ?e ?d = Inr (e', map generic [''a'', ''b''], map generic [''a'', ''b''])"
    by (simp add: se_put_def st)
  from put_read_roundtrip [OF ref_open_ok put, of "ref_interest [''a'', ''b''] False"]
  have "impl_read ref_env e' (ref_interest [''a'', ''b''] False) = Inr (Some ?d)"
    by (simp add: ref_interest_def st)
  with put show ?thesis by blast
qed

text \<open>
  With a rename prefix, a packet is stored under the prefix followed by its name, with its
  content and meta info, and with 32 zero bytes for a signature; nothing else changes.
\<close>

theorem put_renames:
  assumes "engine_ok E e" and "renamePrefix e \<noteq> []" and "se_put E e d = Inr (e', n, g)"
    and "n \<noteq> []"
  shows "n = ofUri (lib E) (renamePrefix e) @ dName d \<and>
    (\<exists>d'. stored E e' = (stored E e)(n \<mapsto> d') \<and> dName d' = n \<and> dContent d' = dContent d \<and>
       dMetaInfo d' = dMetaInfo d \<and> dSignature d' = DigestSha256 (replicate 32 (CHR 0x00)))"
proof -
  have "packet_laws (lib E)" using engine_env [OF assms(1)] by (rule env_packet)
  with assms(2) have "dName (as_stored E e d) = ofUri (lib E) (renamePrefix e) @ dName d"
    "dContent (as_stored E e d) = dContent d" "dMetaInfo (as_stored E e d) = dMetaInfo d"
    "dSignature (as_stored E e d) = DigestSha256 (replicate 32 (CHR 0x00))"
    by (simp_all add: as_stored_def renamed_data_def packet_laws_def)
  with se.put_holds [OF assms(1,3)] assms(4) show ?thesis by auto
qed

theorem put_renames_witness:
  "\<exists>e'. se_put ref_env (ref_open ''/repo'') (ref_packet [''a''] ''x'')
      = Inr (e', map generic [''repo'', ''a''], map generic [''a''])
    \<and> (\<exists>d'. stored ref_env e' = [map generic [''repo'', ''a''] \<mapsto> d'] \<and> dContent d' = ''x'')"
proof -
  let ?d = "ref_packet [''a''] ''x''" and ?e = "ref_open ''/repo''"
  have uri: "ref_ofUri ''/repo'' = map generic [''repo'']" by code_simp
  have st: "dName (as_stored ref_env ?e ?d) = map generic [''repo'', ''a'']"
    by (simp add: as_stored_def ref_open_def renamed_data_def uri) (simp add: ref_lib_def)
  obtain e' where "impl_put ref_env ?e ?d = Inr (e', dName (as_stored ref_env ?e ?d))"
    using ref_open_ok by (rule ref_put)
  then have put: "se_put ref_env ?e ?d
      = Inr (e', map generic [''repo'', ''a''], map generic [''a''])"
    unfolding st by (simp add: se_put_def)
  have "renamePrefix ?e \<noteq> []" by (simp add: ref_open_def)
  from put_renames [OF ref_open_ok this put] obtain d' where
    "stored ref_env e' = [map generic [''repo'', ''a''] \<mapsto> d']" "dContent d' = ''x''"
    by (auto simp: ref_open_stored)
  with put show ?thesis by blast
qed

section \<open>Prefix match\<close>

text \<open>
  C22: for an interest that can be a prefix, \<open>read\<close> returns the packet with the greatest URI
  among the stored packets that are candidates: the interest's URI starts theirs, and one of
  the suffix bounds that are set is met. It returns nothing only when there is none, and it
  never fails.
\<close>

theorem read_prefix_match:
  assumes "engine_ok E e" and "canBePrefix i"
  shows "case impl_read E e i of
      Inl ex \<Rightarrow> False
    | Inr None \<Rightarrow> (\<forall>m. stored E e m \<noteq> None \<longrightarrow> \<not> candidate (lib E) i m)
    | Inr (Some d) \<Rightarrow> stored E e (dName d) = Some d \<and> candidate (lib E) i (dName d) \<and>
        (\<forall>m. stored E e m \<noteq> None \<and> candidate (lib E) i m
           \<longrightarrow> toUri (lib E) m \<le> toUri (lib E) (dName d))"
  using assms by (cases rule: read_prefix_cases) auto

definition versions :: "data list" where
  "versions = [ref_packet [''meta'', ''v0'', ''s0''] ''first'', ref_packet [''meta'', ''v1'', ''s0''] ''second'']"

theorem read_prefix_match_witness:
  "impl_read ref_env (ref_store versions) (ref_interest [''meta''] True)
     = Inr (Some (ref_packet [''meta'', ''v1'', ''s0''] ''second''))"
proof -
  let ?i = "ref_interest [''meta''] True" and ?e = "ref_store versions"
  have st: "stored ref_env ?e = [map generic [''meta'', ''v0'', ''s0''] \<mapsto> ref_packet [''meta'', ''v0'', ''s0''] ''first'',
      map generic [''meta'', ''v1'', ''s0''] \<mapsto> ref_packet [''meta'', ''v1'', ''s0''] ''second'']"
    by (simp add: ref_store(4) versions_def)
  have cand: "candidate ref_lib ?i (map generic [''meta'', ''v0'', ''s0''])"
    "candidate ref_lib ?i (map generic [''meta'', ''v1'', ''s0''])"
    by (simp_all add: candidate_def bounds_met_def ref_interest_def)
  have less: "ref_toUri (map generic [''meta'', ''v0'', ''s0'']) < ref_toUri (map generic [''meta'', ''v1'', ''s0''])"
    by code_simp
  let ?n1 = "map generic [''meta'', ''v1'', ''s0'']"
  have "canBePrefix ?i" by (simp add: ref_interest_def)
  note result = read_prefix_match [OF ref_store(1) this, of versions]
  have "stored ref_env ?e ?n1 \<noteq> None" by (simp add: st)
  with result cand(2) obtain d where d: "impl_read ref_env ?e ?i = Inr (Some d)"
    "stored ref_env ?e (dName d) = Some d" "ref_toUri ?n1 \<le> ref_toUri (dName d)"
    by (auto split: sum.splits option.splits)
  from d(2,3) less have "d = ref_packet [''meta'', ''v1'', ''s0''] ''second''"
    by (auto simp: st not_le split: if_splits)
  with d(1) show ?thesis by simp
qed

text \<open>
  Without suffix bounds, an interest that can be a prefix finds a packet whenever one is
  stored under a name that extends the interest's name.
\<close>

theorem read_finds_extension:
  assumes "engine_ok E e" and "canBePrefix i"
    and "minSuffixComponents i = -1" and "maxSuffixComponents i = -1"
    and "stored E e m \<noteq> None" and "prefix (iName i) m"
  shows "\<exists>d. impl_read E e i = Inr (Some d) \<and> stored E e (dName d) = Some d"
proof -
  have "candidate (lib E) i m"
    using assms(3-6) by (simp add: candidate_def bounds_met_def prefix_near_prefix)
  with assms(1,2,5) show ?thesis by (cases rule: read_prefix_cases) auto
qed

theorem read_finds_extension_witness:
  "\<exists>d. impl_read ref_env (ref_store versions) (ref_interest [''meta'', ''v0''] True) = Inr (Some d)"
proof -
  have "stored ref_env (ref_store versions) (map generic [''meta'', ''v0'', ''s0'']) \<noteq> None"
    by (simp add: ref_store(4) versions_def)
  from read_finds_extension [OF ref_store(1) _ _ _ this, of "ref_interest [''meta'', ''v0''] True"]
  show ?thesis by (auto simp: ref_interest_def)
qed

lemma near_prefix_short: "\<not> near_prefix L (p @ [c]) p"
proof (induction p)
  case (Cons d p)
  then show ?case by (cases p) auto
qed simp

text \<open>
  C25: the match is on the text of the URI, not on components. For an interest whose name ends
  with the component `c`, whatever `read` returns has all components before it, and at the place
  of `c` a component whose text only starts with the text of `c`. So when such a component is
  longer, as in a packet `/a/bc` for an interest `/a/b`, and the suffix bounds are met, the
  packet is the answer, although the interest's name is not a prefix of its name, unless another
  candidate with a greater key is stored.
\<close>

theorem read_matches_inside_component:
  assumes ok: "engine_ok E e" and can: "canBePrefix i" and i: "iName i = p @ [c]"
  shows "(\<forall>d. impl_read E e i = Inr (Some d) \<longrightarrow>
        (\<exists>c' q. dName d = p @ c' # q \<and> prefix (escaped (lib E) c) (escaped (lib E) c')))
    \<and> (\<forall>c' q d. stored E e (p @ c' # q) = Some d \<and> bounds_met i (int (length q))
        \<and> strict_prefix (escaped (lib E) c) (escaped (lib E) c')
        \<and> (\<forall>m. stored E e m \<noteq> None \<and> candidate (lib E) i m \<longrightarrow> toUri (lib E) m \<le> toUri (lib E) (p @ c' # q))
        \<longrightarrow> impl_read E e i = Inr (Some d) \<and> \<not> prefix (iName i) (dName d))"
proof (intro conjI allI impI)
  fix d assume "impl_read E e i = Inr (Some d)"
  with ok can have near: "near_prefix (lib E) (p @ [c]) (dName d)"
    by (cases rule: read_prefix_cases) (use i in \<open>auto simp: candidate_def\<close>)
  with near_prefix_butlast obtain r where r: "dName d = p @ r" by (fastforce elim: prefixE)
  with near near_prefix_short obtain c' q where "r = c' # q" by (cases r) auto
  with r near show "\<exists>c' q. dName d = p @ c' # q \<and> prefix (escaped (lib E) c) (escaped (lib E) c')"
    by (auto simp: near_prefix_snoc)
next
  fix c' q d
  assume inside: "stored E e (p @ c' # q) = Some d \<and> bounds_met i (int (length q))
        \<and> strict_prefix (escaped (lib E) c) (escaped (lib E) c')
        \<and> (\<forall>m. stored E e m \<noteq> None \<and> candidate (lib E) i m \<longrightarrow> toUri (lib E) m \<le> toUri (lib E) (p @ c' # q))"
  then have cand: "candidate (lib E) i (p @ c' # q)"
    using i by (simp add: candidate_def near_prefix_snoc strict_prefix_def)
  from ok can show "impl_read E e i = Inr (Some d)"
  proof (cases rule: read_prefix_cases)
    case (found d')
    have "toUri (lib E) (dName d') = toUri (lib E) (p @ c' # q)"
      using found(2-4) inside cand by (intro order.antisym) auto
    then have "dName d' = p @ c' # q"
      using uri_inject [OF env_uri [OF engine_env [OF ok]]] by blast
    with found(1,2) inside show ?thesis by simp
  next
    case absent
    with inside cand show ?thesis by auto
  qed
  show "\<not> prefix (iName i) (dName d)"
    using stored_name [OF ok, of "p @ c' # q" d] i inside by (auto simp: strict_prefix_def)
qed

theorem read_matches_inside_component_witness:
  "impl_read ref_env (ref_store [ref_packet [''a'', ''bc''] ''x'']) (ref_interest [''a'', ''b''] True)
     = Inr (Some (ref_packet [''a'', ''bc''] ''x''))"
proof -
  let ?i = "ref_interest [''a'', ''b''] True" and ?d = "ref_packet [''a'', ''bc''] ''x''"
  have i: "canBePrefix ?i" "iName ?i = [generic ''a''] @ [generic ''b'']"
    by (simp_all add: ref_interest_def)
  have "strict_prefix (ref_escaped (generic ''b'')) (ref_escaped (generic ''bc''))" by code_simp
  moreover have "bounds_met ?i (int (length []))" by (simp add: bounds_met_def ref_interest_def)
  moreover have "stored ref_env (ref_store [?d]) m = (if m = [generic ''a'', generic ''bc''] then Some ?d else None)" for m
    by (simp add: ref_store(4))
  ultimately show ?thesis
    using read_matches_inside_component [OF ref_store(1) i, of "[?d]", THEN conjunct2, rule_format,
        of "generic ''bc''" "[]" ?d]
    by simp
qed

text \<open>
  The name \<open>read\<close> returns for a prefix interest agrees with the interest's name in all
  components but the last.
\<close>

theorem read_agrees_but_last:
  assumes "engine_ok E e" and "canBePrefix i" and "impl_read E e i = Inr (Some d)"
  shows "prefix (butlast (iName i)) (dName d) \<and> prefix (toUri (lib E) (iName i)) (toUri (lib E) (dName d))"
  using assms(1,2)
proof (cases rule: read_prefix_cases)
  case (found d')
  then have "near_prefix (lib E) (iName i) (dName d)"
    using assms(3) by (simp add: candidate_def)
  then show ?thesis
    using near_prefix_butlast uri_prefix_iff [OF env_uri [OF engine_env [OF assms(1)]]] by blast
qed (use assms(3) in simp)

theorem read_agrees_but_last_witness:
  "prefix [generic ''a''] (map generic [''a'', ''bc''])
   \<and> impl_read ref_env (ref_store [ref_packet [''a'', ''bc''] ''x'']) (ref_interest [''a'', ''b''] True) \<noteq> Inr None"
proof -
  let ?e = "ref_store [ref_packet [''a'', ''bc''] ''x'']" and ?i = "ref_interest [''a'', ''b''] True"
  have i: "canBePrefix ?i" "iName ?i = map generic [''a'', ''b'']" by (simp_all add: ref_interest_def)
  have cand: "candidate ref_lib ?i (map generic [''a'', ''bc''])"
    by (simp add: candidate_def bounds_met_def ref_interest_def) code_simp
  note ok = ref_store(1) [of "[ref_packet [''a'', ''bc''] ''x'']"]
  from ok i(1) show ?thesis
  proof (cases rule: read_prefix_cases)
    case (found d)
    from read_agrees_but_last [OF ok i(1) found(1)] found(1,2) i(2) show ?thesis
      by (auto simp: ref_store(4) split: if_splits)
  next
    case absent
    with absent(2) [of "map generic [''a'', ''bc'']"] cand show ?thesis by (simp add: ref_store(4))
  qed
qed

text \<open>
  C26: when both suffix bounds are set and overlap (the minimum is at most one above the
  maximum), they have no effect: \<open>read\<close> answers as if neither were set.
\<close>

theorem read_ignores_both_bounds:
  assumes "minSuffixComponents i \<noteq> -1" and "maxSuffixComponents i \<noteq> -1"
    and "minSuffixComponents i \<le> maxSuffixComponents i + 1"
  shows "impl_read E e i = impl_read E e (i\<lparr>minSuffixComponents := -1, maxSuffixComponents := -1\<rparr>)"
proof -
  have "pass_check (lib E) i k \<longleftrightarrow> pass_check (lib E) (i\<lparr>minSuffixComponents := -1, maxSuffixComponents := -1\<rparr>) k" for k
    using assms by (auto simp: pass_check_def Let_def)
  then have "pass_check (lib E) i =
      pass_check (lib E) (i\<lparr>minSuffixComponents := -1, maxSuffixComponents := -1\<rparr>)" by blast
  then have "prefix_scan (lib E) i it key =
      prefix_scan (lib E) (i\<lparr>minSuffixComponents := -1, maxSuffixComponents := -1\<rparr>) it key" for it key
    by (simp add: prefix_scan_eq)
  then show ?thesis by (auto simp: impl_read_def Let_def split: option.split)
qed

theorem read_ignores_both_bounds_witness:
  "impl_read ref_env (ref_store versions)
     ((ref_interest [''meta''] True)\<lparr>minSuffixComponents := 1, maxSuffixComponents := 1\<rparr>)
   = impl_read ref_env (ref_store versions) (ref_interest [''meta''] True)"
  using read_ignores_both_bounds
    [of "(ref_interest [''meta''] True)\<lparr>minSuffixComponents := 1, maxSuffixComponents := 1\<rparr>"
      ref_env "ref_store versions"]
  by (simp add: ref_interest_def)

section \<open>The prefixes found at start\<close>

text \<open>
  A stored name that no other stored name extends is covered: one of the prefixes the
  first scan reports is a prefix of it.
\<close>

theorem scan_covers:
  assumes ok: "engine_ok E e" and fresh: "keysTrie e = new_node"
    and gen: "\<forall>n. stored E e n \<noteq> None \<longrightarrow> generic_name n"
    and scan: "se_scan E e = Inr (e', ps)"
    and n: "stored E e n \<noteq> None" "n \<noteq> []"
    and outer: "\<forall>m. stored E e m \<noteq> None \<longrightarrow> \<not> strict_prefix n m"
  shows "\<exists>P \<in> set ps. prefix P n"
  using assms by (rule scan_outer_names)

theorem scan_covers_witness:
  "\<exists>e' ps. se_scan ref_env (ref_store versions) = Inr (e', ps) \<and>
     (\<exists>P \<in> set ps. prefix P (map generic [''meta'', ''v0'', ''s0'']))"
proof -
  let ?e = "ref_store versions" and ?n = "map generic [''meta'', ''v0'', ''s0'']"
  have st: "stored ref_env ?e m \<noteq> None \<longleftrightarrow> m = ?n \<or> m = map generic [''meta'', ''v1'', ''s0'']" for m
    by (auto simp: ref_store(4) versions_def)
  obtain e' ps where scan: "se_scan ref_env ?e = Inr (e', ps)"
    using scan_returns [OF ref_store(1)] by blast
  have "\<forall>n. stored ref_env ?e n \<noteq> None \<longrightarrow> generic_name n"
    and "stored ref_env ?e ?n \<noteq> None"
    and "\<forall>m. stored ref_env ?e m \<noteq> None \<longrightarrow> \<not> strict_prefix ?n m"
    unfolding st by (auto simp: generic_name_def strict_prefix_def)
  from scan_covers [OF ref_store(1,3) this(1) scan this(2) _ this(3)]
  have "\<exists>P \<in> set ps. prefix P ?n" by simp
  with scan show ?thesis by blast
qed

text \<open>The stored names whose first component is that of \<open>P\<close>.\<close>

definition same_head :: "'db env \<Rightarrow> 'db engine \<Rightarrow> name \<Rightarrow> name set" where
  "same_head E e P = {n. stored E e n \<noteq> None \<and> n \<noteq> [] \<and> hd n = hd P}"

text \<open>
  C23: when all stored names are made of generic components, a prefix the first scan reports is
  the longest name that is a prefix of a stored name and comparable with every stored name that
  has the same first component. (So it is their longest common prefix whenever it does not
  itself extend one of them.) The trie rebuilds every component as a generic one, so nothing of
  the kind is claimed for stores with typed components.
\<close>

theorem scan_longest_prefix:
  assumes ok: "engine_ok E e" and fresh: "keysTrie e = new_node"
    and gen: "\<forall>n. stored E e n \<noteq> None \<longrightarrow> generic_name n"
    and scan: "se_scan E e = Inr (e', ps)" and P: "P \<in> set ps"
  shows "P \<noteq> [] \<and> (\<exists>n \<in> same_head E e P. prefix P n)
    \<and> (\<forall>n \<in> same_head E e P. prefix P n \<or> strict_prefix n P)
    \<and> (\<forall>Q. (\<exists>n \<in> same_head E e P. prefix Q n)
           \<and> (\<forall>n \<in> same_head E e P. prefix Q n \<or> strict_prefix n Q) \<longrightarrow> prefix Q P)"
proof -
  note L = env_uri [OF engine_env [OF ok]]
  obtain ns where ns: "set ns = {n. stored E e n \<noteq> None}"
    "ps = getLongestPrefixes (lib E) (keys_trie (lib E) ns)"
    using ok fresh scan by (rule scan_first)
  have g: "\<forall>n \<in> set ns. generic_name n" using gen ns(1) by auto
  have grp: "n \<in> same_head E e P \<longleftrightarrow> n \<in> set ns \<and> n \<noteq> [] \<and> hd n = hd P" for n
    using ns(1) by (auto simp: same_head_def)
  note P' = P [unfolded ns(2)]
  obtain c t where ct: "(c, t) \<in> set (components (keys_trie (lib E) ns))"
    "P = follow (lib E) (ofUri (lib E) c) t"
    using P' by (auto simp: mem_getLongestPrefixes)
  obtain k where k: "k \<in> set ns" "prefix P k"
    using child_name(2) [OF L g ct(1)] ct(2) by auto
  have ne: "P \<noteq> []" using child_name(1) [OF L g ct(1)] ct(2) by auto
  have "k \<noteq> []" "hd k = hd P" using ne k(2) by (cases P; cases k; simp)+
  then have "k \<in> same_head E e P" using k(1) by (simp add: grp)
  with k(2) have 1: "\<exists>n \<in> same_head E e P. prefix P n" by blast
  have 2: "\<forall>n \<in> same_head E e P. prefix P n \<or> strict_prefix n P"
    using prefix_comparable [OF L g P'] by (auto simp: grp)
  have "prefix Q P" if "\<exists>n \<in> same_head E e P. prefix Q n"
    "\<forall>n \<in> same_head E e P. prefix Q n \<or> strict_prefix n Q" for Q
    using that prefix_maximal [OF L g P', of Q] by (auto simp: grp)
  with ne 1 2 show ?thesis by blast
qed

theorem scan_longest_prefix_witness:
  "\<exists>e' ps. se_scan ref_env (ref_store versions) = Inr (e', ps) \<and> map generic [''meta''] \<in> set ps"
proof -
  let ?e = "ref_store versions" and ?m = "map generic [''meta'']"
  let ?n0 = "map generic [''meta'', ''v0'', ''s0'']" and ?n1 = "map generic [''meta'', ''v1'', ''s0'']"
  have st: "stored ref_env ?e n \<noteq> None \<longleftrightarrow> n = ?n0 \<or> n = ?n1" for n
    by (auto simp: ref_store(4) versions_def)
  have gen: "\<forall>n. stored ref_env ?e n \<noteq> None \<longrightarrow> generic_name n"
    unfolding st by (auto simp: generic_name_def)
  obtain e' ps where scan: "se_scan ref_env ?e = Inr (e', ps)"
    using scan_returns [OF ref_store(1)] by blast
  obtain P where P: "P \<in> set ps" "hd P = generic ''meta''"
    using scan_heads [OF ref_store(1,3) gen scan, of ?n0] unfolding st by auto
  note long = scan_longest_prefix [OF ref_store(1,3) gen scan P(1)]
  have grp: "same_head ref_env ?e P = {?n0, ?n1}"
    unfolding same_head_def st P(2) by auto
  have ne: "P \<noteq> []" and cmp: "prefix P ?n0 \<or> strict_prefix ?n0 P" "prefix P ?n1 \<or> strict_prefix ?n1 P"
    using long unfolding grp by blast+
  from ne P(2) obtain P' where P': "P = generic ''meta'' # P'" by (cases P) auto
  have "P' = []"
  proof (cases P')
    case (Cons y P'')
    have "y = generic ''v0''" using cmp(1) unfolding P' Cons strict_prefix_def by auto
    moreover have "y = generic ''v1''" using cmp(2) unfolding P' Cons strict_prefix_def by auto
    ultimately show ?thesis by simp
  qed
  with scan P(1) P' show ?thesis by auto
qed

text \<open>
  C24: no leaf is ever marked in the trie, so, when all stored names are made of generic
  components, the walk to a reported prefix passes over a stored name that all the others with
  its first component, of which there is at least one, extend by the same component: no prefix
  the first scan reports covers that name.
\<close>

theorem scan_misses_inner_name:
  assumes ok: "engine_ok E e" and fresh: "keysTrie e = new_node"
    and gen: "\<forall>n. stored E e n \<noteq> None \<longrightarrow> generic_name n"
    and scan: "se_scan E e = Inr (e', ps)"
    and n: "stored E e n \<noteq> None" "n \<noteq> []"
    and m: "m \<in> same_head E e n" "m \<noteq> n"
    and others: "\<forall>k \<in> same_head E e n. k \<noteq> n \<longrightarrow> prefix (n @ [c]) k"
  shows "\<forall>P \<in> set ps. \<not> prefix P n"
proof (intro ballI notI)
  fix P assume P: "P \<in> set ps" and Pn: "prefix P n"
  note L = env_uri [OF engine_env [OF ok]]
  obtain ns where ns: "set ns = {n. stored E e n \<noteq> None}"
    "ps = getLongestPrefixes (lib E) (keys_trie (lib E) ns)"
    using ok fresh scan by (rule scan_first)
  have g: "\<forall>n \<in> set ns. generic_name n" using gen ns(1) by auto
  obtain d t where ct: "(d, t) \<in> set (components (keys_trie (lib E) ns))"
    "P = follow (lib E) (ofUri (lib E) d) t"
    using P ns(2) by (auto simp: mem_getLongestPrefixes)
  have "P \<noteq> []" using child_name(1) [OF L g ct(1)] ct(2) by auto
  with Pn have hd: "hd P = hd n" by (cases P; cases n) auto
  have "prefix (n @ [c]) P"
  proof (rule prefix_maximal [OF L g P [unfolded ns(2)]])
    show "\<forall>k \<in> set ns. k \<noteq> [] \<and> hd k = hd P \<longrightarrow> prefix (n @ [c]) k \<or> strict_prefix k (n @ [c])"
      using others ns(1) hd by (auto simp: same_head_def strict_prefix_def)
    show "m \<in> set ns" "m \<noteq> []" "hd m = hd P" "prefix (n @ [c]) m"
      using m others ns(1) hd by (auto simp: same_head_def)
  qed
  then have "prefix (n @ [c]) n" using Pn by (rule prefix_order.trans)
  then show False by (auto simp: prefix_def)
qed

theorem scan_misses_inner_name_witness:
  "\<exists>e' ps. se_scan ref_env (ref_store [ref_packet [''a''] ''x'', ref_packet [''a'', ''b''] ''y'']) = Inr (e', ps)
     \<and> (\<forall>P \<in> set ps. \<not> prefix P [generic ''a''])"
proof -
  let ?e = "ref_store [ref_packet [''a''] ''x'', ref_packet [''a'', ''b''] ''y'']"
  have st: "stored ref_env ?e n \<noteq> None \<longleftrightarrow> n = [generic ''a''] \<or> n = [generic ''a'', generic ''b'']" for n
    by (auto simp: ref_store(4))
  obtain e' ps where scan: "se_scan ref_env ?e = Inr (e', ps)"
    using scan_returns [OF ref_store(1)] by blast
  let ?n = "[generic ''a'']" and ?m = "[generic ''a'', generic ''b'']"
  have "\<forall>n. stored ref_env ?e n \<noteq> None \<longrightarrow> generic_name n" "stored ref_env ?e ?n \<noteq> None"
    "?m \<in> same_head ref_env ?e ?n"
    "\<forall>k \<in> same_head ref_env ?e ?n. k \<noteq> ?n \<longrightarrow> prefix (?n @ [generic ''b'']) k"
    unfolding st same_head_def by (auto simp: generic_name_def)
  from scan_misses_inner_name [OF ref_store(1,3) this(1) scan this(2) _ this(3) _ this(4)]
  have "\<forall>P \<in> set ps. \<not> prefix P ?n" by simp
  with scan show ?thesis by blast
qed

text \<open>
  After a scan the statistics are defined, and the number of keys is the number of
  stored names, modulo the width of \<open>size_t\<close>.
\<close>

theorem scan_counts_keys:
  assumes "engine_ok E e" and "keysTrie e = new_node" and "se_scan E e = Inr (e', ps)"
  shows "getKeysNum e' = Inr (of_nat (card {n. stored E e n \<noteq> None})) \<and> is_ok (getPayloadSize e')
    \<and> stored E e' = stored E e \<and> engine_ok E e'"
proof -
  obtain ns where "set ns = {n. stored E e n \<noteq> None}" "distinct ns"
    "getKeysNum e' = Inr (of_nat (length ns))" "stored E e' = stored E e" "engine_ok E e'"
    using assms by (rule scan_first)
  moreover from this(3) have "is_ok (getPayloadSize e')"
    by (simp add: getKeysNum_def getPayloadSize_def split: option.splits)
  ultimately show ?thesis using distinct_card by metis
qed

theorem scan_counts_keys_witness:
  "\<exists>e' ps. se_scan ref_env (ref_store versions) = Inr (e', ps) \<and> getKeysNum e' = Inr 2"
proof -
  have "{n. stored ref_env (ref_store versions) n \<noteq> None}
      = {map generic [''meta'', ''v0'', ''s0''], map generic [''meta'', ''v1'', ''s0'']}"
    by (auto simp: ref_store(4) versions_def)
  then have "card {n. stored ref_env (ref_store versions) n \<noteq> None} = 2" by simp
  moreover obtain e' ps where scan: "se_scan ref_env (ref_store versions) = Inr (e', ps)"
    using scan_returns [OF ref_store(1)] by blast
  ultimately show ?thesis
    using scan_counts_keys [OF ref_store(1,3) scan] by auto
qed

end
