(* ===== verification/Base_Handle.thy ===== *)
theory Base_Handle
  imports Storage_Engine
begin

text \<open>
  \<open>base-handle.hpp\<close> and \<open>base-handle.cpp\<close>: what the command handlers share. A handler's
  operation is a function from its state to its new state and the calls it makes to the
  outside, in order: packets sent, interests expressed, timers started, prefixes registered,
  and the \<open>onDataInsertion\<close> signal. The face is a library, so these calls are values of the
  type \<open>action\<close>; a callback it is given is a value of the handler's own type \<open>'cb\<close>.
\<close>

section \<open>Calls to the outside\<close>

text \<open>
  What is called when the registration of a prefix has failed: the member function of the read
  handler, the lambda \<open>enableListening\<close> passes, and the one the status handler passes.
\<close>

datatype registration_failed = ReadRegisterFailed | CommandRegisterFailed | StatusRegisterFailed

text \<open>
  The function a pattern is given to store packets with: \<open>StorageEngine::put\<close>, bound to the engine.
\<close>

datatype store_fun = EnginePut

text \<open>The member functions that are bound to an interest filter or a registered prefix.\<close>

datatype endpoint =
  InsertCommand | PatternCommand | CancelCommand | ReadInterest | NoHandler
  | StatusInterest nat                         \<comment> \<open>the number of the namespace object\<close>

datatype 'cb action =
    PutData data
  | ExpressInterest interest 'cb "'cb option"  \<comment> \<open>on data; on timeout and on nack\<close>
  | CallLater nat 'cb                          \<comment> \<open>delay in milliseconds\<close>
  | SetInterestFilter name endpoint
  | RegisterPrefix name endpoint registration_failed
  | ShutdownFace
  | EmitInsertion name                         \<comment> \<open>the signal \<open>onDataInsertion\<close>\<close>
  | StartRecorder name store_fun               \<comment> \<open>an NDN-RTC stream recorder, and its callback\<close>
  | StopRecorder name
  | PublishObject name string                  \<comment> \<open>\<open>GeneralizedObjectHandler::setObject\<close>\<close>

text \<open>The packets a sequence of actions sends, the interests it expresses, its signals.\<close>

fun sent :: "'cb action list \<Rightarrow> data list" where
  "sent [] = []"
| "sent (PutData d # as) = d # sent as"
| "sent (_ # as) = sent as"

fun expressed :: "'cb action list \<Rightarrow> (interest \<times> 'cb \<times> 'cb option) list" where
  "expressed [] = []"
| "expressed (ExpressInterest i c t # as) = (i, c, t) # expressed as"
| "expressed (_ # as) = expressed as"

fun signalled :: "'cb action list \<Rightarrow> name list" where
  "signalled [] = []"
| "signalled (EmitInsertion n # as) = n # signalled as"
| "signalled (_ # as) = signalled as"

lemma signalled_append [simp]: "signalled (as @ bs) = signalled as @ signalled bs"
  by (induction as rule: signalled.induct) auto

lemma sent_append [simp]: "sent (as @ bs) = sent as @ sent bs"
  by (induction as rule: sent.induct) auto

lemma expressed_append [simp]: "expressed (as @ bs) = expressed as @ expressed bs"
  by (induction as rule: expressed.induct) auto

lemma sent_iff: "d \<in> set (sent as) \<longleftrightarrow> PutData d \<in> set as"
  by (induction as rule: sent.induct) auto

section \<open>Replies and parameters\<close>

text \<open>The signed packet that answers a command.\<close>

definition answer :: "ndn_lib \<Rightarrow> interest \<Rightarrow> response \<Rightarrow> data" where
  "answer L commandInterest r =
     signData L ((newData L (iName commandInterest))\<lparr>dContent := encodeResponse L r\<rparr>)"

definition reply :: "ndn_lib \<Rightarrow> interest \<Rightarrow> response \<Rightarrow> 'cb action" where
  "reply L commandInterest r = PutData (answer L commandInterest r)"

definition status_only :: "int \<Rightarrow> response" where
  "status_only code = empty_response\<lparr>statusCode := of_int code\<rparr>"

definition negativeReply :: "ndn_lib \<Rightarrow> interest \<Rightarrow> int \<Rightarrow> 'cb action" where
  "negativeReply L i code = reply L i (status_only code)"

text \<open>
  \<open>Name::get\<close> throws when the index is out of range, and \<open>ProtobufTlv::decode\<close> when the value
  is not a message.
\<close>

definition extractParameter :: "ndn_lib \<Rightarrow> interest \<Rightarrow> name \<Rightarrow> parameter result" where
  "extractParameter L i p =
     (if length p < length (iName i) then
        (case decodeParameter L (cvalue (iName i ! length p)) of
           None \<Rightarrow> Inl (RuntimeError ''ProtobufTlv::decode'')
         | Some par \<Rightarrow> Inr par)
      else Inl (RuntimeError ''Name::get: Index is out of bounds''))"

text \<open>Eight random bytes, read as a 64-bit integer (the first byte the least significant).\<close>

fun generateProcessId :: "bytes \<Rightarrow> 64 word" where
  "generateProcessId [] = 0"
| "generateProcessId (b # bs) = of_char b + 256 * generateProcessId bs"

text \<open>The name whose components are those of a message.\<close>

definition message_name :: "bytes list \<Rightarrow> name" where
  "message_name cs = map generic cs"

lemmas [handler_simps] = reply_def negativeReply_def

lemma sent_reply [simp]:
  "sent (reply L i r # as) = answer L i r # sent as"
  "sent (negativeReply L i code # as) = answer L i (status_only code) # sent as"
  "expressed (reply L i r # as) = expressed as"
  "expressed (negativeReply L i code # as) = expressed as"
  "signalled (reply L i r # as) = signalled as"
  "signalled (negativeReply L i code # as) = signalled as"
  by (simp_all add: handler_simps)

lemma answer_sel:
  assumes "packet_laws L"
  shows "dName (answer L i r) = iName i"
    and "decodeResponse L (dContent (answer L i r)) = Some r"
  using assms by (simp_all add: answer_def packet_laws_def)

lemma message_name_generic: "generic_name (message_name cs)"
  by (simp add: message_name_def generic_name_def)

section \<open>The contract of a command handler\<close>

text \<open>
  What a client of the repository relies on: a command that is delivered to a handler is
  answered at once, by one packet under the command's own name, whatever the command holds;
  the handler never lets an exception out, and keeps its invariant.
\<close>

locale command_handler =
  fixes libOf :: "'e \<Rightarrow> ndn_lib"
    and handle :: "'e \<Rightarrow> 'x \<Rightarrow> name \<Rightarrow> interest \<Rightarrow> 's \<Rightarrow> ('s \<times> 'cb action list) result"
    and inv :: "'e \<Rightarrow> 's \<Rightarrow> bool"
  assumes handle_answers: "inv E s \<Longrightarrow>
      \<exists>s' as r. handle E x p i s = Inr (s', as) \<and> inv E s' \<and> sent as = [answer (libOf E) i r]"

text \<open>A sequence of commands, each with what the environment supplies to it.\<close>

fun serve :: "('x \<Rightarrow> name \<Rightarrow> interest \<Rightarrow> 's \<Rightarrow> ('s \<times> 'cb action list) result)
    \<Rightarrow> ('x \<times> name \<times> interest) list \<Rightarrow> 's \<Rightarrow> ('s \<times> 'cb action list) result" where
  "serve h [] s = Inr (s, [])"
| "serve h ((x, p, i) # cs) s =
     (case h x p i s of
        Inl ex \<Rightarrow> Inl ex
      | Inr (s', as) \<Rightarrow>
          (case serve h cs s' of Inl ex \<Rightarrow> Inl ex | Inr (s'', bs) \<Rightarrow> Inr (s'', as @ bs)))"

context command_handler begin

lemma serve_answers:
  assumes "inv E s" and L: "packet_laws (libOf E)"
  shows "\<exists>s' as. serve (handle E) cs s = Inr (s', as) \<and> inv E s'
     \<and> map dName (sent as) = map (\<lambda>(x, p, i). iName i) cs"
  using assms(1)
proof (induction cs arbitrary: s)
  case Nil
  then show ?case by simp
next
  case (Cons c cs)
  obtain x p i where c: "c = (x, p, i)" by (cases c)
  obtain s' as r where h: "handle E x p i s = Inr (s', as)" "inv E s'" "sent as = [answer (libOf E) i r]"
    using handle_answers [OF Cons.prems] by blast
  obtain s'' bs where t: "serve (handle E) cs s' = Inr (s'', bs)" "inv E s''"
    "map dName (sent bs) = map (\<lambda>(x, p, i). iName i) cs"
    using Cons.IH [OF h(2)] by blast
  from h t show ?case by (simp add: c answer_sel [OF L])
qed

end

end
