(* ===== verification/Json.thy ===== *)
theory Json
  imports Std_Map Reference_Lib
begin

text \<open>
  The JSON values of the status reports, and the operations of the JSON library the program
  builds them with. Printing and parsing are library functions: the fields of the record
  \<open>json_lib\<close>, with the law that parsing inverts printing and rejects two texts that are not
  JSON. The entries of an object are kept in the order of their keys.
\<close>

section \<open>Values and their construction\<close>

datatype json =
    JNull
  | JBool bool
  | JInt int
  | JString string
  | JArray "json list"
  | JObject "(string \<times> json) list"

text \<open>
  \<open>j[k]\<close> on the left of an assignment: null becomes an object, an object gets the key with
  the value null if it does not have it, and any other value is a type error. \<open>f\<close> is what is
  done to the value found there.
\<close>

definition json_at :: "string \<Rightarrow> (json \<Rightarrow> json result) \<Rightarrow> json \<Rightarrow> json result" where
  "json_at k f j =
     (let update = (\<lambda>es.
            case f (case map_of es k of None \<Rightarrow> JNull | Some v \<Rightarrow> v) of
              Inl ex \<Rightarrow> Inl ex
            | Inr v \<Rightarrow> Inr (JObject (put_entry k v es)))
      in case j of
           JNull \<Rightarrow> update []
         | JObject es \<Rightarrow> update es
         | _ \<Rightarrow> Inl (JsonException ''type_error.305''))"

definition json_assign :: "json \<Rightarrow> json \<Rightarrow> json result" where
  "json_assign v j = Inr v"

definition json_push_back :: "json \<Rightarrow> json \<Rightarrow> json result" where
  "json_push_back v j =
     (case j of
        JNull \<Rightarrow> Inr (JArray [v])
      | JArray vs \<Rightarrow> Inr (JArray (vs @ [v]))
      | _ \<Rightarrow> Inl (JsonException ''type_error.308''))"

text \<open>Statements in sequence; the first exception ends the sequence.\<close>

fun json_do :: "(json \<Rightarrow> json result) list \<Rightarrow> json \<Rightarrow> json result" where
  "json_do [] j = Inr j"
| "json_do (f # fs) j = (case f j of Inl ex \<Rightarrow> Inl ex | Inr j' \<Rightarrow> json_do fs j')"

lemma json_at_simps [simp]:
  "json_at k (json_assign v) JNull = Inr (JObject [(k, v)])"
  "json_at k (json_assign v) (JObject es) = Inr (JObject (put_entry k v es))"
  by (simp_all add: json_at_def json_assign_def)

lemma json_do_append:
  "json_do (fs @ gs) j = (case json_do fs j of Inl ex \<Rightarrow> Inl ex | Inr j' \<Rightarrow> json_do gs j')"
  by (induction fs arbitrary: j) (auto split: sum.split)

text \<open>Pushing a list of values under one key gives the array of the values.\<close>

lemma json_pushes_array:
  "map_of es k = Some (JArray ws) \<Longrightarrow> sorted_keys es \<Longrightarrow>
     \<exists>es'. json_do (map (\<lambda>v. json_at k (json_push_back v)) vs) (JObject es) = Inr (JObject es')
        \<and> sorted_keys es' \<and> map_of es' = (map_of es)(k \<mapsto> JArray (ws @ vs))"
proof (induction vs arbitrary: es ws)
  case Nil
  then show ?case by (intro exI [of _ es]) (auto simp: fun_eq_iff)
next
  case (Cons v vs)
  let ?es = "put_entry k (JArray (ws @ [v])) es"
  have "json_at k (json_push_back v) (JObject es) = Inr (JObject ?es)"
    using Cons.prems by (simp add: json_at_def json_push_back_def)
  moreover have "map_of ?es = (map_of es)(k \<mapsto> JArray (ws @ [v]))" "sorted_keys ?es"
    using Cons.prems by (simp_all add: put_entry_map_of put_entry_sorted)
  ultimately show ?case
    using Cons.IH [of ?es "ws @ [v]"] by (auto simp: fun_eq_iff)
qed

lemma json_pushes:
  assumes "map_of es k = None" and "sorted_keys es"
  shows "\<exists>es'. json_do (map (\<lambda>v. json_at k (json_push_back v)) vs) (JObject es) = Inr (JObject es')
     \<and> sorted_keys es' \<and> map_of es' = (if vs = [] then map_of es else (map_of es)(k \<mapsto> JArray vs))"
proof (cases vs)
  case Nil
  with assms show ?thesis by simp
next
  case (Cons v ws)
  let ?es = "put_entry k (JArray [v]) es"
  have "json_at k (json_push_back v) (JObject es) = Inr (JObject ?es)"
    using assms by (simp add: json_at_def json_push_back_def)
  moreover have "map_of ?es = (map_of es)(k \<mapsto> JArray [v])" "sorted_keys ?es"
    using assms by (simp_all add: put_entry_map_of put_entry_sorted)
  ultimately show ?thesis
    using json_pushes_array [of ?es k "[v]" ws] Cons by (auto simp: fun_eq_iff)
qed

section \<open>The library\<close>

record json_lib =
  jDump :: "json \<Rightarrow> string option"     \<comment> \<open>\<open>None\<close>: an exception (a string that is not UTF-8)\<close>
  jParse :: "string \<Rightarrow> json option"    \<comment> \<open>\<open>None\<close>: \<open>parse_error\<close>\<close>

definition json_laws :: "json_lib \<Rightarrow> bool" where
  "json_laws J \<longleftrightarrow>
     (\<forall>j s. jDump J j = Some s \<longrightarrow> jParse J s = Some j)
   \<and> (\<forall>s. jParse J (CHR ''{'' # CHR 0x27 # s) = None)
   \<and> jParse J ''n/a'' = None"

definition json_dump :: "json_lib \<Rightarrow> json \<Rightarrow> string result" where
  "json_dump J j = (case jDump J j of
     None \<Rightarrow> Inl (JsonException ''type_error.316'') | Some s \<Rightarrow> Inr s)"

definition json_parse :: "json_lib \<Rightarrow> string \<Rightarrow> json result" where
  "json_parse J s = (case jParse J s of
     None \<Rightarrow> Inl (JsonException ''parse_error.101'') | Some j \<Rightarrow> Inr j)"

section \<open>A concrete printer and parser\<close>

text \<open>
  One tag character and framed parts: a document that satisfies the laws, to instantiate the
  library with. The parser's fuel is the length of its input.
\<close>

fun ref_dump :: "json \<Rightarrow> string" where
  "ref_dump JNull = ''0''"
| "ref_dump (JBool b) = (if b then ''T'' else ''F'')"
| "ref_dump (JInt i) = CHR ''#'' # int_field (Some i)"
| "ref_dump (JString s) = CHR 0x22 # s"
| "ref_dump (JArray js) = CHR ''['' # frames (map ref_dump js)"
| "ref_dump (JObject es) = CHR ''{'' # frames (map (\<lambda>e. frame (fst e) @ ref_dump (snd e)) es)"

fun ref_parse_fuel :: "nat \<Rightarrow> string \<Rightarrow> json option" where
  "ref_parse_fuel 0 s = None"
| "ref_parse_fuel (Suc n) [] = None"
| "ref_parse_fuel (Suc n) (c # s) =
     (if c = CHR ''0'' then (if s = [] then Some JNull else None)
      else if c = CHR ''T'' then Some (JBool True)
      else if c = CHR ''F'' then Some (JBool False)
      else if c = CHR ''#'' then map_option JInt (field_int s)
      else if c = CHR 0x22 then Some (JString s)
      else if c = CHR ''['' then
        Option.bind (unframes s) (\<lambda>xs. map_option JArray (those (map (ref_parse_fuel n) xs)))
      else if c = CHR ''{'' then
        Option.bind (unframes s) (\<lambda>xs. map_option JObject (those (map (\<lambda>x.
          map_option (Pair (fst (unframe x))) (ref_parse_fuel n (snd (unframe x)))) xs)))
      else None)"

lemma those_map_Some: "(\<And>x. x \<in> set xs \<Longrightarrow> f x = Some (g x)) \<Longrightarrow> those (map f xs) = Some (map g xs)"
  by (induction xs) auto

lemma frames_member: "x \<in> set xs \<Longrightarrow> length x < length (frames xs)"
  by (induction xs) (auto simp: frames_def frame_def)

lemma ref_parse_dump: "length (ref_dump j) < n \<Longrightarrow> ref_parse_fuel n (ref_dump j) = Some j"
proof (induction j arbitrary: n)
  case (JArray js)
  then obtain m where n: "n = Suc m" by (cases n) auto
  have "ref_parse_fuel m (ref_dump j) = Some j" if "j \<in> set js" for j
    using JArray.IH [OF that, of m] JArray.prems frames_member [of "ref_dump j" "map ref_dump js"] that n
    by simp
  then have "those (map (ref_parse_fuel m) (map ref_dump js)) = Some (map id js)"
    unfolding map_map by (intro those_map_Some) simp
  with n show ?case by simp
next
  case (JObject es)
  then obtain m where n: "n = Suc m" by (cases n) auto
  let ?f = "\<lambda>e. frame (fst e) @ ref_dump (snd e)"
  let ?g = "\<lambda>x. map_option (Pair (fst (unframe x))) (ref_parse_fuel m (snd (unframe x)))"
  have "?g (?f e) = Some e" if "e \<in> set es" for e
  proof -
    have "length (ref_dump (snd e)) < m"
      using frames_member [of "?f e" "map ?f es"] that JObject.prems n by simp
    moreover have "snd e \<in> Basic_BNFs.snds e" by (simp add: snds.intros)
    ultimately have "ref_parse_fuel m (ref_dump (snd e)) = Some (snd e)"
      using JObject.IH [OF that] by blast
    then show ?thesis by simp
  qed
  then have "those (map ?g (map ?f es)) = Some (map id es)"
    unfolding map_map by (intro those_map_Some) simp
  with n show ?case by simp
next
  case (JInt i)
  then show ?case by (cases n) (auto simp: int_field_def field_int_def)
qed (case_tac n; auto)+

definition ref_json :: json_lib where
  "ref_json = \<lparr>jDump = (\<lambda>j. Some (ref_dump j)),
     jParse = (\<lambda>s. ref_parse_fuel (Suc (length s)) s)\<rparr>"

theorem ref_json_laws: "json_laws ref_json"
  by (simp add: json_laws_def ref_json_def ref_parse_dump unframes_def unframe_def frame_def)

end
