(* ===== verification/Fetch_Pattern.thy ===== *)
theory Fetch_Pattern
  imports Base_Handle Reference_Engine Json
begin

text \<open>
  \<open>handles/patterns\<close>: the objects that fetch data for a pattern command, and the factory that
  creates them. A pattern object is created on the heap and its callbacks are bound to the raw
  pointer \<open>this\<close>, so a callback carries the address of the object.
\<close>

section \<open>Libraries and build options\<close>

text \<open>
  The NDN-RTC library: the version its names carry, the parser of a stream's name (the result
  is the stream's prefix), and the counters of a running recorder.
\<close>

record rtc_stats =
  manifestsStored :: int
  streamMetaStored :: int
  threadMetaStored :: int
  latestKeyRequested :: int
  latestKeyFetched :: int
  keyStored :: int
  keyFailed :: int
  latestDeltaRequested :: int
  latestDeltaFetched :: int
  deltaStored :: int
  deltaFailed :: int
  pendingFrames :: int

record rtc_lib =
  nameApiVersion :: string
  extractInfo :: "name \<Rightarrow> name option"
  getCurrentStats :: "name \<Rightarrow> rtc_stats"

record platform =
  haveNdnrtc :: bool        \<comment> \<open>\<open>HAVE_LIBNDNRTC\<close>\<close>
  haveCnl :: bool           \<comment> \<open>\<open>HAVE_LIBCNL_CPP\<close>\<close>
  rtc :: rtc_lib
  jsonLib :: json_lib

type_synonym addr = nat

datatype pattern_callback =
    CounterDoFetch addr     \<comment> \<open>\<open>bind(&CounterPattern::doFetch, this)\<close>\<close>
  | CounterOnData addr      \<comment> \<open>\<open>bind(&CounterPattern::onData, this, _1, _2)\<close>\<close>

section \<open>The counter pattern\<close>

text \<open>\<open>std::to_string\<close>.\<close>

fun decimal :: "nat \<Rightarrow> string" where
  "decimal n = (if n < 10 then [char_of (48 + n)]
     else decimal (n div 10) @ [char_of (48 + n mod 10)])"

declare decimal.simps [simp del]

definition to_string :: "int \<Rightarrow> string" where
  "to_string i = (if i < 0 then CHR ''-'' # decimal (nat (- i)) else decimal (nat i))"

text \<open>The constructor sets \<open>running_\<close> only; the counter is not initialised before \<open>fetch\<close>.\<close>

record counter_pattern =
  running :: bool
  counter :: "int option"
  fetchPrefix :: name

definition counter_new :: counter_pattern where
  "counter_new = \<lparr>running = False, counter = None, fetchPrefix = []\<rparr>"

definition counter_fetch ::
  "addr \<Rightarrow> name \<Rightarrow> counter_pattern \<Rightarrow> counter_pattern \<times> pattern_callback action list" where
  "counter_fetch a p c =
     (c\<lparr>fetchPrefix := p, counter := Some 0, running := True\<rparr>, [CallLater 1 (CounterDoFetch a)])"

definition counter_interest :: "ndn_lib \<Rightarrow> name \<Rightarrow> int \<Rightarrow> interest" where
  "counter_interest L p n = (newInterest L (p @ [generic (to_string n)]))\<lparr>lifetimeMs := Some 4000\<rparr>"

definition counter_doFetch ::
  "ndn_lib \<Rightarrow> addr \<Rightarrow> counter_pattern \<Rightarrow> pattern_callback action list result" where
  "counter_doFetch L a c =
     (if \<not> running c then Inr []
      else case counter c of
        None \<Rightarrow> Inl (UndefinedBehaviour ''uninitialised counter'')
      | Some n \<Rightarrow> Inr [ExpressInterest (counter_interest L (fetchPrefix c) n) (CounterOnData a) None])"

definition counter_onData ::
  "'db env \<Rightarrow> 'db engine \<Rightarrow> addr \<Rightarrow> data \<Rightarrow> counter_pattern
     \<Rightarrow> (counter_pattern \<times> 'db engine \<times> pattern_callback action list) result" where
  "counter_onData E e a d c =
     (case se_put E e d of
        Inl ex \<Rightarrow> Inl ex
      | Inr (e', _, _) \<Rightarrow>
          (case counter c of
             None \<Rightarrow> Inl (UndefinedBehaviour ''uninitialised counter'')
           | Some n \<Rightarrow>
               if n + 1 < 10
               then Inr (c\<lparr>counter := Some (n + 1)\<rparr>, e', [CallLater 2000 (CounterDoFetch a)])
               else Inr (c\<lparr>counter := Some (n + 1), running := False\<rparr>, e', [])))"

definition counter_cancel :: "counter_pattern \<Rightarrow> counter_pattern" where
  "counter_cancel c = c\<lparr>running := False\<rparr>"

definition counter_status :: "counter_pattern \<Rightarrow> string result" where
  "counter_status c = (case counter c of
     None \<Rightarrow> Inl (UndefinedBehaviour ''uninitialised counter'')
   | Some n \<Rightarrow> Inr ((CHR ''{'' # CHR 0x27 # ''counter'' @ CHR 0x27 # '':'') @ to_string n @ '';}''))"

section \<open>The NDN-RTC pattern\<close>

text \<open>
  The pattern holds the recorder of its stream and the function it was created with to store
  packets; the recorder gets a lambda that calls a copy of that function on each packet. The
  name \<open>put\<close> returns is dropped, and nothing is announced.
\<close>

record ndnrtc_pattern =
  streamRecorder :: "name option"
  storePacketFun :: store_fun

definition ndnrtc_new :: ndnrtc_pattern where
  "ndnrtc_new = \<lparr>streamRecorder = None, storePacketFun = EnginePut\<rparr>"

definition recorder_store :: "'db env \<Rightarrow> store_fun \<Rightarrow> data \<Rightarrow> 'db engine \<Rightarrow> 'db engine result" where
  "recorder_store E storeFun d e =
     (case storeFun of
        EnginePut \<Rightarrow> (case se_put E e d of Inl ex \<Rightarrow> Inl ex | Inr (e', _, _) \<Rightarrow> Inr e'))"

definition ndnrtc_fetch ::
  "rtc_lib \<Rightarrow> name \<Rightarrow> ndnrtc_pattern \<Rightarrow> ndnrtc_pattern \<times> pattern_callback action list" where
  "ndnrtc_fetch R p s =
     (case extractInfo R p of
        Some stream \<Rightarrow> (s\<lparr>streamRecorder := Some stream\<rparr>, [StartRecorder stream (storePacketFun s)])
      | None \<Rightarrow> (s, []))"

definition ndnrtc_cancel :: "ndnrtc_pattern \<Rightarrow> ndnrtc_pattern \<times> pattern_callback action list" where
  "ndnrtc_cancel s =
     (case streamRecorder s of
        Some stream \<Rightarrow> (s\<lparr>streamRecorder := None\<rparr>, [StopRecorder stream])
      | None \<Rightarrow> (s, []))"

definition ndnrtc_status :: "rtc_lib \<Rightarrow> json_lib \<Rightarrow> ndnrtc_pattern \<Rightarrow> string result" where
  "ndnrtc_status R J s =
     (case streamRecorder s of
        None \<Rightarrow> Inl (UndefinedBehaviour ''null stream recorder'')
      | Some stream \<Rightarrow>
          let st = getCurrentStats R stream;
              set1 = (\<lambda>k f. json_at k (json_assign (JInt (f st))));
              set2 = (\<lambda>k l f. json_at k (json_at l (json_assign (JInt (f st)))))
          in (case json_do
               [set1 ''manifests'' manifestsStored,
                set2 ''meta'' ''stream'' streamMetaStored,
                set2 ''meta'' ''thread'' threadMetaStored,
                set2 ''key'' ''requested_no'' latestKeyRequested,
                set2 ''key'' ''received_no'' latestKeyFetched,
                set2 ''key'' ''fetched'' keyStored,
                set2 ''key'' ''failed'' keyFailed,
                set2 ''delta'' ''requested_no'' latestDeltaRequested,
                set2 ''delta'' ''received_no'' latestDeltaFetched,
                set2 ''delta'' ''fetched'' deltaStored,
                set2 ''delta'' ''failed'' deltaFailed,
                set1 ''frames_pending'' pendingFrames] JNull of
               Inl ex \<Rightarrow> Inl ex
             | Inr status \<Rightarrow> json_dump J status))"

section \<open>The generalised-object pattern\<close>

text \<open>
  The code that would start the fetch is commented out: \<open>fetch\<close> makes a namespace object that
  is dropped at once, the table \<open>namespaces_\<close> stays empty, and \<open>cancel\<close> does nothing.
\<close>

definition gobj_fetch :: "name \<Rightarrow> pattern_callback action list" where
  "gobj_fetch p = []"

definition gobj_cancel :: "pattern_callback action list" where
  "gobj_cancel = []"

definition gobj_status :: string where
  "gobj_status = ''n/a''"

section \<open>The interface \<open>IFetchPattern\<close>\<close>

datatype pattern_object =
    CounterObject counter_pattern
  | NdnrtcObject ndnrtc_pattern
  | GobjObject

fun pattern_fetch ::
  "platform \<Rightarrow> addr \<Rightarrow> name \<Rightarrow> pattern_object \<Rightarrow> pattern_object \<times> pattern_callback action list" where
  "pattern_fetch X a p (CounterObject c) = (let (c', as) = counter_fetch a p c in (CounterObject c', as))"
| "pattern_fetch X a p (NdnrtcObject s) = (let (s', as) = ndnrtc_fetch (rtc X) p s in (NdnrtcObject s', as))"
| "pattern_fetch X a p GobjObject = (GobjObject, gobj_fetch p)"

fun pattern_cancel :: "pattern_object \<Rightarrow> pattern_object \<times> pattern_callback action list" where
  "pattern_cancel (CounterObject c) = (CounterObject (counter_cancel c), [])"
| "pattern_cancel (NdnrtcObject s) = (let (s', as) = ndnrtc_cancel s in (NdnrtcObject s', as))"
| "pattern_cancel GobjObject = (GobjObject, gobj_cancel)"

fun pattern_status :: "platform \<Rightarrow> pattern_object \<Rightarrow> string result" where
  "pattern_status X (CounterObject c) = counter_status c"
| "pattern_status X (NdnrtcObject s) = ndnrtc_status (rtc X) (jsonLib X) s"
| "pattern_status X GobjObject = Inr gobj_status"

section \<open>The factory\<close>

datatype pattern_kind = Counter | Ndnrtc | Gobj

text \<open>The static members of the pattern classes: \<open>create\<close> and \<open>getPatternKeyword\<close>.\<close>

definition counter_create :: pattern_object where
  "counter_create = CounterObject counter_new"

definition ndnrtc_create :: pattern_object where
  "ndnrtc_create = NdnrtcObject ndnrtc_new"

definition gobj_create :: pattern_object where
  "gobj_create = GobjObject"

definition counter_getPatternKeyword :: "ndn_lib \<Rightarrow> name" where
  "counter_getPatternKeyword L = ofUri L ''counter''"

definition ndnrtc_getPatternKeyword :: "ndn_lib \<Rightarrow> rtc_lib \<Rightarrow> name" where
  "ndnrtc_getPatternKeyword L R = ofUri L (''ndnrtc'' @ nameApiVersion R)"

definition gobj_getPatternKeyword :: "ndn_lib \<Rightarrow> name" where
  "gobj_getPatternKeyword L = ofUri L ''gobj''"

lemmas [simp] = counter_create_def ndnrtc_create_def gobj_create_def ndnrtc_new_def
  counter_getPatternKeyword_def ndnrtc_getPatternKeyword_def gobj_getPatternKeyword_def

fun new_pattern :: "pattern_kind \<Rightarrow> pattern_object" where
  "new_pattern Counter = counter_create"
| "new_pattern Ndnrtc = ndnrtc_create"
| "new_pattern Gobj = gobj_create"

fun getPatternKeyword :: "ndn_lib \<Rightarrow> platform \<Rightarrow> pattern_kind \<Rightarrow> name" where
  "getPatternKeyword L X Counter = counter_getPatternKeyword L"
| "getPatternKeyword L X Ndnrtc = ndnrtc_getPatternKeyword L (rtc X)"
| "getPatternKeyword L X Gobj = gobj_getPatternKeyword L"

type_synonym factory = "(name, pattern_kind) omap"

definition patternFactory :: "ndn_lib \<Rightarrow> platform \<Rightarrow> factory" where
  "patternFactory L X =
     (let reg = (\<lambda>k m. omap_store (getPatternKeyword L X k) k m);
          m1 = reg Counter omap_empty;
          m2 = (if haveNdnrtc X then reg Ndnrtc m1 else m1)
      in if haveCnl X then reg Gobj (reg Gobj m2) else m2)"

text \<open>The instance is made by the first call and kept.\<close>

definition factory_getInstance :: "ndn_lib \<Rightarrow> platform \<Rightarrow> factory option \<Rightarrow> factory option \<times> factory" where
  "factory_getInstance L X inst =
     (let f = (case inst of None \<Rightarrow> patternFactory L X | Some f \<Rightarrow> f) in (Some f, f))"

text \<open>The name is printed and parsed again on its way to the lookup.\<close>

definition factory_create :: "ndn_lib \<Rightarrow> factory \<Rightarrow> name \<Rightarrow> pattern_object option" where
  "factory_create L f n = map_option new_pattern (omap_find f (ofUri L (toUri L n)))"

definition getSupportedPatterns :: "factory \<Rightarrow> name list" where
  "getSupportedPatterns f = map fst (entries f)"

lemma factory_create_known:
  assumes "uri_laws L" and "factory_create L f n = Some obj"
  shows "\<exists>k. obj = new_pattern k \<and> n \<in> set (getSupportedPatterns f)"
proof -
  from assms obtain k where "omap_find f n = Some k" "obj = new_pattern k"
    by (auto simp: factory_create_def of_to_uri)
  moreover then have "(n, k) \<in> set (entries f)" by (simp add: om.iter_mem)
  ultimately show ?thesis by (force simp: getSupportedPatterns_def)
qed

lemma factory_create_iff:
  "uri_laws L \<Longrightarrow> factory_create L f n = None \<longleftrightarrow> n \<notin> set (getSupportedPatterns f)"
  using om.iter_keys [of f] by (auto simp: factory_create_def of_to_uri getSupportedPatterns_def)

lemma counter_supported:
  "getPatternKeyword L X Counter \<in> set (getSupportedPatterns (patternFactory L X))"
proof -
  have "getPatternKeyword L X Counter \<in> dom (omap_find (patternFactory L X))"
    by (auto simp: patternFactory_def Let_def om.find_store)
  then show ?thesis by (simp add: getSupportedPatterns_def om.iter_keys flip: om.iter_keys)
qed

end
