(* ===== verification/Counter_Run.thy ===== *)
theory Counter_Run
  imports Fetch_Pattern
begin

text \<open>
  The life of a counter pattern: what it requests while its packets arrive, when it stops, and
  that it is quiet once it is cancelled, as long as the object lives.
\<close>

section \<open>A session in which every packet arrives\<close>

text \<open>
  The timer fires, the interest is answered with the next packet of the list, the next timer
  is set, and so on; the session ends when no timer is set or the list is used up. The result
  has the interests that were expressed.
\<close>

fun counter_session ::
  "'db env \<Rightarrow> addr \<Rightarrow> data list \<Rightarrow> counter_pattern \<Rightarrow> 'db engine
     \<Rightarrow> (interest list \<times> counter_pattern \<times> 'db engine) result" where
  "counter_session E a [] c e =
     (case counter_doFetch (lib E) a c of
        Inl ex \<Rightarrow> Inl ex
      | Inr as \<Rightarrow> Inr (map fst (expressed as), c, e))"
| "counter_session E a (d # ds) c e =
     (case counter_doFetch (lib E) a c of
        Inl ex \<Rightarrow> Inl ex
      | Inr as \<Rightarrow>
          if expressed as = [] then Inr ([], c, e)
          else
            (case counter_onData E e a d c of
               Inl ex \<Rightarrow> Inl ex
             | Inr (c', e', bs) \<Rightarrow>
                 if bs = [] then Inr (map fst (expressed as), c', e')
                 else
                   (case counter_session E a ds c' e' of
                      Inl ex \<Rightarrow> Inl ex
                    | Inr (qs, c'', e'') \<Rightarrow> Inr (map fst (expressed as) @ qs, c'', e''))))"

text \<open>The engine after a list of packets has been stored.\<close>

fun put_all :: "'db env \<Rightarrow> data list \<Rightarrow> 'db engine \<Rightarrow> 'db engine result" where
  "put_all E [] e = Inr e"
| "put_all E (d # ds) e =
     (case se_put E e d of Inl ex \<Rightarrow> Inl ex | Inr (e', _, _) \<Rightarrow> put_all E ds e')"

lemma put_all_returns: "engine_ok E e \<Longrightarrow> \<exists>e'. put_all E ds e = Inr e' \<and> engine_ok E e'"
proof (induction ds arbitrary: e)
  case (Cons d ds)
  obtain e1 n where p: "se_put E e d = Inr (e1, n, dName d)"
    using se.put_returns [OF Cons.prems] by blast
  with Cons.IH [OF se.put_inv [OF Cons.prems p]] show ?case by simp
qed simp

lemma counter_interest_name [simp]:
  "packet_laws L \<Longrightarrow> iName (counter_interest L p n) = p @ [generic (to_string n)]"
  by (simp add: counter_interest_def packet_laws_def)

text \<open>The requests from the \<open>k\<close>th on, when \<open>m\<close> packets are still to arrive.\<close>

lemma session_from:
  assumes "engine_ok E e" and "running c" and "counter c = Some (int k)" and "k < 10"
  shows "\<exists>c' e'. counter_session E a ds c e
       = Inr (map (\<lambda>j. counter_interest (lib E) (fetchPrefix c) (int j)) [k ..< min 10 (k + length ds + 1)],
              c', e')
     \<and> counter c' = Some (int (min 10 (k + length ds))) \<and> (running c' \<longleftrightarrow> k + length ds < 10)
     \<and> put_all E (take (10 - k) ds) e = Inr e'"
  using assms
proof (induction ds arbitrary: c e k)
  case Nil
  then show ?case by (auto simp: counter_doFetch_def upt_rec)
next
  case (Cons d ds)
  obtain e1 n where p: "se_put E e d = Inr (e1, n, dName d)"
    using se.put_returns [OF Cons.prems(1)] by blast
  have ok1: "engine_ok E e1" using se.put_inv [OF Cons.prems(1) p] .
  show ?case
  proof (cases "k + 1 < 10")
    case True
    let ?c = "c\<lparr>counter := Some (int (Suc k))\<rparr>"
    have "\<exists>c' e'. counter_session E a ds ?c e1
       = Inr (map (\<lambda>j. counter_interest (lib E) (fetchPrefix ?c) (int j))
                [Suc k ..< min 10 (Suc k + length ds + 1)], c', e')
     \<and> counter c' = Some (int (min 10 (Suc k + length ds))) \<and> (running c' \<longleftrightarrow> Suc k + length ds < 10)
     \<and> put_all E (take (10 - Suc k) ds) e1 = Inr e'"
      by (rule Cons.IH) (use True Cons.prems ok1 in auto)
    moreover have "take (10 - k) (d # ds) = d # take (10 - Suc k) ds"
      using True by (metis Suc_diff_Suc Suc_eq_plus1 Suc_lessD take_Suc_Cons)
    moreover have "[k ..< min 10 (k + length (d # ds) + 1)]
        = k # [Suc k ..< min 10 (Suc k + length ds + 1)]"
    proof -
      have "min 10 (k + length (d # ds) + 1) = min 10 (Suc k + length ds + 1)" by simp
      moreover have "k < min 10 (Suc k + length ds + 1)" using True by simp
      ultimately show ?thesis by (simp only: upt_conv_Cons)
    qed
    ultimately show ?thesis
      using Cons.prems p True by (auto simp: counter_doFetch_def counter_onData_def add.commute)
  next
    case False
    then have "k = 9" using Cons.prems(4) by simp
    then show ?thesis
      using Cons.prems p by (auto simp: counter_doFetch_def counter_onData_def upt_rec)
  qed
qed

text \<open>
  C17: after \<open>fetch(prefix)\<close> the counter pattern requests \<open>prefix/0\<close>, \<open>prefix/1\<close>, ... in order,
  each after the packet for the one before it has been stored, and never more than ten. It
  stops by itself exactly when ten packets have arrived; all that arrived are stored.
\<close>

theorem counter_fetches_in_order:
  assumes "env_ok E" and "engine_ok E e" and "counter_fetch a p c0 = (c, as)"
  shows "\<exists>qs c' e'. counter_session E a ds c e = Inr (qs, c', e')
    \<and> map iName qs = map (\<lambda>k. p @ [generic (to_string (int k))]) [0 ..< min 10 (length ds + 1)]
    \<and> (running c' \<longleftrightarrow> length ds < 10) \<and> counter c' = Some (int (min 10 (length ds)))
    \<and> put_all E (take 10 ds) e = Inr e'"
proof -
  have c: "running c" "counter c = Some (int 0)" "fetchPrefix c = p"
    using assms(3) by (auto simp: counter_fetch_def)
  obtain c' e' where "counter_session E a ds c e
       = Inr (map (\<lambda>j. counter_interest (lib E) p (int j)) [0 ..< min 10 (0 + length ds + 1)], c', e')"
    "counter c' = Some (int (min 10 (0 + length ds)))" "running c' \<longleftrightarrow> 0 + length ds < 10"
    "put_all E (take (10 - 0) ds) e = Inr e'"
    using session_from [OF assms(2) c(1,2), of a ds] c(3) by auto
  with env_packet [OF assms(1)] show ?thesis by (simp add: o_def)
qed

theorem counter_fetches_in_order_witness:
  "\<exists>qs c' e'. counter_session ref_env 1 [ref_packet [''a'', ''0''] ''x'', ref_packet [''a'', ''1''] ''y'']
      (fst (counter_fetch 1 [generic ''a''] counter_new)) (ref_open []) = Inr (qs, c', e')
    \<and> map iName qs = map (map generic) [[''a'', ''0''], [''a'', ''1''], [''a'', ''2'']]"
proof -
  let ?ds = "[ref_packet [''a'', ''0''] ''x'', ref_packet [''a'', ''1''] ''y'']"
  obtain c as where f: "counter_fetch 1 [generic ''a''] counter_new = (c, as)" by fastforce
  have dec: "to_string 0 = ''0''" "to_string 1 = ''1''" "to_string 2 = ''2''"
    by code_simp+
  obtain qs c' e' where "counter_session ref_env 1 ?ds c (ref_open []) = Inr (qs, c', e')"
    "map iName qs = map (\<lambda>k. [generic ''a''] @ [generic (to_string (int k))]) [0 ..< min 10 (length ?ds + 1)]"
    using counter_fetches_in_order [OF ref_env_ok ref_open_ok f, of ?ds "[]"] by blast
  moreover have "[0 ..< min 10 (length ?ds + 1)] = [0, 1, 2]" by (simp add: upt_rec)
  ultimately show ?thesis using f dec by auto
qed

section \<open>Cancelling\<close>

text \<open>
  What a pattern handle relies on when it cancels a pattern: from then on the pattern asks for
  nothing, whichever of its timers fire and packets arrive.
\<close>

locale cancellable =
  fixes cancel :: "'s \<Rightarrow> 's"
    and timer :: "'e \<Rightarrow> 's \<Rightarrow> 'cb action list result"
    and arrive :: "'e \<Rightarrow> 'w \<Rightarrow> data \<Rightarrow> 's \<Rightarrow> ('s \<times> 'w \<times> 'cb action list) result"
    and quiet :: "'s \<Rightarrow> bool"
  assumes cancel_quiet: "quiet (cancel s)"
    and timer_quiet: "quiet s \<Longrightarrow> timer E s = Inr []"
    and arrive_quiet: "quiet s \<Longrightarrow> arrive E w d s = Inr (s', w', as) \<Longrightarrow> quiet s' \<and> expressed as = []"

text \<open>Timers and packets in any order; a packet is \<open>Some d\<close>. The result has the interests.\<close>

fun drive :: "('s \<Rightarrow> 'cb action list result) \<Rightarrow> ('w \<Rightarrow> data \<Rightarrow> 's \<Rightarrow> ('s \<times> 'w \<times> 'cb action list) result)
    \<Rightarrow> data option list \<Rightarrow> 's \<Rightarrow> 'w \<Rightarrow> interest list result" where
  "drive t f [] s w = Inr []"
| "drive t f (None # evs) s w =
     (case t s of Inl ex \<Rightarrow> Inl ex
      | Inr as \<Rightarrow> (case drive t f evs s w of Inl ex \<Rightarrow> Inl ex
          | Inr qs \<Rightarrow> Inr (map fst (expressed as) @ qs)))"
| "drive t f (Some d # evs) s w =
     (case f w d s of Inl ex \<Rightarrow> Inl ex
      | Inr (s', w', as) \<Rightarrow> (case drive t f evs s' w' of Inl ex \<Rightarrow> Inl ex
          | Inr qs \<Rightarrow> Inr (map fst (expressed as) @ qs)))"

context cancellable begin

lemma quiet_drive: "quiet s \<Longrightarrow> drive (timer E) (arrive E) evs s w = Inr qs \<Longrightarrow> qs = []"
proof (induction evs arbitrary: s w qs)
  case (Cons ev evs)
  show ?case
  proof (cases ev)
    case None
    with Cons.prems have "drive (timer E) (arrive E) evs s w = Inr qs"
      by (simp add: timer_quiet split: sum.splits)
    with Cons.prems(1) show ?thesis by (rule Cons.IH)
  next
    case (Some d)
    with Cons.prems(2) obtain s' w' as js where st: "arrive E w d s = Inr (s', w', as)"
      "drive (timer E) (arrive E) evs s' w' = Inr js" "qs = map fst (expressed as) @ js"
      by (auto split: sum.splits prod.splits)
    from arrive_quiet [OF Cons.prems(1) st(1)] Cons.IH [OF _ st(2)] st(3) show ?thesis by simp
  qed
qed simp

lemma cancelled_drive: "drive (timer E) (arrive E) evs (cancel s) w = Inr qs \<Longrightarrow> qs = []"
  using cancel_quiet by (rule quiet_drive)

end

interpretation counter_pat: cancellable counter_cancel "\<lambda>E. counter_doFetch (lib E) a"
  "\<lambda>E e. counter_onData E e a" "\<lambda>c. \<not> running c" for a
  by unfold_locales
    (auto simp: counter_cancel_def counter_doFetch_def counter_onData_def
      split: sum.splits option.splits if_splits)

text \<open>
  A counter pattern that has been cancelled expresses no interest any more, whichever
  timers fire and packets arrive afterwards.
\<close>

theorem counter_cancel_quiet:
  assumes "drive (counter_doFetch (lib E) a) (\<lambda>e. counter_onData E e a) evs (counter_cancel c) e = Inr qs"
  shows "qs = []"
  using assms by (rule counter_pat.cancelled_drive [of E a evs c])

theorem counter_cancel_quiet_witness:
  "\<exists>e'. counter_onData ref_env (ref_open []) 1 (ref_packet [''a'', ''0''] ''x'')
        (counter_cancel (fst (counter_fetch 1 [generic ''a''] counter_new)))
      = Inr (counter_cancel (fst (counter_fetch 1 [generic ''a''] counter_new))\<lparr>counter := Some 1\<rparr>, e',
           [CallLater 2000 (CounterDoFetch 1)])
    \<and> drive (counter_doFetch (lib ref_env) 1) (\<lambda>e. counter_onData ref_env e 1)
        [None, Some (ref_packet [''a'', ''0''] ''x''), None]
        (counter_cancel (fst (counter_fetch 1 [generic ''a''] counter_new))) (ref_open []) = Inr []"
proof -
  let ?c = "counter_cancel (fst (counter_fetch 1 [generic ''a''] counter_new))"
  let ?d = "ref_packet [''a'', ''0''] ''x''"
  obtain e' n where "se_put ref_env (ref_open []) ?d = Inr (e', n, dName ?d)"
    using se.put_returns [OF ref_open_ok] by blast
  then have on: "counter_onData ref_env (ref_open []) 1 ?d ?c
      = Inr (?c\<lparr>counter := Some 1\<rparr>, e', [CallLater 2000 (CounterDoFetch 1)])"
    by (simp add: counter_onData_def counter_cancel_def counter_fetch_def)
  then obtain qs where "drive (counter_doFetch (lib ref_env) 1) (\<lambda>e. counter_onData ref_env e 1)
      [None, Some ?d, None] ?c (ref_open []) = Inr qs"
    by (simp add: counter_doFetch_def counter_cancel_def)
  with counter_cancel_quiet [OF this] on show ?thesis by simp
qed

end
