(* ===== verification/Pattern_Handle.thy ===== *)
theory Pattern_Handle
  imports Counter_Run "HOL-Library.Multiset"
begin

text \<open>
  \<open>pattern-handle.cpp\<close>: the commands that start and cancel a fetch pattern. The table
  \<open>patterns_\<close> holds the only lasting reference to a pattern object, so erasing an entry
  destroys the object: the heap of the model loses its address, and a callback bound to that
  address then follows a dangling pointer. Addresses are not reused.
\<close>

section \<open>State\<close>

record pattern_handle =
  patterns :: "(name, addr) omap"
  heap :: "(addr, pattern_object) omap"
  nextAddr :: addr
  handleFactory :: factory

definition pattern_new :: "ndn_lib \<Rightarrow> platform \<Rightarrow> pattern_handle" where
  "pattern_new L X = \<lparr>patterns = omap_empty, heap = omap_empty, nextAddr = 0,
     handleFactory = snd (factory_getInstance L X None)\<rparr>"

definition pattern_listen :: "name \<Rightarrow> 'cb action list" where
  "pattern_listen p = [SetInterestFilter (p @ [generic ''pattern'']) PatternCommand,
     SetInterestFilter (p @ [generic ''cancel'']) CancelCommand]"

section \<open>Commands\<close>

definition decodeNames :: "ndn_lib \<Rightarrow> bytes list \<Rightarrow> (name \<times> name) option" where
  "decodeNames L composed =
     (if length composed \<noteq> 2 then None
      else case decodeNameMsg L (composed ! 0) of
        None \<Rightarrow> None
      | Some patternName \<Rightarrow>
          (case decodeNameMsg L (composed ! 1) of
             None \<Rightarrow> None
           | Some fetchPref \<Rightarrow> Some (message_name patternName, message_name fetchPref)))"

text \<open>
  \<open>rename\<close> is the rename prefix of the storage engine, the only thing the command asks of it.
\<close>

definition pattern_onInterest ::
  "ndn_lib \<Rightarrow> platform \<Rightarrow> string \<Rightarrow> name \<Rightarrow> interest \<Rightarrow> pattern_handle
     \<Rightarrow> pattern_handle \<times> pattern_callback action list" where
  "pattern_onInterest L X rename p i s =
     (case extractParameter L i p of
        Inl ex \<Rightarrow> (s, [negativeReply L i 403])
      | Inr par \<Rightarrow>
          (case decodeNames L (pName par) of
             None \<Rightarrow> (s, [negativeReply L i 403])
           | Some (patternName, fetchPref) \<Rightarrow>
               if omap_find (patterns s) fetchPref \<noteq> None then (s, [negativeReply L i 402])
               else
                 (case factory_create L (handleFactory s) patternName of
                    None \<Rightarrow> (s, [negativeReply L i 404])
                  | Some obj \<Rightarrow>
                      let a = nextAddr s;
                          (obj', as) = pattern_fetch X a fetchPref obj
                      in (s\<lparr>patterns := omap_store fetchPref a (patterns s),
                            heap := omap_store a obj' (heap s), nextAddr := Suc a\<rparr>,
                          as @ [EmitInsertion (ofUri L rename @ fetchPref),
                                negativeReply L i 100]))))"

text \<open>
  What \<open>removePattern\<close> and the cancel command do to an entry they have found: the object is
  cancelled and, its reference erased, destroyed.
\<close>

definition cancel_entry ::
  "name \<Rightarrow> addr \<Rightarrow> pattern_handle \<Rightarrow> (pattern_handle \<times> pattern_callback action list) result" where
  "cancel_entry n a s =
     (case omap_find (heap s) a of
        None \<Rightarrow> Inl (UndefinedBehaviour ''dangling pattern'')
      | Some obj \<Rightarrow>
          let (obj', as) = pattern_cancel obj
          in Inr (s\<lparr>patterns := omap_erase n (patterns s), heap := omap_erase a (heap s)\<rparr>, as))"

definition removePattern ::
  "name \<Rightarrow> pattern_handle \<Rightarrow> (pattern_handle \<times> pattern_callback action list) result" where
  "removePattern n s =
     (case omap_find (patterns s) n of
        None \<Rightarrow> Inr (s, [])
      | Some a \<Rightarrow> cancel_entry n a s)"

definition onCancelRequest ::
  "ndn_lib \<Rightarrow> name \<Rightarrow> interest \<Rightarrow> pattern_handle
     \<Rightarrow> (pattern_handle \<times> pattern_callback action list) result" where
  "onCancelRequest L p i s =
     (case extractParameter L i p of
        Inl ex \<Rightarrow> Inr (s, [negativeReply L i 403])
      | Inr par \<Rightarrow>
          let fetchPref = message_name (pName par)
          in (case omap_find (patterns s) fetchPref of
                None \<Rightarrow> Inr (s, [negativeReply L i 402])
              | Some a \<Rightarrow>
                  (case cancel_entry fetchPref a s of
                     Inl ex \<Rightarrow> Inl ex
                   | Inr (s', as) \<Rightarrow> Inr (s', as @ [negativeReply L i 101]))))"

section \<open>Status\<close>

fun active_statuses :: "ndn_lib \<Rightarrow> platform \<Rightarrow> pattern_handle \<Rightarrow> (name \<times> addr) list
    \<Rightarrow> json \<Rightarrow> json result" where
  "active_statuses L X s [] status = Inr status"
| "active_statuses L X s ((n, a) # it) status =
     (case omap_find (heap s) a of
        None \<Rightarrow> Inl (UndefinedBehaviour ''dangling pattern'')
      | Some obj \<Rightarrow>
          (case pattern_status X obj of
             Inl ex \<Rightarrow> Inl ex
           | Inr report \<Rightarrow>
               (case json_parse (jsonLib X) report of
                  Inl ex \<Rightarrow> Inl ex
                | Inr j \<Rightarrow>
                    (case json_at ''active'' (json_at (toUri L n) (json_assign j)) status of
                       Inl ex \<Rightarrow> Inl ex
                     | Inr status' \<Rightarrow> active_statuses L X s it status'))))"

definition pattern_statusReport ::
  "ndn_lib \<Rightarrow> platform \<Rightarrow> pattern_handle \<Rightarrow> (string \<times> string) result" where
  "pattern_statusReport L X s =
     (case json_do (map (\<lambda>n. json_at ''supported'' (json_push_back (JString (toUri L n))))
                (getSupportedPatterns (handleFactory s))) JNull of
        Inl ex \<Rightarrow> Inl ex
      | Inr status \<Rightarrow>
          (case active_statuses L X s (entries (patterns s)) status of
             Inl ex \<Rightarrow> Inl ex
           | Inr status' \<Rightarrow>
               (case json_dump (jsonLib X) status' of
                  Inl ex \<Rightarrow> Inl ex
                | Inr report \<Rightarrow> Inr (''pattern-handle'', report))))"

section \<open>Callbacks of the pattern objects\<close>

definition pattern_timer ::
  "ndn_lib \<Rightarrow> pattern_callback \<Rightarrow> pattern_handle \<Rightarrow> pattern_callback action list result" where
  "pattern_timer L cb s =
     (case cb of
        CounterDoFetch a \<Rightarrow>
          (case omap_find (heap s) a of
             Some (CounterObject c) \<Rightarrow> counter_doFetch L a c
           | _ \<Rightarrow> Inl (UndefinedBehaviour ''use after free''))
      | CounterOnData a \<Rightarrow> Inl (UndefinedBehaviour ''not a timer''))"

definition pattern_data ::
  "'db env \<Rightarrow> 'db engine \<Rightarrow> pattern_callback \<Rightarrow> data \<Rightarrow> pattern_handle
     \<Rightarrow> (pattern_handle \<times> 'db engine \<times> pattern_callback action list) result" where
  "pattern_data E e cb d s =
     (case cb of
        CounterOnData a \<Rightarrow>
          (case omap_find (heap s) a of
             Some (CounterObject c) \<Rightarrow>
               (case counter_onData E e a d c of
                  Inl ex \<Rightarrow> Inl ex
                | Inr (c', e', as) \<Rightarrow>
                    Inr (s\<lparr>heap := omap_store a (CounterObject c') (heap s)\<rparr>, e', as))
           | _ \<Rightarrow> Inl (UndefinedBehaviour ''use after free''))
      | CounterDoFetch a \<Rightarrow> Inl (UndefinedBehaviour ''not a data callback''))"

lemmas [handler_simps] = pattern_onInterest_def onCancelRequest_def cancel_entry_def

section \<open>The invariant\<close>

text \<open>
  Table and heap agree: no two entries share an object, the living objects are those of the
  entries, and addresses are below the next one.
\<close>

definition owns :: "(name \<Rightarrow> addr option) \<Rightarrow> addr set \<Rightarrow> addr \<Rightarrow> bool" where
  "owns P A k \<longleftrightarrow> inj_on P (dom P) \<and> ran P = A \<and> (\<forall>a \<in> A. a < k)"

definition handle_ok :: "pattern_handle \<Rightarrow> bool" where
  "handle_ok s \<longleftrightarrow> owns (omap_find (patterns s)) (dom (omap_find (heap s))) (nextAddr s)"

lemma owns_store:
  assumes "owns P A k" and "P n = None"
  shows "owns (P(n \<mapsto> k)) (insert k A) (Suc k)"
proof -
  from assms have "k \<notin> ran P" by (auto simp: owns_def)
  then have "inj_on (P(n \<mapsto> k)) (dom (P(n \<mapsto> k)))"
    using assms by (auto simp: owns_def inj_on_def ran_def)
  with assms show ?thesis by (auto simp: owns_def less_Suc_eq)
qed

lemma owns_erase:
  assumes "owns P A k" and "P n = Some a"
  shows "owns (P(n := None)) (A - {a}) k"
proof -
  have "ran (P(n := None)) = A - {a}"
    using assms by (auto simp: owns_def ran_def inj_on_def dom_def) (metis option.inject)
  moreover have "inj_on (P(n := None)) (dom (P(n := None)))"
    using assms by (auto simp: owns_def inj_on_def)
  ultimately show ?thesis using assms by (auto simp: owns_def)
qed

lemma handle_new: "handle_ok (pattern_new L X)" "patterns (pattern_new L X) = omap_empty"
  by (simp_all add: handle_ok_def owns_def pattern_new_def)

lemma handle_entry:
  assumes "handle_ok s" and "omap_find (patterns s) n = Some a"
  shows "\<exists>obj. omap_find (heap s) a = Some obj"
proof -
  have "a \<in> ran (omap_find (patterns s))" using assms(2) by (rule ranI)
  with assms(1) show ?thesis by (auto simp: handle_ok_def owns_def)
qed

lemma handle_object:
  assumes "handle_ok s" and "omap_find (heap s) a = Some obj"
  shows "a < nextAddr s" and "\<exists>n. omap_find (patterns s) n = Some a"
proof -
  have "a \<in> dom (omap_find (heap s))" using assms(2) by (rule domI)
  with assms(1) show "a < nextAddr s" and "\<exists>n. omap_find (patterns s) n = Some a"
    by (auto simp: handle_ok_def owns_def ran_def)
qed

lemma handle_distinct:
  assumes "handle_ok s" and "omap_find (patterns s) n = Some a" and "omap_find (patterns s) m = Some a"
  shows "n = m"
  using assms inj_onD [of "omap_find (patterns s)" "dom (omap_find (patterns s))" n m]
  by (simp add: handle_ok_def owns_def domI)

text \<open>A new object under a new name, an erased entry and its object, a changed object.\<close>

lemma handle_ok_start:
  assumes "handle_ok s" and "omap_find (patterns s) n = None"
  shows "handle_ok (s\<lparr>patterns := omap_store n (nextAddr s) (patterns s),
     heap := omap_store (nextAddr s) obj (heap s), nextAddr := Suc (nextAddr s)\<rparr>)"
  using owns_store [OF assms [unfolded handle_ok_def]] by (simp add: handle_ok_def om.find_store)

lemma handle_ok_erase:
  assumes "handle_ok s" and "omap_find (patterns s) n = Some a"
  shows "handle_ok (s\<lparr>patterns := omap_erase n (patterns s), heap := omap_erase a (heap s)\<rparr>)"
  using owns_erase [OF assms [unfolded handle_ok_def]] by (simp add: handle_ok_def om.find_erase)

lemma handle_ok_update:
  assumes "handle_ok s" and "omap_find (heap s) a = Some obj"
  shows "handle_ok (s\<lparr>heap := omap_store a obj' (heap s)\<rparr>)"
proof -
  have "insert a (dom (omap_find (heap s))) = dom (omap_find (heap s))"
    using assms(2) by (simp add: insert_absorb domI)
  with assms(1) show ?thesis by (simp add: handle_ok_def om.find_store)
qed

section \<open>The outcomes of the commands\<close>

lemma pattern_command_cases:
  fixes s :: pattern_handle
  obtains (refused) code where "code \<in> {402, 403, 404}"
      "pattern_onInterest L X rename p i s = (s, [negativeReply L i code])"
  | (started) par pat fp obj obj' as where
      "extractParameter L i p = Inr par" "decodeNames L (pName par) = Some (pat, fp)"
      "omap_find (patterns s) fp = None" "factory_create L (handleFactory s) pat = Some obj"
      "pattern_fetch X (nextAddr s) fp obj = (obj', as)"
      "pattern_onInterest L X rename p i s =
         (s\<lparr>patterns := omap_store fp (nextAddr s) (patterns s),
            heap := omap_store (nextAddr s) obj' (heap s), nextAddr := Suc (nextAddr s)\<rparr>,
          as @ [EmitInsertion (ofUri L rename @ fp), negativeReply L i 100])"
proof (cases "extractParameter L i p")
  case (Inl ex)
  then show thesis by (intro refused [of 403]) (simp_all add: pattern_onInterest_def)
next
  case par: (Inr par)
  show thesis
  proof (cases "decodeNames L (pName par)")
    case None
    with par show thesis by (intro refused [of 403]) (simp_all add: pattern_onInterest_def)
  next
    case (Some names)
    obtain pat fp where names: "decodeNames L (pName par) = Some (pat, fp)"
      using Some by (cases names) auto
    show thesis
    proof (cases "omap_find (patterns s) fp")
      case new: None
      show thesis
      proof (cases "factory_create L (handleFactory s) pat")
        case None
        with par names new show thesis
          by (intro refused [of 404]) (simp_all add: pattern_onInterest_def)
      next
        case obj: (Some obj)
        obtain obj' as where "pattern_fetch X (nextAddr s) fp obj = (obj', as)" by fastforce
        with par names new obj show thesis
          by (intro started) (simp_all add: pattern_onInterest_def Let_def)
      qed
    next
      case (Some a)
      with par names show thesis by (intro refused [of 402]) (simp_all add: pattern_onInterest_def)
    qed
  qed
qed

lemma cancel_command_cases:
  assumes "handle_ok s"
  obtains (unreadable) ex where "extractParameter L i p = Inl ex"
      "onCancelRequest L p i s = Inr (s, [negativeReply L i 403])"
  | (unknown) par where "extractParameter L i p = Inr par"
      "omap_find (patterns s) (message_name (pName par)) = None"
      "onCancelRequest L p i s = Inr (s, [negativeReply L i 402])"
  | (cancelled) par a obj obj' as where
      "extractParameter L i p = Inr par" "omap_find (patterns s) (message_name (pName par)) = Some a"
      "omap_find (heap s) a = Some obj" "pattern_cancel obj = (obj', as)"
      "onCancelRequest L p i s = Inr (s\<lparr>patterns := omap_erase (message_name (pName par)) (patterns s),
          heap := omap_erase a (heap s)\<rparr>, as @ [negativeReply L i 101])"
proof (cases "extractParameter L i p")
  case (Inl ex)
  then show thesis by (intro unreadable) (simp_all add: handler_simps)
next
  case par: (Inr par)
  show thesis
  proof (cases "omap_find (patterns s) (message_name (pName par))")
    case None
    with par show thesis by (intro unknown) (simp_all add: onCancelRequest_def Let_def)
  next
    case (Some a)
    moreover obtain obj where "omap_find (heap s) a = Some obj"
      using handle_entry [OF assms Some] by blast
    moreover obtain obj' as where "pattern_cancel obj = (obj', as)" by fastforce
    ultimately show thesis using par
      by (intro cancelled) (simp_all add: onCancelRequest_def cancel_entry_def Let_def)
  qed
qed

text \<open>Why a pattern command is refused.\<close>

lemma pattern_command_reasons:
  fixes s :: pattern_handle
  assumes L: "uri_laws L"
  obtains (unreadable) ex where "extractParameter L i p = Inl ex"
      "pattern_onInterest L X rename p i s = (s, [negativeReply L i 403])"
  | (undecodable) par where "extractParameter L i p = Inr par" "decodeNames L (pName par) = None"
      "pattern_onInterest L X rename p i s = (s, [negativeReply L i 403])"
  | (duplicate) par pat fp where "extractParameter L i p = Inr par"
      "decodeNames L (pName par) = Some (pat, fp)" "omap_find (patterns s) fp \<noteq> None"
      "pattern_onInterest L X rename p i s = (s, [negativeReply L i 402])"
  | (unsupported) par pat fp where "extractParameter L i p = Inr par"
      "decodeNames L (pName par) = Some (pat, fp)" "omap_find (patterns s) fp = None"
      "pat \<notin> set (getSupportedPatterns (handleFactory s))"
      "pattern_onInterest L X rename p i s = (s, [negativeReply L i 404])"
  | (accepted) par pat fp obj obj' as where
      "extractParameter L i p = Inr par" "decodeNames L (pName par) = Some (pat, fp)"
      "omap_find (patterns s) fp = None" "pat \<in> set (getSupportedPatterns (handleFactory s))"
      "pattern_fetch X (nextAddr s) fp obj = (obj', as)"
      "pattern_onInterest L X rename p i s =
         (s\<lparr>patterns := omap_store fp (nextAddr s) (patterns s),
            heap := omap_store (nextAddr s) obj' (heap s), nextAddr := Suc (nextAddr s)\<rparr>,
          as @ [EmitInsertion (ofUri L rename @ fp), negativeReply L i 100])"
proof (cases "extractParameter L i p")
  case (Inl ex)
  then show thesis by (intro unreadable) (simp_all add: pattern_onInterest_def)
next
  case par: (Inr par)
  show thesis
  proof (cases "decodeNames L (pName par)")
    case None
    with par show thesis by (intro undecodable) (simp_all add: pattern_onInterest_def)
  next
    case (Some names)
    then obtain pat fp where names: "decodeNames L (pName par) = Some (pat, fp)" by (cases names) auto
    note known = factory_create_iff [OF L, of "handleFactory s" pat]
    show thesis
    proof (cases "omap_find (patterns s) fp = None")
      case False
      with par names show thesis by (intro duplicate) (auto simp: pattern_onInterest_def)
    next
      case new: True
      show thesis
      proof (cases "factory_create L (handleFactory s) pat")
        case None
        with par names new known show thesis by (intro unsupported) (simp_all add: pattern_onInterest_def)
      next
        case obj: (Some obj)
        obtain obj' as where "pattern_fetch X (nextAddr s) fp obj = (obj', as)" by fastforce
        with par names new obj known show thesis
          by (intro accepted) (simp_all add: pattern_onInterest_def Let_def)
      qed
    qed
  qed
qed

text \<open>No pattern sends a packet of its own.\<close>

lemma fetch_sends_nothing:
  "pattern_fetch X a p obj = (obj', as) \<Longrightarrow> sent as = [] \<and> signalled as = []"
  by (cases obj) (auto simp: counter_fetch_def ndnrtc_fetch_def gobj_fetch_def split: option.splits)

lemma cancel_sends_nothing: "pattern_cancel obj = (obj', as) \<Longrightarrow> sent as = []"
  by (cases obj) (auto simp: ndnrtc_cancel_def gobj_cancel_def split: option.splits)

end
