(* ===== verification/Pattern_Properties.thy ===== *)
theory Pattern_Properties
  imports Pattern_Handle
begin

text \<open>
  The properties of the pattern commands: every command is answered and with which status,
  table and heap agree, callbacks are safe while nothing is cancelled, and are not afterwards.
\<close>

section \<open>The contract\<close>

text \<open>Both commands as one handler; the environment says which endpoint a command arrived at.\<close>

definition pattern_command ::
  "ndn_lib \<times> platform \<times> string \<Rightarrow> endpoint \<Rightarrow> name \<Rightarrow> interest \<Rightarrow> pattern_handle
     \<Rightarrow> (pattern_handle \<times> pattern_callback action list) result" where
  "pattern_command E ep p i s =
     (case E of (L, X, rename) \<Rightarrow>
        if ep = CancelCommand then onCancelRequest L p i s
        else Inr (pattern_onInterest L X rename p i s))"

lemma pattern_onInterest_answers:
  assumes ok: "handle_ok s"
  shows "\<exists>s' as code. pattern_onInterest L X rename p i s = (s', as) \<and> handle_ok s'
     \<and> sent as = [answer L i (status_only code)] \<and> code \<in> {100, 402, 403, 404}"
proof (cases rule: pattern_command_cases [where L = L and X = X and rename = rename and p = p
      and i = i and s = s])
  case (refused code)
  with ok show ?thesis by auto
next
  case (started par pat fp obj obj' as)
  with handle_ok_start [OF ok started(3)] fetch_sends_nothing [OF started(5)] show ?thesis
    by auto
qed

lemma onCancelRequest_answers:
  assumes ok: "handle_ok s"
  shows "\<exists>s' as code. onCancelRequest L p i s = Inr (s', as) \<and> handle_ok s'
     \<and> sent as = [answer L i (status_only code)] \<and> code \<in> {101, 402, 403}"
  using ok
proof (cases rule: cancel_command_cases [where L = L and p = p and i = i])
  case (cancelled par a obj obj' as)
  with handle_ok_erase [OF ok cancelled(2)] cancel_sends_nothing [OF cancelled(4)] show ?thesis
    by auto
qed (use ok in auto)

interpretation pattern_cmd: command_handler fst pattern_command "\<lambda>E. handle_ok"
proof unfold_locales
  fix E :: "ndn_lib \<times> platform \<times> string" and s :: pattern_handle and ep p i
  assume ok: "handle_ok s"
  obtain L X rename where E: "E = (L, X, rename)" by (cases E)
  show "\<exists>s' as r. pattern_command E ep p i s = Inr (s', as) \<and> handle_ok s'
      \<and> sent as = [answer (fst E) i r]"
    using pattern_onInterest_answers [OF ok, of L X rename p i]
      onCancelRequest_answers [OF ok, of L p i]
    by (cases "ep = CancelCommand") (auto simp: pattern_command_def E)
qed

section \<open>Commands and libraries used by the witnesses\<close>

definition ref_rtc :: rtc_lib where
  "ref_rtc = \<lparr>nameApiVersion = ''3'', extractInfo = (\<lambda>n. if 2 \<le> length n then Some (butlast n) else None),
     getCurrentStats = (\<lambda>_. \<lparr>manifestsStored = 0, streamMetaStored = 0, threadMetaStored = 0,
       latestKeyRequested = 0, latestKeyFetched = 0, keyStored = 0, keyFailed = 0,
       latestDeltaRequested = 0, latestDeltaFetched = 0, deltaStored = 0, deltaFailed = 0,
       pendingFrames = 0\<rparr>)\<rparr>"

definition ref_platform :: platform where
  "ref_platform = \<lparr>haveNdnrtc = True, haveCnl = False, rtc = ref_rtc, jsonLib = ref_json\<rparr>"

text \<open>A pattern command and a cancel command sent to \<open>/r\<close>.\<close>

definition ref_pattern_command :: "bytes \<Rightarrow> bytes list \<Rightarrow> interest" where
  "ref_pattern_command pat cs =
     ref_interest [''r'', ''pattern'', frames [frames [pat], frames cs]] True"

definition ref_cancel_command :: "bytes list \<Rightarrow> interest" where
  "ref_cancel_command cs = ref_interest [''r'', ''cancel'', frames cs] True"

lemma ref_pattern_parameters:
  "extractParameter ref_lib (ref_pattern_command pat cs) [generic ''r'', generic ''pattern'']
     = Inr (name_parameter [frames [pat], frames cs])"
  "extractParameter ref_lib (ref_cancel_command cs) [generic ''r'', generic ''cancel'']
     = Inr (name_parameter cs)"
  "decodeNames ref_lib (pName (name_parameter [frames [pat], frames cs]))
     = Some ([generic pat], map generic cs)"
  by (simp_all add: extractParameter_def ref_pattern_command_def ref_cancel_command_def
      ref_interest_def decodeNames_def name_parameter_def message_name_def)

lemma ref_counter_known:
  "factory_create ref_lib (handleFactory (pattern_new ref_lib ref_platform)) [generic ''counter'']
     = Some (CounterObject counter_new)"
proof -
  have "getPatternKeyword ref_lib ref_platform Counter = [generic ''counter'']"
    "getPatternKeyword ref_lib ref_platform Ndnrtc = [generic ''ndnrtc3'']"
    unfolding getPatternKeyword.simps ref_platform_def ref_rtc_def by (simp; code_simp)+
  then show ?thesis
    by (simp add: factory_create_def ref_ofUri_toUri pattern_new_def factory_getInstance_def
        patternFactory_def ref_platform_def om.find_store Let_def)
qed

text \<open>A handle on which a counter pattern for \<open>/a\<close> has been started.\<close>

definition ref_started :: pattern_handle where
  "ref_started = fst (pattern_onInterest ref_lib ref_platform [] [generic ''r'', generic ''pattern'']
     (ref_pattern_command ''counter'' [''a'']) (pattern_new ref_lib ref_platform))"

lemma ref_started_command:
  "pattern_onInterest ref_lib ref_platform [] [generic ''r'', generic ''pattern'']
     (ref_pattern_command ''counter'' [''a'']) (pattern_new ref_lib ref_platform)
   = (ref_started, [CallLater 1 (CounterDoFetch 0), EmitInsertion [generic ''a''],
        negativeReply ref_lib (ref_pattern_command ''counter'' [''a'']) 100])"
  "patterns ref_started = omap_store [generic ''a''] 0 omap_empty"
  "heap ref_started = omap_store 0 (CounterObject (fst (counter_fetch 0 [generic ''a''] counter_new))) omap_empty"
  using ref_counter_known
  by (simp_all add: ref_started_def pattern_onInterest_def ref_pattern_parameters
      counter_fetch_def pattern_new_def uri_lawsD(7) [OF ref_uri_laws, simplified] Let_def)

lemma ref_started_ok: "handle_ok ref_started"
proof -
  obtain s' as where "pattern_onInterest ref_lib ref_platform [] [generic ''r'', generic ''pattern'']
     (ref_pattern_command ''counter'' [''a'']) (pattern_new ref_lib ref_platform) = (s', as)" "handle_ok s'"
    using pattern_onInterest_answers [OF handle_new(1)] by blast
  with ref_started_command(1) show ?thesis by simp
qed

section \<open>Replies\<close>

text \<open>
  A handle whose table and heap agree serves any sequence of pattern and cancel commands
  without an exception, and answers them in order, each with one packet under the command's
  name; table and heap still agree afterwards.
\<close>

theorem pattern_commands_answered:
  fixes E :: "ndn_lib \<times> platform \<times> string"
  assumes "handle_ok s" and "packet_laws (fst E)"
  shows "\<exists>s' as. serve (pattern_command E) cs s = Inr (s', as) \<and> handle_ok s'
    \<and> map dName (sent as) = map (\<lambda>(ep, p, i). iName i) cs"
  using assms by (rule pattern_cmd.serve_answers)

theorem pattern_commands_answered_witness:
  "\<exists>s' as. serve (pattern_command (ref_lib, ref_platform, []))
      [(PatternCommand, [generic ''r'', generic ''pattern''], ref_pattern_command ''counter'' [''a'']),
       (CancelCommand, [generic ''r'', generic ''cancel''], ref_cancel_command [''a''])] (pattern_new ref_lib ref_platform) = Inr (s', as)
    \<and> length (sent as) = 2"
proof -
  let ?cs = "[(PatternCommand, [generic ''r'', generic ''pattern''], ref_pattern_command ''counter'' [''a'']),
       (CancelCommand, [generic ''r'', generic ''cancel''], ref_cancel_command [''a''])]"
  have "packet_laws (fst (ref_lib, ref_platform, []))" by (simp add: ref_packet_laws)
  from pattern_commands_answered [OF handle_new(1) [of ref_lib ref_platform] this, of ?cs]
  obtain s' as where "serve (pattern_command (ref_lib, ref_platform, [])) ?cs (pattern_new ref_lib ref_platform)
      = Inr (s', as)" "map dName (sent as) = map (\<lambda>(ep, p, i). iName i) ?cs"
    by blast
  moreover from this(2) have "length (sent as) = length ?cs" by (metis length_map)
  ultimately show ?thesis by (intro exI [of _ s'] exI [of _ as]) simp
qed

text \<open>
  C34: the status of a pattern command. 403 when the parameter cannot be read or does not hold
  two encoded names; otherwise 402 when the fetch prefix is already active, 404 when the
  factory does not know the pattern, and 100 when the fetch is started: then the prefix is
  active with a new object of the requested kind, and after the calls of its `fetch` the signal
  is emitted once, with the fetch prefix behind the rename prefix, before the reply. A refused
  command changes nothing, and its reply is all it does: no signal is emitted, nothing fetched.
\<close>

theorem pattern_command_reply:
  assumes ok: "handle_ok s" and L: "packet_laws L"
    and run: "pattern_onInterest L X rename p i s = (s', as)"
  shows "\<exists>d r. sent as = [d] \<and> dName d = iName i \<and> decodeResponse L (dContent d) = Some r \<and>
    (case extractParameter L i p of
       Inl _ \<Rightarrow> statusCode r = 403 \<and> s' = s \<and> as = [PutData d]
     | Inr par \<Rightarrow>
        (case decodeNames L (pName par) of
           None \<Rightarrow> statusCode r = 403 \<and> s' = s \<and> as = [PutData d]
         | Some (pat, fp) \<Rightarrow>
             if omap_find (patterns s) fp \<noteq> None then statusCode r = 402 \<and> s' = s \<and> as = [PutData d]
             else case factory_create L (handleFactory s) pat of
                None \<Rightarrow> statusCode r = 404 \<and> s' = s \<and> as = [PutData d]
              | Some obj \<Rightarrow> statusCode r = 100
                  \<and> omap_find (patterns s') = (omap_find (patterns s))(fp \<mapsto> nextAddr s)
                  \<and> omap_find (heap s') (nextAddr s) = Some (fst (pattern_fetch X (nextAddr s) fp obj))
                  \<and> signalled as = [ofUri L rename @ fp]
                  \<and> as = snd (pattern_fetch X (nextAddr s) fp obj) @ [EmitInsertion (ofUri L rename @ fp), PutData d]))"
proof (cases "extractParameter L i p")
  case (Inl ex)
  with run show ?thesis
    by (auto simp: pattern_onInterest_def answer_sel [OF L] status_only_def handler_simps)
next
  case par: (Inr par)
  show ?thesis
  proof (cases "decodeNames L (pName par)")
    case None
    with par run show ?thesis
      by (auto simp: pattern_onInterest_def answer_sel [OF L] status_only_def handler_simps)
  next
    case (Some names)
    obtain pat fp where names: "decodeNames L (pName par) = Some (pat, fp)"
      using Some by (cases names) auto
    note step = run par names
    show ?thesis
    proof (cases "omap_find (patterns s) fp")
      case new: None
      show ?thesis
      proof (cases "factory_create L (handleFactory s) pat")
        case None
        with step new show ?thesis
          by (auto simp: pattern_onInterest_def answer_sel [OF L] status_only_def handler_simps)
      next
        case obj: (Some obj)
        obtain obj' bs where f: "pattern_fetch X (nextAddr s) fp obj = (obj', bs)" by fastforce
        with step new obj fetch_sends_nothing [OF f] show ?thesis
          by (auto simp: pattern_onInterest_def answer_sel [OF L] status_only_def om.find_store Let_def handler_simps)
      qed
    next
      case (Some a)
      with step show ?thesis
        by (auto simp: pattern_onInterest_def answer_sel [OF L] status_only_def handler_simps)
    qed
  qed
qed

theorem pattern_command_reply_witness:
  "\<exists>d r. sent (snd (pattern_onInterest ref_lib ref_platform [] [generic ''r'', generic ''pattern'']
       (ref_pattern_command ''counter'' [''a'']) ref_started)) = [d]
    \<and> decodeResponse ref_lib (dContent d) = Some r \<and> statusCode r = 402
    \<and> signalled (snd (pattern_onInterest ref_lib ref_platform [] [generic ''r'', generic ''pattern'']
       (ref_pattern_command ''counter'' [''a'']) ref_started)) = []"
proof -
  obtain s' as where run: "pattern_onInterest ref_lib ref_platform [] [generic ''r'', generic ''pattern'']
       (ref_pattern_command ''counter'' [''a'']) ref_started = (s', as)" by fastforce
  from pattern_command_reply [OF ref_started_ok ref_packet_laws run] run show ?thesis
    by (auto simp: ref_pattern_parameters ref_started_command)
qed

text \<open>
  C35: the status of a cancel command. 403 when the parameter cannot be read, 402 when its name
  is not an active fetch prefix (although the comment beside it announces 404), and 101 when
  the pattern is cancelled: its entry is gone and its object destroyed, all others are kept.
\<close>

theorem cancel_command_reply:
  assumes ok: "handle_ok s" and L: "packet_laws L"
  shows "\<exists>s' as d r. onCancelRequest L p i s = Inr (s', as) \<and> sent as = [d] \<and> dName d = iName i
    \<and> decodeResponse L (dContent d) = Some r \<and>
    (case extractParameter L i p of
       Inl _ \<Rightarrow> statusCode r = 403 \<and> s' = s
     | Inr par \<Rightarrow>
        (case omap_find (patterns s) (message_name (pName par)) of
           None \<Rightarrow> statusCode r = 402 \<and> s' = s
         | Some a \<Rightarrow> statusCode r = 101 \<and> handle_ok s'
             \<and> omap_find (patterns s') = (omap_find (patterns s))(message_name (pName par) := None)
             \<and> omap_find (heap s') = (omap_find (heap s))(a := None)))"
  using ok
proof (cases rule: cancel_command_cases [where L = L and p = p and i = i])
  case (cancelled par a obj obj' as)
  with cancel_sends_nothing [OF cancelled(4)] handle_ok_erase [OF ok cancelled(2)] show ?thesis
    by (auto simp: answer_sel [OF L] status_only_def om.find_erase)
qed (auto simp: answer_sel [OF L] status_only_def)

theorem cancel_command_reply_witness:
  "\<exists>s' as. onCancelRequest ref_lib [generic ''r'', generic ''cancel''] (ref_cancel_command [''a'']) ref_started
      = Inr (s', as) \<and> omap_find (patterns s') = Map.empty"
  using cancel_command_reply [OF ref_started_ok ref_packet_laws,
      of "[generic ''r'', generic ''cancel'']" "ref_cancel_command [''a'']"]
  by (auto simp: ref_pattern_parameters ref_started_command name_parameter_def message_name_def
      om.find_store)

end
