(* ===== verification/Pattern_Run.thy ===== *)
theory Pattern_Run
  imports Pattern_Properties
begin

text \<open>
  Runs of the pattern handle: commands, timers, packets and timeouts in any order. The calls
  that are pending with the face are part of a run's state, because they hold the raw pointers
  of the pattern objects.
\<close>

section \<open>Pending calls\<close>

datatype pending_call =
    Timer pattern_callback
  | Fetch interest pattern_callback

fun calls :: "pattern_callback action list \<Rightarrow> pending_call list" where
  "calls [] = []"
| "calls (CallLater t cb # as) = Timer cb # calls as"
| "calls (ExpressInterest i cb x # as) = Fetch i cb # calls as"
| "calls (_ # as) = calls as"

lemma calls_append [simp]: "calls (as @ bs) = calls as @ calls bs"
  by (induction as rule: calls.induct) auto

lemma calls_reply [simp]: "calls (negativeReply L i c # as) = calls as"
  by (simp add: handler_simps)

fun address :: "pattern_callback \<Rightarrow> addr" where
  "address (CounterDoFetch a) = a"
| "address (CounterOnData a) = a"

fun call_address :: "pending_call \<Rightarrow> addr" where
  "call_address (Timer cb) = address cb"
| "call_address (Fetch i cb) = address cb"

section \<open>Runs\<close>

text \<open>
  With \<open>cancels\<close> false, no cancel command is served in the run. The storage is shared: a stream
  recorder or the insert handler may store a packet at any time.
\<close>

inductive pattern_run ::
  "'db env \<Rightarrow> platform \<Rightarrow> bool \<Rightarrow> 'db engine \<Rightarrow> pattern_handle \<Rightarrow> 'db engine
     \<Rightarrow> pending_call multiset \<Rightarrow> bool"
  for E :: "'db env" and X :: platform and cancels :: bool and e0 :: "'db engine" where
  start: "pattern_run E X cancels e0 (pattern_new (lib E) X) e0 {#}"
| command: "pattern_run E X cancels e0 s e P \<Longrightarrow>
    pattern_onInterest (lib E) X (getRenamePrefix e) p i s = (s', as) \<Longrightarrow>
    pattern_run E X cancels e0 s' e (P + mset (calls as))"
| cancel: "pattern_run E X cancels e0 s e P \<Longrightarrow> cancels \<Longrightarrow>
    onCancelRequest (lib E) p i s = Inr (s', as) \<Longrightarrow>
    pattern_run E X cancels e0 s' e (P + mset (calls as))"
| timer: "pattern_run E X cancels e0 s e P \<Longrightarrow> Timer cb \<in># P \<Longrightarrow>
    pattern_timer (lib E) cb s = Inr as \<Longrightarrow>
    pattern_run E X cancels e0 s e (P - {#Timer cb#} + mset (calls as))"
| data: "pattern_run E X cancels e0 s e P \<Longrightarrow> Fetch i cb \<in># P \<Longrightarrow> prefix (iName i) (dName d) \<Longrightarrow>
    pattern_data E e cb d s = Inr (s', e', as) \<Longrightarrow>
    pattern_run E X cancels e0 s' e' (P - {#Fetch i cb#} + mset (calls as))"
| timeout: "pattern_run E X cancels e0 s e P \<Longrightarrow> Fetch i cb \<in># P \<Longrightarrow>
    pattern_run E X cancels e0 s e (P - {#Fetch i cb#})"
| shared: "pattern_run E X cancels e0 s e P \<Longrightarrow> se_put E e d = Inr (e', n, g) \<Longrightarrow>
    pattern_run E X cancels e0 s e' P"

section \<open>The invariant without cancel commands\<close>

text \<open>A counter pattern that still has something to do.\<close>

definition counting :: "(addr, pattern_object) omap \<Rightarrow> addr \<Rightarrow> bool" where
  "counting h a \<longleftrightarrow> (\<exists>c k. omap_find h a = Some (CounterObject c) \<and> running c
     \<and> counter c = Some (int k) \<and> k < 10)"

fun call_ok :: "(addr, pattern_object) omap \<Rightarrow> pending_call \<Rightarrow> bool" where
  "call_ok h (Timer (CounterDoFetch a)) \<longleftrightarrow> counting h a"
| "call_ok h (Fetch i (CounterOnData a)) \<longleftrightarrow> counting h a"
| "call_ok h _ \<longleftrightarrow> False"

definition no_cancel_ok :: "'db env \<Rightarrow> pattern_handle \<Rightarrow> 'db engine \<Rightarrow> pending_call multiset \<Rightarrow> bool" where
  "no_cancel_ok E s e P \<longleftrightarrow> engine_ok E e \<and> handle_ok s
     \<and> (\<forall>x. x \<in># P \<longrightarrow> call_ok (heap s) x) \<and> (\<forall>a. count (image_mset call_address P) a \<le> 1)"

lemma call_ok_alive: "call_ok h x \<Longrightarrow> \<exists>obj. omap_find h (call_address x) = Some obj"
  by (induction h x rule: call_ok.induct) (auto simp: counting_def)

lemma call_ok_other: "call_address x \<noteq> a \<Longrightarrow> call_ok (omap_store a obj h) x \<longleftrightarrow> call_ok h x"
  by (induction h x rule: call_ok.induct) (auto simp: counting_def om.find_store)

lemma fetch_calls:
  assumes "pattern_fetch X a p (new_pattern k) = (obj, as)"
  shows "(calls as = [] \<or> calls as = [Timer (CounterDoFetch a)] \<and> counting (omap_store a obj h) a)"
  using assms by (cases k)
    (auto simp: counter_fetch_def ndnrtc_fetch_def gobj_fetch_def counting_def split: option.splits)

text \<open>The pending call at an address is the only one there.\<close>

lemma count_one_other:
  assumes "\<forall>a. count (image_mset f P) a \<le> 1" and "x \<in># P" and "y \<in># P - {#x#}"
  shows "f y \<noteq> f x"
proof
  assume eq: "f y = f x"
  obtain Q where P: "P = add_mset x Q" using assms(2) by (metis mset_add)
  with assms(3) have "y \<in># Q" by simp
  then obtain R where "Q = add_mset y R" by (metis mset_add)
  with P eq have "count (image_mset f P) (f x) \<ge> 2" by simp
  moreover have "count (image_mset f P) (f x) \<le> 1" using assms(1) by blast
  ultimately show False by linarith
qed

lemma count_one_fewer:
  "\<forall>a. count (image_mset f P) a \<le> 1 \<Longrightarrow> \<forall>a. count (image_mset f (P - {#x#})) a \<le> 1"
  by (meson diff_subset_eq_self image_mset_subseteq_mono le_trans mset_subset_eq_count)

lemma count_one_replaced:
  assumes "\<forall>a. count (image_mset f P) a \<le> 1" and "x \<in># P" and "f y = f x"
  shows "\<forall>a. count (image_mset f (P - {#x#} + {#y#})) a \<le> 1"
proof -
  have "image_mset f (P - {#x#} + {#y#}) = image_mset f P"
    using assms(2,3) by (simp add: image_mset_Diff)
  with assms(1) show ?thesis by simp
qed

lemma timer_effect:
  assumes "call_ok (heap s) (Timer cb)"
  obtains a c k where "cb = CounterDoFetch a" "counting (heap s) a"
    "omap_find (heap s) a = Some (CounterObject c)"
    "pattern_timer L cb s = Inr [ExpressInterest (counter_interest L (fetchPrefix c) (int k))
       (CounterOnData a) None]"
proof -
  from assms obtain a where cb: "cb = CounterDoFetch a" "counting (heap s) a"
    by (cases cb) auto
  then obtain c k where "omap_find (heap s) a = Some (CounterObject c)" "running c"
    "counter c = Some (int k)"
    by (auto simp: counting_def)
  with cb show thesis
    by (intro that [of a c k]) (simp_all add: pattern_timer_def counter_doFetch_def)
qed

lemma data_effect:
  assumes "call_ok (heap s) (Fetch i cb)" and eng: "engine_ok E e"
  obtains a c c' e' n as where "cb = CounterOnData a" "omap_find (heap s) a = Some (CounterObject c)"
    "se_put E e d = Inr (e', n, dName d)"
    "pattern_data E e cb d s = Inr (s\<lparr>heap := omap_store a (CounterObject c') (heap s)\<rparr>, e', as)"
    "fetchPrefix c' = fetchPrefix c"
    "calls as = [] \<or> calls as = [Timer (CounterDoFetch a)]
       \<and> counting (omap_store a (CounterObject c') (heap s)) a"
proof -
  from assms(1) obtain a where cb: "cb = CounterOnData a" and "counting (heap s) a"
    by (cases cb) auto
  then obtain c k where c: "omap_find (heap s) a = Some (CounterObject c)" "running c"
    "counter c = Some (int k)" "k < 10"
    by (auto simp: counting_def)
  obtain e' n where p: "se_put E e d = Inr (e', n, dName d)"
    using se.put_returns [OF eng] by blast
  show thesis
  proof (cases "k + 1 < 10")
    case True
    let ?c = "c\<lparr>counter := Some (int (k + 1))\<rparr>"
    have "counting (omap_store a (CounterObject ?c) (heap s)) a"
      using c True unfolding counting_def by (intro exI [of _ ?c] exI [of _ "k + 1"]) simp
    with True c p cb show thesis
      by (intro that [of a c e' n ?c "[CallLater 2000 (CounterDoFetch a)]"])
        (auto simp: pattern_data_def counter_onData_def add.commute)
  next
    case False
    with c p cb show thesis
      by (intro that [of a c e' n "c\<lparr>counter := Some (int k + 1), running := False\<rparr>" "[]"])
        (auto simp: pattern_data_def counter_onData_def)
  qed
qed

text \<open>Each step keeps the invariant.\<close>

lemma no_cancel_command:
  assumes ok: "no_cancel_ok E s e P"
    and step: "pattern_onInterest (lib E) X (getRenamePrefix e) p i s = (s', as)"
  shows "no_cancel_ok E s' e (P + mset (calls as))"
proof (cases rule: pattern_command_cases [where L = "lib E" and X = X and rename = "getRenamePrefix e"
      and p = p and i = i and s = s])
  case (refused code)
  with step ok show ?thesis by (auto simp: handler_simps)
next
  case (started par pat fp obj obj' bs)
  let ?a = "nextAddr s" and ?h = "omap_store (nextAddr s) obj' (heap s)"
  have s': "heap s' = ?h" "calls as = calls bs" "handle_ok s'"
    using started(6) step handle_ok_start [OF _ started(3)] ok
    by (auto simp: no_cancel_ok_def)
  obtain k where "obj = new_pattern k"
    using started(4) by (auto simp: factory_create_def)
  then have new: "calls bs = [] \<or> calls bs = [Timer (CounterDoFetch ?a)] \<and> counting ?h ?a"
    using fetch_calls started(5) by blast
  have old: "call_address x < ?a" if "x \<in># P" for x
    using that ok call_ok_alive handle_object(1) unfolding no_cancel_ok_def by metis
  then have "?a \<notin> call_address ` set_mset P" by (metis imageE less_irrefl)
  then have "count (image_mset call_address P) ?a = 0" by (simp add: count_eq_zero_iff)
  moreover have "call_ok ?h x" if "x \<in># P" for x
    using ok that call_ok_other [of x ?a] old [OF that] by (simp add: no_cancel_ok_def)
  ultimately show ?thesis
    using ok s' new by (auto simp: no_cancel_ok_def)
qed

lemma no_cancel_timer:
  assumes ok: "no_cancel_ok E s e P" and pend: "Timer cb \<in># P"
    and step: "pattern_timer (lib E) cb s = Inr as"
  shows "no_cancel_ok E s e (P - {#Timer cb#} + mset (calls as))"
proof -
  from ok have "call_ok (heap s) (Timer cb)" using pend by (simp add: no_cancel_ok_def)
  then obtain a k and c :: counter_pattern where cb: "cb = CounterDoFetch a" "counting (heap s) a"
    "pattern_timer (lib E) cb s = Inr [ExpressInterest (counter_interest (lib E) (fetchPrefix c) (int k))
       (CounterOnData a) None]"
    by (rule timer_effect [where L = "lib E"])
  with step have as: "calls as = [Fetch (counter_interest (lib E) (fetchPrefix c) (int k)) (CounterOnData a)]"
    by auto
  let ?y = "Fetch (counter_interest (lib E) (fetchPrefix c) (int k)) (CounterOnData a)"
  have "\<forall>a. count (image_mset call_address (P - {#Timer cb#} + {#?y#})) a \<le> 1"
    by (rule count_one_replaced) (use ok pend cb(1) in \<open>simp_all add: no_cancel_ok_def\<close>)
  moreover have "call_ok (heap s) x" if "x \<in># P - {#Timer cb#} + {#?y#}" for x
    using that ok cb(2) by (auto simp: no_cancel_ok_def dest: in_diffD)
  moreover have "mset (calls as) = {#?y#}" by (simp add: as)
  ultimately show ?thesis using ok by (simp only: no_cancel_ok_def) blast
qed

lemma no_cancel_data:
  assumes ok: "no_cancel_ok E s e P" and pend: "Fetch i cb \<in># P"
    and step: "pattern_data E e cb d s = Inr (s', e', as)"
  shows "no_cancel_ok E s' e' (P - {#Fetch i cb#} + mset (calls as))"
proof -
  from ok have call: "call_ok (heap s) (Fetch i cb)" and eng: "engine_ok E e"
    using pend by (simp_all add: no_cancel_ok_def)
  from call eng obtain a c c' e1 n bs where cb: "cb = CounterOnData a"
    "omap_find (heap s) a = Some (CounterObject c)" "se_put E e d = Inr (e1, n, dName d)"
    "pattern_data E e cb d s = Inr (s\<lparr>heap := omap_store a (CounterObject c') (heap s)\<rparr>, e1, bs)"
    "calls bs = [] \<or> calls bs = [Timer (CounterDoFetch a)]
       \<and> counting (omap_store a (CounterObject c') (heap s)) a"
    by (rule data_effect [where E = E and d = d])
  let ?h = "omap_store a (CounterObject c') (heap s)"
  have one: "\<forall>a. count (image_mset call_address P) a \<le> 1"
    using ok by (simp add: no_cancel_ok_def)
  have others: "call_ok ?h x" if "x \<in># P - {#Fetch i cb#}" for x
    using count_one_other [OF one pend that] ok in_diffD [OF that] cb(1)
    by (simp add: call_ok_other no_cancel_ok_def)
  have next_state: "s' = s\<lparr>heap := ?h\<rparr>" "e' = e1" "as = bs"
    using cb(4) step by simp_all
  have base: "engine_ok E e1" "handle_ok (s\<lparr>heap := ?h\<rparr>)"
    using se.put_inv [OF eng cb(3)] handle_ok_update [OF _ cb(2)] ok
    by (simp_all add: no_cancel_ok_def)
  from cb(5) show ?thesis
  proof
    assume "calls bs = []"
    with next_state base others count_one_fewer [OF one] show ?thesis
      by (simp add: no_cancel_ok_def)
  next
    let ?y = "Timer (CounterDoFetch a)"
    assume bs: "calls bs = [?y] \<and> counting ?h a"
    have "\<forall>a. count (image_mset call_address (P - {#Fetch i cb#} + {#?y#})) a \<le> 1"
      by (rule count_one_replaced [OF one pend]) (simp add: cb(1))
    moreover have "call_ok ?h x" if "x \<in># P - {#Fetch i cb#} + {#?y#}" for x
      using that others bs by auto
    moreover have "mset (calls as) = {#?y#}" by (simp add: next_state bs)
    ultimately show ?thesis using base unfolding no_cancel_ok_def next_state(1,2) by simp
  qed
qed

lemma no_cancel_removed:
  "no_cancel_ok E s e P \<Longrightarrow> no_cancel_ok E s e (P - {#x#})"
  using count_one_fewer [of call_address P x] by (auto simp: no_cancel_ok_def dest: in_diffD)

lemma no_cancel_new: "engine_ok E e \<Longrightarrow> no_cancel_ok E (pattern_new L X) e {#}"
  by (simp add: no_cancel_ok_def handle_new)

lemma no_cancel_engine: "no_cancel_ok E s e P \<Longrightarrow> engine_ok E e' \<Longrightarrow> no_cancel_ok E s e' P"
  by (simp add: no_cancel_ok_def)

theorem no_cancel_invariant:
  assumes "pattern_run E X False e0 s e P" and "engine_ok E e0"
  shows "no_cancel_ok E s e P"
  using assms
proof (induction rule: pattern_run.induct)
  case (shared s e P d e' n g)
  then show ?case using no_cancel_engine se.put_inv by (metis no_cancel_ok_def)
qed (blast intro: no_cancel_new no_cancel_command no_cancel_timer no_cancel_data no_cancel_removed)+

text \<open>So what is pending is handled.\<close>

lemma no_cancel_timer_returns:
  assumes "no_cancel_ok E s e P" and "Timer cb \<in># P"
  shows "is_ok (pattern_timer (lib E) cb s)"
proof -
  have "call_ok (heap s) (Timer cb)" using assms by (simp add: no_cancel_ok_def)
  then show ?thesis by (rule timer_effect [where L = "lib E"]) simp
qed

lemma no_cancel_data_returns:
  assumes "no_cancel_ok E s e P" and "Fetch i cb \<in># P"
  shows "is_ok (pattern_data E e cb d s)"
proof -
  have "call_ok (heap s) (Fetch i cb)" "engine_ok E e" using assms by (simp_all add: no_cancel_ok_def)
  then show ?thesis by (rule data_effect [where E = E and e = e and d = d]) simp
qed

section \<open>Safety of the callbacks\<close>

text \<open>
  In a run without cancel commands every callback the face may still make is safe: a
  pending timer and a pending packet, whatever it holds, are handled without an exception and
  without following a dangling pointer, and no pattern object has more than one call pending.
\<close>

theorem pattern_callbacks_safe:
  assumes "pattern_run E X False e0 s e P" and "engine_ok E e0"
  shows "(\<forall>cb. Timer cb \<in># P \<longrightarrow> is_ok (pattern_timer (lib E) cb s))
    \<and> (\<forall>i cb d. Fetch i cb \<in># P \<longrightarrow> is_ok (pattern_data E e cb d s))
    \<and> (\<forall>a. count (image_mset call_address P) a \<le> 1)"
proof -
  note ok = no_cancel_invariant [OF assms]
  show ?thesis
    using no_cancel_timer_returns [OF ok] no_cancel_data_returns [OF ok] ok by (auto simp: no_cancel_ok_def)
qed

lemma ref_pattern_run:
  "pattern_run ref_env ref_platform cancels (ref_open []) ref_started (ref_open [])
     {#Timer (CounterDoFetch 0)#}"
proof -
  have "pattern_onInterest (lib ref_env) ref_platform (getRenamePrefix (ref_open []))
      [generic ''r'', generic ''pattern''] (ref_pattern_command ''counter'' [''a'']) (pattern_new (lib ref_env) ref_platform)
    = (ref_started, [CallLater 1 (CounterDoFetch 0), EmitInsertion [generic ''a''],
        negativeReply ref_lib (ref_pattern_command ''counter'' [''a'']) 100])"
    using ref_started_command(1) by (simp add: getRenamePrefix_def ref_open_def)
  from pattern_run.command [OF pattern_run.start this] show ?thesis by simp
qed

theorem pattern_callbacks_safe_witness:
  "is_ok (pattern_timer ref_lib (CounterDoFetch 0) ref_started)"
  using pattern_callbacks_safe [OF ref_pattern_run ref_open_ok] by simp

text \<open>
  C15: cancelling is not safe. The timer of a counter pattern stays with the face when the
  pattern is cancelled, and the command destroys the object: the command is accepted, the
  timer is still pending in the run, and when it fires it follows a dangling pointer.
\<close>

theorem cancel_leaves_dangling_timer:
  assumes "pattern_run E X True e0 s e P" and "Timer (CounterDoFetch a) \<in># P"
    and "omap_find (heap s) a = Some (CounterObject c)" and "handle_ok s"
    and "extractParameter (lib E) i p = Inr par"
    and "omap_find (patterns s) (message_name (pName par)) = Some a"
  shows "\<exists>s' as. onCancelRequest (lib E) p i s = Inr (s', as)
    \<and> pattern_run E X True e0 s' e (P + mset (calls as)) \<and> Timer (CounterDoFetch a) \<in># P + mset (calls as)
    \<and> pattern_timer (lib E) (CounterDoFetch a) s' = Inl (UndefinedBehaviour ''use after free'')"
  using assms(4)
proof (cases rule: cancel_command_cases [where L = "lib E" and p = p and i = i])
  case (cancelled par' b obj obj' as)
  with assms(5,6) have "b = a" by simp
  let ?s = "s\<lparr>patterns := omap_erase (message_name (pName par')) (patterns s), heap := omap_erase b (heap s)\<rparr>"
  have "pattern_timer (lib E) (CounterDoFetch a) ?s = Inl (UndefinedBehaviour ''use after free'')"
    using \<open>b = a\<close> by (simp add: pattern_timer_def)
  with pattern_run.cancel [OF assms(1) _ cancelled(5)] cancelled(5) assms(2) show ?thesis
    by (intro exI [of _ ?s] exI [of _ "as @ [negativeReply (lib E) i 101]"]) auto
qed (use assms in auto)

theorem cancel_leaves_dangling_timer_witness:
  "\<exists>s' as. onCancelRequest ref_lib [generic ''r'', generic ''cancel''] (ref_cancel_command [''a'']) ref_started
      = Inr (s', as)
    \<and> pattern_timer ref_lib (CounterDoFetch 0) s' = Inl (UndefinedBehaviour ''use after free'')"
proof -
  have "omap_find (heap ref_started) 0 = Some (CounterObject (fst (counter_fetch 0 [generic ''a''] counter_new)))"
    "omap_find (patterns ref_started) (message_name (pName (name_parameter [''a'']))) = Some 0"
    by (simp_all add: ref_started_command name_parameter_def message_name_def)
  from cancel_leaves_dangling_timer [OF ref_pattern_run _ this(1) ref_started_ok _ this(2)]
    ref_pattern_parameters(2) [of "[''a'']"]
  show ?thesis by fastforce
qed

section \<open>Ownership\<close>

lemma pattern_run_owned:
  "pattern_run E X cancels e0 s e P \<Longrightarrow> handle_ok s"
proof (induction rule: pattern_run.induct)
  case start
  show ?case by (rule handle_new)
next
  case (command s e P p i s' as)
  then show ?case
    using pattern_onInterest_answers [of s "lib E" X "getRenamePrefix e" p i] by auto
next
  case (cancel s e P p i s' as)
  then show ?case
    using onCancelRequest_answers [of s "lib E" p i] by auto
next
  case (data s e P i cb d s' e' as)
  then show ?case
    by (auto simp: pattern_data_def handle_ok_update
        split: pattern_callback.splits option.splits pattern_object.splits sum.splits)
qed

text \<open>
  C16: table and heap of the pattern handle agree in every run, cancel commands included: an
  active prefix refers to a living object, and a living object belongs to exactly one active
  prefix. So the table itself never dangles, and no object outlives its entry.
\<close>

theorem pattern_heap_owned:
  assumes "pattern_run E X cancels e0 s e P"
  shows "(\<forall>n a. omap_find (patterns s) n = Some a \<longrightarrow> omap_find (heap s) a \<noteq> None)
    \<and> (\<forall>a. omap_find (heap s) a \<noteq> None \<longrightarrow> (\<exists>!n. omap_find (patterns s) n = Some a))"
proof -
  have ok: "handle_ok s" using assms by (rule pattern_run_owned)
  have "\<exists>!n. omap_find (patterns s) n = Some a" if "omap_find (heap s) a = Some obj" for a obj
    using handle_object(2) [OF ok that] handle_distinct [OF ok] by blast
  with handle_entry [OF ok] show ?thesis by fastforce
qed

theorem pattern_heap_owned_witness:
  "\<exists>n. omap_find (patterns ref_started) n = Some 0 \<and> n = [generic ''a'']"
proof -
  have "omap_find (heap ref_started) 0 \<noteq> None" by (simp add: ref_started_command)
  with pattern_heap_owned [OF ref_pattern_run] have "\<exists>!n. omap_find (patterns ref_started) n = Some 0" by blast
  moreover have "omap_find (patterns ref_started) [generic ''a''] = Some 0" by (simp add: ref_started_command)
  ultimately show ?thesis by blast
qed

end
