(* ===== verification/Status_Handle.thy ===== *)
theory Status_Handle
  imports Pattern_Run
begin

text \<open>
  \<open>status-handle.cpp\<close>: the status document, published on demand under the name
  \<open>prefix/status\<close>. The namespace tree and the versioned object are library matters; the model
  keeps which namespace object is the current one (the number of the call of \<open>listen\<close> that
  made it, and its name) and the sources that are polled.
\<close>

section \<open>State and operations\<close>

datatype status_source = RepoStatus | PatternStatus

record status_handle =
  statusNamespace :: "(nat \<times> name) option"
  namespaceCount :: nat
  statusReportSources :: "status_source list"

definition status_new :: status_handle where
  "status_new = \<lparr>statusNamespace = None, namespaceCount = 0, statusReportSources = []\<rparr>"

text \<open>\<open>listen\<close> replaces the namespace of an earlier call.\<close>

definition status_listen :: "name \<Rightarrow> status_handle \<Rightarrow> status_handle \<times> 'cb action list" where
  "status_listen p s =
     (let n = p @ [generic ''status'']
      in (s\<lparr>statusNamespace := Some (namespaceCount s, n), namespaceCount := Suc (namespaceCount s)\<rparr>,
          [RegisterPrefix n (StatusInterest (namespaceCount s)) StatusRegisterFailed]))"

definition addStatusReportSource :: "status_source \<Rightarrow> status_handle \<Rightarrow> status_handle" where
  "addStatusReportSource src s = s\<lparr>statusReportSources := statusReportSources s @ [src]\<rparr>"

text \<open>
  The loop over the sources. A \<open>std::runtime_error\<close> is caught and the loop goes on; the JSON
  library's exceptions are not \<open>runtime_error\<close>s.
\<close>

fun status_loop :: "json_lib \<Rightarrow> (status_source \<Rightarrow> (string \<times> string) result)
    \<Rightarrow> status_source list \<Rightarrow> json \<Rightarrow> json result" where
  "status_loop J poll [] status = Inr status"
| "status_loop J poll (src # srcs) status =
     (case (case poll src of
              Inl ex \<Rightarrow> Inl ex
            | Inr (module, report) \<Rightarrow>
                (case json_parse J report of
                   Inl ex \<Rightarrow> Inl ex
                 | Inr j \<Rightarrow> json_at module (json_assign j) status)) of
        Inl (RuntimeError _) \<Rightarrow> status_loop J poll srcs status
      | Inl ex \<Rightarrow> Inl ex
      | Inr status' \<Rightarrow> status_loop J poll srcs status')"

definition publishStatus ::
  "json_lib \<Rightarrow> (status_source \<Rightarrow> (string \<times> string) result) \<Rightarrow> status_handle \<Rightarrow> string result" where
  "publishStatus J poll s =
     (case status_loop J poll (statusReportSources s) JNull of
        Inl ex \<Rightarrow> Inl ex
      | Inr status \<Rightarrow> json_dump J status)"

text \<open>
  The callback of a namespace, called with the namespace an interest asks for: \<open>None\<close> is the
  return value \<open>false\<close>, otherwise the object that is published.
\<close>

definition onObjectNeeded ::
  "json_lib \<Rightarrow> (status_source \<Rightarrow> (string \<times> string) result) \<Rightarrow> nat \<times> name \<Rightarrow> status_handle
     \<Rightarrow> string option result" where
  "onObjectNeeded J poll needed s =
     (if Some needed \<noteq> statusNamespace s then Inr None
      else case publishStatus J poll s of Inl ex \<Rightarrow> Inl ex | Inr doc \<Rightarrow> Inr (Some doc))"

section \<open>What is published\<close>

text \<open>The modules and documents the sources deliver.\<close>

fun delivered :: "json_lib \<Rightarrow> (status_source \<Rightarrow> (string \<times> string) result)
    \<Rightarrow> status_source list \<Rightarrow> (string \<times> json) list" where
  "delivered J poll [] = []"
| "delivered J poll (src # srcs) =
     (case poll src of
        Inl _ \<Rightarrow> delivered J poll srcs
      | Inr (module, report) \<Rightarrow>
          (case jParse J report of
             None \<Rightarrow> delivered J poll srcs
           | Some j \<Rightarrow> (module, j) # delivered J poll srcs))"

text \<open>A source that works, or fails in the way that is caught.\<close>

definition source_ok :: "json_lib \<Rightarrow> (status_source \<Rightarrow> (string \<times> string) result)
    \<Rightarrow> status_source \<Rightarrow> bool" where
  "source_ok J poll src \<longleftrightarrow>
     (case poll src of
        Inl ex \<Rightarrow> (case ex of RuntimeError _ \<Rightarrow> True | _ \<Rightarrow> False)
      | Inr (module, report) \<Rightarrow> jParse J report \<noteq> None)"

definition as_object :: "(string \<times> json) list \<Rightarrow> json" where
  "as_object es = (if es = [] then JNull else JObject es)"

lemma json_at_object: "json_at k (json_assign v) (as_object es) = Inr (as_object (put_entry k v es))"
  by (cases es) (auto simp: as_object_def)

lemma status_loop_step:
  assumes "source_ok J poll src" and "sorted_keys es"
  obtains es' where "sorted_keys es'"
    "status_loop J poll (src # srcs) (as_object es) = status_loop J poll srcs (as_object es')"
    "map_of es' = map_of es ++ map_of (delivered J poll [src])"
proof (cases "poll src")
  case (Inl ex)
  with assms show thesis
    by (intro that [of es]) (auto simp: source_ok_def split: exn.splits)
next
  case (Inr r)
  then obtain m report j where "poll src = Inr (m, report)" "jParse J report = Some j"
    using assms(1) by (cases r) (auto simp: source_ok_def)
  then show thesis using assms(2)
    by (intro that [of "put_entry m j es"])
      (simp_all add: json_parse_def json_at_object put_entry_sorted put_entry_map_of)
qed

lemma delivered_Cons: "delivered J poll (src # srcs) = delivered J poll [src] @ delivered J poll srcs"
  by (auto split: sum.splits option.splits)

lemma status_loop_delivers:
  assumes "\<forall>src \<in> set srcs. source_ok J poll src" and "sorted_keys es"
  shows "\<exists>es'. status_loop J poll srcs (as_object es) = Inr (as_object es') \<and> sorted_keys es'
     \<and> map_of es' = map_of es ++ map_of (rev (delivered J poll srcs))"
  using assms
proof (induction srcs arbitrary: es)
  case Nil
  then show ?case by auto
next
  case (Cons src srcs)
  from Cons.prems have src: "source_ok J poll src" by simp
  from src Cons.prems(2) obtain es' where st: "sorted_keys es'"
    "status_loop J poll (src # srcs) (as_object es) = status_loop J poll srcs (as_object es')"
    "map_of es' = map_of es ++ map_of (delivered J poll [src])"
    by (rule status_loop_step [where srcs = srcs])
  have one: "map_of (delivered J poll [src]) = map_of (rev (delivered J poll [src]))"
    by (auto split: sum.splits option.splits)
  obtain es'' where tl: "status_loop J poll srcs (as_object es') = Inr (as_object es'')" "sorted_keys es''"
    "map_of es'' = map_of es' ++ map_of (rev (delivered J poll srcs))"
    using Cons.IH [OF _ st(1)] Cons.prems(1) by auto
  have "map_of es'' = map_of es ++ map_of (rev (delivered J poll (src # srcs)))"
    unfolding delivered_Cons [of J poll src srcs] rev_append map_of_append tl(3) st(3) one map_add_assoc
    by (rule refl)
  with tl(1,2) st(2) show ?case by metis
qed

text \<open>
  When every source either delivers JSON or fails with a runtime error, the status is
  published: it is the printed object that has, for every module, the document the last
  source of that module delivered, and no other key; sources that fail are left out.
\<close>

theorem status_collects:
  assumes "\<forall>src \<in> set (statusReportSources s). source_ok J poll src"
  shows "\<exists>es. publishStatus J poll s = json_dump J (if es = [] then JNull else JObject es)
    \<and> sorted_keys es \<and> map_of es = map_of (rev (delivered J poll (statusReportSources s)))"
proof -
  obtain es where "status_loop J poll (statusReportSources s) (as_object []) = Inr (as_object es)"
    "sorted_keys es" "map_of es = map_of [] ++ map_of (rev (delivered J poll (statusReportSources s)))"
    using status_loop_delivers [OF assms, of "[]"] by auto
  then show ?thesis
    by (intro exI [of _ es]) (simp add: publishStatus_def as_object_def)
qed

theorem status_collects_witness:
  "\<exists>es. publishStatus ref_json (\<lambda>src. if src = RepoStatus then Inr (''repo'', ref_dump (JInt 7))
        else Inl (RuntimeError ''down''))
      (addStatusReportSource PatternStatus (addStatusReportSource RepoStatus status_new))
    = json_dump ref_json (if es = [] then JNull else JObject es) \<and> map_of es = [''repo'' \<mapsto> JInt 7]"
proof -
  let ?poll = "\<lambda>src. if src = RepoStatus then Inr (''repo'', ref_dump (JInt 7)) else Inl (RuntimeError ''down'')"
  let ?s = "addStatusReportSource PatternStatus (addStatusReportSource RepoStatus status_new)"
  have parse: "jParse ref_json (ref_dump (JInt 7)) = Some (JInt 7)"
    using ref_json_laws by (simp add: json_laws_def ref_json_def)
  have "\<forall>src \<in> set (statusReportSources ?s). source_ok ref_json ?poll src"
    using parse by (simp add: source_ok_def addStatusReportSource_def status_new_def)
  moreover have "delivered ref_json ?poll (statusReportSources ?s) = [(''repo'', JInt 7)]"
    using parse by (simp add: addStatusReportSource_def status_new_def)
  ultimately show ?thesis
    using status_collects [of ?s ref_json ?poll] by auto
qed

section \<open>The report of the pattern handle\<close>

lemma json_pushes_single:
  "json_do (map (\<lambda>n. json_at k (json_push_back (f n))) ns) (JObject [(k, JArray ws)])
     = Inr (JObject [(k, JArray (ws @ map f ns))])"
  by (induction ns arbitrary: ws) (simp_all add: json_at_def json_push_back_def)

lemma supported_status:
  "json_do (map (\<lambda>n. json_at k (json_push_back (f n))) ns) JNull
     = Inr (if ns = [] then JNull else JObject [(k, JArray (map f ns))])"
  by (cases ns) (simp_all add: json_at_def json_push_back_def json_pushes_single)

text \<open>
  With no pattern active, the report of the pattern handle is the printed object that
  lists the URIs of the patterns the factory supports; \<open>counter\<close> is one of them.
\<close>

theorem pattern_report_idle:
  assumes "json_laws (jsonLib X)" and "patterns s = omap_empty"
    and "handleFactory s = patternFactory L X"
    and "pattern_statusReport L X s = Inr (module, report)"
  shows "module = ''pattern-handle'' \<and> (\<exists>uris. jParse (jsonLib X) report
      = Some (JObject [(''supported'', JArray (map JString uris))])
    \<and> toUri L (getPatternKeyword L X Counter) \<in> set uris)"
proof -
  let ?ns = "getSupportedPatterns (patternFactory L X)"
  have c: "getPatternKeyword L X Counter \<in> set ?ns" by (rule counter_supported)
  then have "?ns \<noteq> []" by auto
  with assms(2,3,4) have rep: "module = ''pattern-handle''"
    "jDump (jsonLib X) (JObject [(''supported'', JArray (map (\<lambda>n. JString (toUri L n)) ?ns))]) = Some report"
    by (simp_all add: pattern_statusReport_def supported_status json_dump_def split: option.splits)
  with assms(1) have "jParse (jsonLib X) report
      = Some (JObject [(''supported'', JArray (map JString (map (toUri L) ?ns)))])"
    by (simp add: json_laws_def o_def)
  moreover have "toUri L (getPatternKeyword L X Counter) \<in> set (map (toUri L) ?ns)"
    using c by simp
  ultimately show ?thesis using rep(1) by blast
qed

theorem pattern_report_idle_witness:
  "\<exists>report uris. pattern_statusReport ref_lib ref_platform (pattern_new ref_lib ref_platform)
      = Inr (''pattern-handle'', report)
    \<and> jParse ref_json report = Some (JObject [(''supported'', JArray (map JString uris))])"
proof -
  have laws: "json_laws (jsonLib ref_platform)" by (simp add: ref_platform_def ref_json_laws)
  have fac: "handleFactory (pattern_new ref_lib ref_platform) = patternFactory ref_lib ref_platform"
    by (simp add: pattern_new_def factory_getInstance_def Let_def)
  obtain report where rep: "pattern_statusReport ref_lib ref_platform (pattern_new ref_lib ref_platform)
      = Inr (''pattern-handle'', report)"
    by (auto simp: pattern_statusReport_def supported_status json_dump_def handle_new ref_platform_def ref_json_def)
  from pattern_report_idle [OF laws handle_new(2) fac rep] rep show ?thesis
    by (auto simp: ref_platform_def)
qed

text \<open>The text a counter pattern reports is not JSON.\<close>

lemma counter_report_rejected:
  "json_laws J \<Longrightarrow> counter_status c = Inr report \<Longrightarrow> json_parse J report = Inl (JsonException ''parse_error.101'')"
  by (auto simp: counter_status_def json_parse_def json_laws_def split: option.splits)

lemma counters_break_report:
  assumes "json_laws (jsonLib X)" and "handle_ok s" and "patterns s \<noteq> omap_empty"
    and "\<forall>a obj. omap_find (heap s) a = Some obj \<longrightarrow> (\<exists>c k. obj = CounterObject c \<and> counter c = Some k)"
  shows "pattern_statusReport L X s = Inl (JsonException ''parse_error.101'')"
proof -
  obtain n a it where it: "entries (patterns s) = (n, a) # it"
    using assms(3) by (cases "entries (patterns s)") (auto simp: omap_eq_iff)
  then have "omap_find (patterns s) n = Some a" by (simp add: omap_find_entries)
  then obtain obj where obj: "omap_find (heap s) a = Some obj"
    using handle_entry [OF assms(2)] by blast
  then obtain c k where c: "obj = CounterObject c" "counter c = Some k"
    using assms(4) by blast
  then obtain report where "counter_status c = Inr report" by (simp add: counter_status_def)
  with it obj c counter_report_rejected [OF assms(1) this] show ?thesis
    by (simp add: pattern_statusReport_def supported_status)
qed

text \<open>
  C39: while the active patterns are counter patterns the status cannot be published. The text
  a counter pattern reports is not JSON, the parse error is not a \<open>runtime_error\<close>, so the
  handler in the loop does not catch it: the exception leaves \<open>publishStatus\<close>, whatever the
  sources before the pattern handle delivered.
\<close>

theorem counter_breaks_status:
  assumes "json_laws (jsonLib X)" and "handle_ok s" and "patterns s \<noteq> omap_empty"
    and "\<forall>a obj. omap_find (heap s) a = Some obj \<longrightarrow> (\<exists>c k. obj = CounterObject c \<and> counter c = Some k)"
    and "statusReportSources st = pre @ PatternStatus # post"
    and "\<forall>src \<in> set pre. source_ok (jsonLib X) poll src"
    and "poll PatternStatus = pattern_statusReport L X s"
  shows "publishStatus (jsonLib X) poll st = Inl (JsonException ''parse_error.101'')"
proof -
  have rep: "poll PatternStatus = Inl (JsonException ''parse_error.101'')"
    using counters_break_report [OF assms(1-4)] assms(7) by simp
  have split: "status_loop J poll (xs @ ys) j
      = (case status_loop J poll xs j of Inl ex \<Rightarrow> Inl ex | Inr j' \<Rightarrow> status_loop J poll ys j')" for J xs ys j
    by (induction xs arbitrary: j) (auto split: sum.split exn.split)
  obtain es where "status_loop (jsonLib X) poll pre (as_object []) = Inr (as_object es)"
    using status_loop_delivers [OF assms(6), of "[]"] by auto
  then have "status_loop (jsonLib X) poll pre JNull = Inr (as_object es)"
    by (simp add: as_object_def)
  with rep show ?thesis by (simp add: publishStatus_def assms(5) split)
qed

theorem counter_breaks_status_witness:
  "publishStatus ref_json (\<lambda>src. if src = PatternStatus then pattern_statusReport ref_lib ref_platform ref_started
       else Inr (''repo'', ref_dump JNull))
     (addStatusReportSource PatternStatus (addStatusReportSource RepoStatus status_new))
   = Inl (JsonException ''parse_error.101'')"
proof -
  let ?poll = "\<lambda>src. if src = PatternStatus then pattern_statusReport ref_lib ref_platform ref_started
       else Inr (''repo'', ref_dump JNull)"
  let ?st = "addStatusReportSource PatternStatus (addStatusReportSource RepoStatus status_new)"
  have laws: "json_laws (jsonLib ref_platform)" by (simp add: ref_platform_def ref_json_laws)
  have ne: "patterns ref_started \<noteq> omap_empty"
    by (simp add: ref_started_command omap_eq_iff)
  have counters: "\<forall>a obj. omap_find (heap ref_started) a = Some obj
      \<longrightarrow> (\<exists>c k. obj = CounterObject c \<and> counter c = Some k)"
    by (auto simp: ref_started_command om.find_store counter_fetch_def)
  have srcs: "statusReportSources ?st = [RepoStatus] @ PatternStatus # []"
    by (simp add: addStatusReportSource_def status_new_def)
  have "jParse ref_json (ref_dump JNull) = Some JNull" by (simp add: ref_json_def)
  then have "\<forall>src \<in> set [RepoStatus]. source_ok (jsonLib ref_platform) ?poll src"
    by (simp add: source_ok_def ref_platform_def)
  from counter_breaks_status [OF laws ref_started_ok ne counters srcs this, of ref_lib]
  show ?thesis by (simp add: ref_platform_def)
qed

text \<open>
  Only the prefix of the last \<open>listen\<close> has a status: a namespace of an earlier call is
  turned away whatever is polled, and the last one is served what is published.
\<close>

theorem status_last_listener:
  fixes s :: status_handle
  assumes "status_listen p s = (s1, as)" and "status_listen q s1 = (s2, bs)"
    and "statusNamespace s1 = Some ns1" and "statusNamespace s2 = Some ns2"
  shows "onObjectNeeded J poll ns1 s2 = Inr None
    \<and> onObjectNeeded J poll ns2 s2 = (case publishStatus J poll s2 of
        Inl ex \<Rightarrow> Inl ex | Inr doc \<Rightarrow> Inr (Some doc))
    \<and> as = [RegisterPrefix (p @ [generic ''status'']) (StatusInterest (namespaceCount s)) StatusRegisterFailed]"
  using assms by (auto simp: status_listen_def onObjectNeeded_def Let_def)

theorem status_last_listener_witness:
  "onObjectNeeded ref_json (\<lambda>_. Inr (''repo'', ref_dump JNull)) (0, [generic ''a'', generic ''status''])
     (fst (status_listen [generic ''b''] (fst (status_listen [generic ''a''] status_new)))) = Inr None"
  using status_last_listener [of "[generic ''a'']" status_new _ _ "[generic ''b'']"]
  by (simp add: status_listen_def status_new_def Let_def)

end
