(* ===== verification/Repo_Config.thy ===== *)
theory Repo_Config
  imports Status_Handle
begin

text \<open>
  The configuration: \<open>Config\<close> and \<open>parseConfig\<close> of \<open>fast-repo.hpp\<close> and \<open>fast-repo.cpp\<close>, and what
  \<open>main\<close> makes of its arguments. The property tree and the file system are library matters,
  the fields of the record \<open>conf_lib\<close> over an unknown type \<open>'t\<close> of trees.
\<close>

section \<open>Libraries and the configuration\<close>

record 't conf_lib =
  openFile :: "string \<Rightarrow> string option"               \<comment> \<open>the contents; \<open>None\<close>: \<open>is_open()\<close> is false\<close>
  readInfo :: "string \<Rightarrow> 't option"                   \<comment> \<open>\<open>None\<close>: \<open>ptree_error\<close>\<close>
  getChild :: "'t \<Rightarrow> string \<Rightarrow> 't option"             \<comment> \<open>\<open>None\<close>: \<open>ptree_bad_path\<close>\<close>
  getString :: "'t \<Rightarrow> string \<Rightarrow> string option"        \<comment> \<open>\<open>get<std::string>(path)\<close>\<close>
  sections :: "'t \<Rightarrow> (string \<times> 't) list"             \<comment> \<open>iteration\<close>
  treeValue :: "'t \<Rightarrow> string"                         \<comment> \<open>\<open>get_value<std::string>()\<close>\<close>
  treeInt :: "'t \<Rightarrow> int option"                       \<comment> \<open>\<open>get_value<int>()\<close>\<close>
  emptyTree :: "'t"

record 't config =
  readOnly :: bool
  repoConfigPath :: string
  confDbPath :: string
  confRenamePrefix :: string
  dataPrefixes :: "name list"
  registrationSubset :: "64 word"
  repoPrefixes :: "name list"
  validatorNode :: "'t"

text \<open>\<open>DISABLED_SUBSET_LENGTH\<close> is \<open>(size_t) -1\<close>.\<close>

definition default_config :: "'t conf_lib \<Rightarrow> 't config" where
  "default_config C = \<lparr>readOnly = False, repoConfigPath = '''', confDbPath = '''',
     confRenamePrefix = '''', dataPrefixes = [], registrationSubset = -1, repoPrefixes = [],
     validatorNode = emptyTree C\<rparr>"

section \<open>Reading a configuration file\<close>

definition quoted :: "string \<Rightarrow> string" where
  "quoted s = CHR 0x27 # s @ [CHR 0x27]"

definition unrecognized :: "string \<Rightarrow> string \<Rightarrow> string \<Rightarrow> exn" where
  "unrecognized key section_name path = RuntimeError (''Unrecognized '' @ quoted key @ '' option in ''
     @ quoted section_name @ '' section in configuration file '' @ quoted path)"

fun data_section ::
  "'t conf_lib \<Rightarrow> ndn_lib \<Rightarrow> string \<Rightarrow> (string \<times> 't) list \<Rightarrow> 't config \<Rightarrow> 't config result" where
  "data_section C L path [] cfg = Inr cfg"
| "data_section C L path ((key, t) # es) cfg =
     (if key = ''prefix'' then
        data_section C L path es
          (cfg\<lparr>dataPrefixes := dataPrefixes cfg @ [ofUri L (treeValue C t)]\<rparr>)
      else if key = ''registration-subset'' then
        (case treeInt C t of
           None \<Rightarrow> Inl (RuntimeError ''ptree_bad_data'')
         | Some i \<Rightarrow> data_section C L path es (cfg\<lparr>registrationSubset := of_int i\<rparr>))
      else Inl (unrecognized key ''data'' path))"

fun command_section ::
  "'t conf_lib \<Rightarrow> ndn_lib \<Rightarrow> string \<Rightarrow> (string \<times> 't) list \<Rightarrow> 't config \<Rightarrow> 't config result" where
  "command_section C L path [] cfg = Inr cfg"
| "command_section C L path ((key, t) # es) cfg =
     (if key = ''prefix'' then
        command_section C L path es
          (cfg\<lparr>repoPrefixes := repoPrefixes cfg @ [ofUri L (treeValue C t)]\<rparr>)
      else Inl (unrecognized key ''command'' path))"

definition get_child :: "'t conf_lib \<Rightarrow> 't \<Rightarrow> string \<Rightarrow> 't result" where
  "get_child C t p = (case getChild C t p of
     None \<Rightarrow> Inl (RuntimeError (''No such node ('' @ p @ '')'')) | Some u \<Rightarrow> Inr u)"

definition get_string :: "'t conf_lib \<Rightarrow> 't \<Rightarrow> string \<Rightarrow> string result" where
  "get_string C t p = (case getString C t p of
     None \<Rightarrow> Inl (RuntimeError (''No such node ('' @ p @ '')'')) | Some v \<Rightarrow> Inr v)"

definition config_of_tree ::
  "'t conf_lib \<Rightarrow> ndn_lib \<Rightarrow> string \<Rightarrow> 't \<Rightarrow> 't config result" where
  "config_of_tree C L path propertyTree =
     rbind (get_child C propertyTree ''repo'') (\<lambda>repoConf.
     rbind (get_child C repoConf ''data'') (\<lambda>dataConf.
     rbind (data_section C L path (sections C dataConf)
              ((default_config C)\<lparr>repoConfigPath := path\<rparr>)) (\<lambda>cfg.
     rbind (get_child C repoConf ''command'') (\<lambda>commandConf.
     rbind (command_section C L path (sections C commandConf) cfg) (\<lambda>cfg.
     rbind (get_string C repoConf ''storage.method'') (\<lambda>method.
     if method \<noteq> ''rocksdb''
     then Inl (RuntimeError (''Only '' @ quoted ''rocksdb'' @ '' storage method is supported''))
     else
     rbind (get_string C repoConf ''storage.mode'') (\<lambda>mode.
     rbind (get_string C repoConf ''storage.path'') (\<lambda>dbpath.
     rbind (get_child C repoConf ''validator'') (\<lambda>validator.
     Inr (cfg\<lparr>readOnly := (mode = ''read_only''), confDbPath := dbpath,
              validatorNode := validator\<rparr>))))))))))"

definition parseConfig :: "'t conf_lib \<Rightarrow> ndn_lib \<Rightarrow> string \<Rightarrow> 't config result" where
  "parseConfig C L path =
     (case openFile C path of
        None \<Rightarrow> Inl (RuntimeError (''failed to open configuration file '' @ quoted path))
      | Some text \<Rightarrow>
          (case readInfo C text of
             None \<Rightarrow> Inl (RuntimeError (''failed to read configuration file '' @ quoted path))
           | Some propertyTree \<Rightarrow> config_of_tree C L path propertyTree))"

section \<open>The arguments of \<open>main\<close>\<close>

record args =
  argConfig :: "string option"
  argCommandPrefix :: "string option"
  argDbPath :: string
  argReadonly :: bool
  argRenamePrefix :: "string option"
  argValidate :: bool

definition override_path :: "ndn_lib \<Rightarrow> args \<Rightarrow> 't config \<Rightarrow> 't config" where
  "override_path L a cfg = (case argCommandPrefix a of
     None \<Rightarrow> cfg
   | Some p \<Rightarrow> cfg\<lparr>repoPrefixes := repoPrefixes cfg @ [ofUri L p], confDbPath := argDbPath a\<rparr>)"

definition override_mode :: "args \<Rightarrow> 't config \<Rightarrow> 't config" where
  "override_mode a cfg = (if argReadonly a then cfg\<lparr>readOnly := True\<rparr> else cfg)"

definition override_rename :: "args \<Rightarrow> 't config \<Rightarrow> 't config" where
  "override_rename a cfg = (case argRenamePrefix a of
     None \<Rightarrow> cfg | Some p \<Rightarrow> cfg\<lparr>confRenamePrefix := p\<rparr>)"

definition main_config :: "'t conf_lib \<Rightarrow> ndn_lib \<Rightarrow> args \<Rightarrow> 't config result" where
  "main_config C L a =
     rbind (case argConfig a of Some path \<Rightarrow> parseConfig C L path | None \<Rightarrow> Inr (default_config C))
       (\<lambda>cfg. Inr (override_rename a (override_mode a (override_path L a cfg))))"

section \<open>What is accepted\<close>

lemma get_child_Inr [simp]: "get_child C t p = Inr u \<longleftrightarrow> getChild C t p = Some u"
  by (auto simp: get_child_def split: option.splits)

lemma get_string_Inr [simp]: "get_string C t p = Inr v \<longleftrightarrow> getString C t p = Some v"
  by (auto simp: get_string_def split: option.splits)

definition only_runtime :: "'a result \<Rightarrow> bool" where
  "only_runtime r \<longleftrightarrow> (\<forall>ex. r = Inl ex \<longrightarrow> (\<exists>m. ex = RuntimeError m))"

lemma only_runtime_rbind [intro]:
  "only_runtime r \<Longrightarrow> (\<And>x. r = Inr x \<Longrightarrow> only_runtime (f x)) \<Longrightarrow> only_runtime (rbind r f)"
  by (cases r) (simp_all add: rbind_def only_runtime_def)

lemma only_runtime_intros [intro, simp]:
  "only_runtime (Inr x)" "only_runtime (Inl (RuntimeError m))" "only_runtime (get_child C t p)"
  "only_runtime (get_string C t p)"
  by (auto simp: only_runtime_def get_child_def get_string_def split: option.splits)

lemma data_section_runtime [simp]: "only_runtime (data_section C L path es cfg)"
  by (induction C L path es cfg rule: data_section.induct)
    (auto simp: unrecognized_def split: option.split)

lemma command_section_runtime [simp]: "only_runtime (command_section C L path es cfg)"
  by (induction C L path es cfg rule: command_section.induct) (auto simp: unrecognized_def)

lemma data_section_Inr:
  "data_section C L path es cfg = Inr cfg' \<Longrightarrow>
     fst ` set es \<subseteq> {''prefix'', ''registration-subset''}
   \<and> dataPrefixes cfg' = dataPrefixes cfg @ [ofUri L (treeValue C t). (k, t) \<leftarrow> es, k = ''prefix'']
   \<and> repoPrefixes cfg' = repoPrefixes cfg \<and> confRenamePrefix cfg' = confRenamePrefix cfg
   \<and> repoConfigPath cfg' = repoConfigPath cfg"
  by (induction C L path es cfg rule: data_section.induct)
    (auto split: if_splits option.splits)

lemma command_section_Inr:
  "command_section C L path es cfg = Inr cfg' \<longleftrightarrow>
     fst ` set es \<subseteq> {''prefix''}
   \<and> cfg' = cfg\<lparr>repoPrefixes := repoPrefixes cfg @ [ofUri L (treeValue C t). (k, t) \<leftarrow> es]\<rparr>"
  by (induction C L path es cfg rule: command_section.induct) (auto split: if_splits)

section \<open>A concrete property tree\<close>

datatype ptree = Tree string "(string \<times> ptree) list"

fun tree_value :: "ptree \<Rightarrow> string" where
  "tree_value (Tree v es) = v"

fun tree_children :: "ptree \<Rightarrow> (string \<times> ptree) list" where
  "tree_children (Tree v es) = es"

text \<open>A path is split at its dots; this is enough for one dot.\<close>

definition tree_child :: "ptree \<Rightarrow> string \<Rightarrow> ptree option" where
  "tree_child t p =
     (let k = takeWhile (\<lambda>c. c \<noteq> CHR ''.'') p; r = drop (Suc (length k)) p
      in case map_of (tree_children t) k of
           None \<Rightarrow> None
         | Some u \<Rightarrow> if r = [] then Some u else map_of (tree_children u) r)"

definition ref_conf :: "(string \<Rightarrow> ptree option) \<Rightarrow> ptree conf_lib" where
  "ref_conf files = \<lparr>openFile = (\<lambda>p. map_option (\<lambda>_. p) (files p)), readInfo = files,
     getChild = tree_child, getString = (\<lambda>t p. map_option tree_value (tree_child t p)),
     sections = tree_children, treeValue = tree_value, treeInt = (\<lambda>t. Some (int (length (tree_value t)))),
     emptyTree = Tree [] []\<rparr>"

definition sample_conf :: ptree where
  "sample_conf = Tree [] [(''repo'', Tree []
     [(''data'', Tree [] [(''prefix'', Tree ''/d'' []), (''registration-subset'', Tree ''xx'' [])]),
      (''command'', Tree [] [(''prefix'', Tree ''/c'' [])]),
      (''storage'', Tree [] [(''method'', Tree ''rocksdb'' []), (''mode'', Tree ''read_only'' []),
        (''path'', Tree ''/db'' [])]),
      (''validator'', Tree [] [])])]"

definition sample_files :: "string \<Rightarrow> ptree option" where
  "sample_files p = (if p = ''repo.conf'' then Some sample_conf else None)"

lemma parse_config_rename: "parseConfig C L path = Inr cfg \<Longrightarrow> confRenamePrefix cfg = []"
  unfolding parseConfig_def config_of_tree_def
  by (auto simp: rbind_Inr command_section_Inr default_config_def dest!: data_section_Inr
      split: option.splits if_splits)

section \<open>Properties\<close>

text \<open>
  C40: \<open>parseConfig\<close> fails with a runtime error or returns a configuration, and it returns one
  only for a file that can be opened and read, whose sections \<open>data\<close> and \<open>command\<close> exist and
  hold no unknown option, which has a section \<open>validator\<close>, whatever it holds, a storage mode and
  a path, and whose storage method is \<open>rocksdb\<close>. The prefixes are then those of the file, in its
  order, the validator section is kept as it is, the mode is read-only exactly for the text
  \<open>read_only\<close> (any other text is read-write), and there is no rename prefix.
\<close>

theorem parse_config_spec:
  "only_runtime (parseConfig C L path) \<and>
   (\<forall>cfg. parseConfig C L path = Inr cfg \<longrightarrow>
      (\<exists>text tree repo data command validator mode.
         openFile C path = Some text \<and> readInfo C text = Some tree \<and> getChild C tree ''repo'' = Some repo
       \<and> getChild C repo ''data'' = Some data \<and> getChild C repo ''command'' = Some command
       \<and> getChild C repo ''validator'' = Some validator
       \<and> fst ` set (sections C data) \<subseteq> {''prefix'', ''registration-subset''}
       \<and> fst ` set (sections C command) \<subseteq> {''prefix''}
       \<and> getString C repo ''storage.method'' = Some ''rocksdb''
       \<and> getString C repo ''storage.mode'' = Some mode
       \<and> getString C repo ''storage.path'' = Some (confDbPath cfg)
       \<and> (readOnly cfg \<longleftrightarrow> mode = ''read_only'')
       \<and> dataPrefixes cfg = [ofUri L (treeValue C t). (k, t) \<leftarrow> sections C data, k = ''prefix'']
       \<and> repoPrefixes cfg = [ofUri L (treeValue C t). (k, t) \<leftarrow> sections C command]
       \<and> confRenamePrefix cfg = [] \<and> validatorNode cfg = validator))"
proof (intro conjI allI impI)
  show "only_runtime (parseConfig C L path)"
    unfolding parseConfig_def config_of_tree_def
    by (auto split: option.split intro!: only_runtime_rbind)
next
  fix cfg assume "parseConfig C L path = Inr cfg"
  then obtain contents tree where f: "openFile C path = Some contents" "readInfo C contents = Some tree"
    "config_of_tree C L path tree = Inr cfg"
    by (auto simp: parseConfig_def split: option.splits)
  from f(3) show "\<exists>text tree repo data command validator mode.
         openFile C path = Some text \<and> readInfo C text = Some tree \<and> getChild C tree ''repo'' = Some repo
       \<and> getChild C repo ''data'' = Some data \<and> getChild C repo ''command'' = Some command
       \<and> getChild C repo ''validator'' = Some validator
       \<and> fst ` set (sections C data) \<subseteq> {''prefix'', ''registration-subset''}
       \<and> fst ` set (sections C command) \<subseteq> {''prefix''}
       \<and> getString C repo ''storage.method'' = Some ''rocksdb''
       \<and> getString C repo ''storage.mode'' = Some mode
       \<and> getString C repo ''storage.path'' = Some (confDbPath cfg)
       \<and> (readOnly cfg \<longleftrightarrow> mode = ''read_only'')
       \<and> dataPrefixes cfg = [ofUri L (treeValue C t). (k, t) \<leftarrow> sections C data, k = ''prefix'']
       \<and> repoPrefixes cfg = [ofUri L (treeValue C t). (k, t) \<leftarrow> sections C command]
       \<and> confRenamePrefix cfg = [] \<and> validatorNode cfg = validator"
    unfolding config_of_tree_def rbind_Inr
    using f(1,2)
    by (auto simp: rbind_Inr command_section_Inr default_config_def
        dest!: data_section_Inr split: if_splits)
qed

text \<open>
  What \<open>main\<close> makes of its arguments. The flag \<open>--readonly\<close> and the prefixes on the command
  line take precedence over the file: with a command prefix the database path is that of the
  command line, and the prefix is listened to after those of the file; without the flag the
  mode is that of the file; the rename prefix comes from the command line only.
\<close>

theorem main_config_overrides:
  assumes "main_config C L a = Inr cfg"
  shows "\<exists>base. (case argConfig a of Some path \<Rightarrow> parseConfig C L path | None \<Rightarrow> Inr (default_config C)) = Inr base
    \<and> (readOnly cfg \<longleftrightarrow> argReadonly a \<or> readOnly base)
    \<and> confDbPath cfg = (if argCommandPrefix a = None then confDbPath base else argDbPath a)
    \<and> repoPrefixes cfg = repoPrefixes base @ (case argCommandPrefix a of None \<Rightarrow> [] | Some p \<Rightarrow> [ofUri L p])
    \<and> confRenamePrefix cfg = (case argRenamePrefix a of None \<Rightarrow> [] | Some p \<Rightarrow> p)
    \<and> dataPrefixes cfg = dataPrefixes base"
proof -
  let ?r = "case argConfig a of Some path \<Rightarrow> parseConfig C L path | None \<Rightarrow> Inr (default_config C)"
  obtain base where base: "?r = Inr base"
    "cfg = override_rename a (override_mode a (override_path L a base))"
    using assms by (auto simp: main_config_def rbind_Inr)
  have "confRenamePrefix base = []"
    using base(1) by (cases "argConfig a") (auto simp: default_config_def dest: parse_config_rename)
  with base show ?thesis
    by (auto simp: override_rename_def override_mode_def override_path_def split: option.split)
qed

lemma sample_parsed:
  "parseConfig (ref_conf sample_files) ref_lib ''repo.conf''
     = Inr \<lparr>readOnly = True, repoConfigPath = ''repo.conf'', confDbPath = ''/db'', confRenamePrefix = [],
         dataPrefixes = [[generic ''d'']], registrationSubset = 2, repoPrefixes = [[generic ''c'']],
         validatorNode = Tree [] []\<rparr>"
proof -
  have "ref_ofUri ''/d'' = [generic ''d'']" "ref_ofUri ''/c'' = [generic ''c'']" by code_simp+
  then show ?thesis
    by (simp add: parseConfig_def config_of_tree_def ref_conf_def sample_files_def sample_conf_def
        get_child_def get_string_def tree_child_def default_config_def Let_def)
qed

theorem main_config_overrides_witness:
  "\<exists>cfg. main_config (ref_conf sample_files) ref_lib
      \<lparr>argConfig = Some ''repo.conf'', argCommandPrefix = None, argDbPath = ''/var'', argReadonly = False,
       argRenamePrefix = Some ''/r'', argValidate = False\<rparr> = Inr cfg
    \<and> readOnly cfg \<and> confDbPath cfg = ''/db'' \<and> confRenamePrefix cfg = ''/r''"
proof -
  let ?a = "\<lparr>argConfig = Some ''repo.conf'', argCommandPrefix = None, argDbPath = ''/var'', argReadonly = False,
       argRenamePrefix = Some ''/r'', argValidate = False\<rparr>"
  obtain cfg where cfg: "main_config (ref_conf sample_files) ref_lib ?a = Inr cfg"
    by (simp add: main_config_def sample_parsed)
  from main_config_overrides [OF cfg] cfg show ?thesis by (auto simp: sample_parsed)
qed

theorem parse_config_spec_witness:
  "only_runtime (parseConfig (ref_conf sample_files) ref_lib ''none'')
   \<and> (\<exists>cfg. parseConfig (ref_conf sample_files) ref_lib ''repo.conf'' = Inr cfg
        \<and> confRenamePrefix cfg = [] \<and> dataPrefixes cfg = [[generic ''d'']])"
proof
  show "only_runtime (parseConfig (ref_conf sample_files) ref_lib ''none'')"
    using parse_config_spec by (rule conjunct1)
  have "confRenamePrefix cfg = []" if "parseConfig (ref_conf sample_files) ref_lib ''repo.conf'' = Inr cfg" for cfg
    using parse_config_spec [of "ref_conf sample_files" ref_lib "''repo.conf''"] that by blast
  then show "\<exists>cfg. parseConfig (ref_conf sample_files) ref_lib ''repo.conf'' = Inr cfg
        \<and> confRenamePrefix cfg = [] \<and> dataPrefixes cfg = [[generic ''d'']]"
    using sample_parsed by simp
qed

end
