(* ===== verification/Read_Handle.thy ===== *)
theory Read_Handle
  imports Base_Handle Storage_Read Reference_Engine
begin

text \<open>
  \<open>read-handle.cpp\<close>: interests for stored packets. The handler has no state of its own. Its
  operations that are only used in the tests, \<open>connectAutoListen\<close> and \<open>onDataInserted\<close>, have
  no effect on it: the first connects the second to a signal, and the second does nothing.
  The compiled-out \<open>onDataDeleted\<close> counts how many packets use a registered prefix; the members
  it uses are left in the header as comments.
\<close>

section \<open>Operations\<close>

definition read_onInterest :: "'db env \<Rightarrow> 'db engine \<Rightarrow> interest \<Rightarrow> 'cb action list result" where
  "read_onInterest E e i =
     (if \<not> mustBeFresh i then
        (case se_read E e i of
           Inl ex \<Rightarrow> Inl ex
         | Inr (Some d) \<Rightarrow> Inr [PutData d]
         | Inr None \<Rightarrow> Inr [])
      else Inr [])"

definition read_onRegisterFailed :: "'cb action list" where
  "read_onRegisterFailed = [ShutdownFace]"

definition read_listen :: "name \<Rightarrow> 'cb action list" where
  "read_listen p = [RegisterPrefix p ReadInterest ReadRegisterFailed]"

definition read_onDataInserted :: "name \<Rightarrow> 'cb action list" where
  "read_onDataInserted n = []"

text \<open>The slots of the storage's signal \<open>afterDataInsertion\<close>.\<close>

definition connectAutoListen :: "(name \<Rightarrow> 'cb action list) list \<Rightarrow> (name \<Rightarrow> 'cb action list) list" where
  "connectAutoListen slots = slots @ [read_onDataInserted]"

lemma auto_listen_silent:
  "concat (map (\<lambda>slot. slot n) (connectAutoListen slots)) = concat (map (\<lambda>slot. slot n) slots)"
  by (simp add: connectAutoListen_def read_onDataInserted_def)

section \<open>Prefixes in use (compiled out)\<close>

text \<open>
  \<open>getPrefix n k\<close> is \<open>Name::getPrefix\<close>, which takes a negative number to count from the end.
  The second component of the result is the prefix whose interest filter is unset.
\<close>

record 'id registered_prefix =
  prefixId :: 'id
  useCount :: int

definition onDataDeleted ::
  "(name \<Rightarrow> int \<Rightarrow> name) \<Rightarrow> nat \<Rightarrow> name \<Rightarrow> (name, 'id registered_prefix) omap
     \<Rightarrow> (name, 'id registered_prefix) omap \<times> 'id option" where
  "onDataDeleted getPrefix m_prefixSubsetLength n m_insertedDataPrefixes =
     (let p = getPrefix n (- (int m_prefixSubsetLength + 1)) in
      case omap_find m_insertedDataPrefixes p of
        None \<Rightarrow> (m_insertedDataPrefixes, None)
      | Some check \<Rightarrow>
          let used = check\<lparr>useCount := useCount check - 1\<rparr> in
          if useCount used \<le> 0 then (omap_erase p m_insertedDataPrefixes, Some (prefixId used))
          else (omap_store p used m_insertedDataPrefixes, None))"

text \<open>A prefix used by \<open>k\<close> packets is unset by the last of \<open>k\<close> deletions below it, not before.\<close>

lemma onDataDeleted_counts:
  assumes "omap_find m p = Some c" and "getPrefix n (- (int len + 1)) = p"
  shows "if useCount c \<le> 1 then onDataDeleted getPrefix len n m = (omap_erase p m, Some (prefixId c))
    else \<exists>m'. onDataDeleted getPrefix len n m = (m', None)
      \<and> omap_find m' = (omap_find m)(p \<mapsto> c\<lparr>useCount := useCount c - 1\<rparr>)"
  using assms by (auto simp: onDataDeleted_def om.find_store Let_def)

section \<open>What is sent\<close>

lemma read_outcome:
  assumes ok: "engine_ok E e" and run: "read_onInterest E e i = Inr as"
  shows "as = [] \<or> (\<exists>d. as = [PutData d] \<and> stored E e (dName d) = Some d)"
proof (cases "canBePrefix i")
  case True
  from ok True show ?thesis
    by (cases rule: read_prefix_cases)
      (use run in \<open>auto simp: read_onInterest_def split: if_splits\<close>)
next
  case False
  then have "impl_read E e i = Inr (stored E e (iName i))"
    by (simp add: impl_read_def get_stored [OF ok])
  with run stored_name [OF ok, of "iName i"] show ?thesis
    by (auto simp: read_onInterest_def split: if_splits option.splits)
qed

text \<open>The outcome in full.\<close>

lemma read_answers:
  assumes ok: "engine_ok E e"
  shows "\<exists>as. (read_onInterest E e i :: 'cb action list result) = Inr as
    \<and> (as = [] \<or> (\<exists>d. as = [PutData d] \<and> \<not> mustBeFresh i \<and> stored E e (dName d) = Some d
         \<and> prefix (butlast (iName i)) (dName d) \<and> (\<not> canBePrefix i \<longrightarrow> dName d = iName i)))
    \<and> (\<not> mustBeFresh i \<and> \<not> canBePrefix i \<and> stored E e (iName i) \<noteq> None \<longrightarrow> as \<noteq> [])"
proof (cases "canBePrefix i")
  case True
  from ok True show ?thesis
    by (cases rule: read_prefix_cases)
      (use True in \<open>auto simp: read_onInterest_def candidate_def dest: near_prefix_butlast\<close>)
next
  case False
  then have "impl_read E e i = Inr (stored E e (iName i))"
    by (simp add: impl_read_def get_stored [OF ok])
  with False stored_name [OF ok, of "iName i"] show ?thesis
    by (auto simp: read_onInterest_def prefixeq_butlast split: option.split)
qed

lemma read_returns:
  "engine_ok E e \<Longrightarrow> \<exists>as. (read_onInterest E e i :: 'cb action list result) = Inr as"
  using read_answers [of E e i] by blast

lemma read_exact:
  "engine_ok E e \<Longrightarrow> stored E e (iName i) = Some d \<Longrightarrow> \<not> canBePrefix i \<Longrightarrow> \<not> mustBeFresh i \<Longrightarrow>
     read_onInterest E e i = Inr [PutData d]"
  by (simp add: read_onInterest_def impl_read_def get_stored)

section \<open>Properties\<close>

text \<open>
  C36: whatever interest arrives, the read handler does not fail and sends at most one packet,
  which is stored under its own name, agrees with the interest's name in all components but
  the last, and is exactly the packet asked for if the interest cannot be a prefix. An
  interest that must be fresh is never answered, and one without that flag for the exact name
  of a stored packet always is.
\<close>

theorem read_handle_answers:
  assumes ok: "engine_ok E e"
  shows "\<exists>as. (read_onInterest E e i :: 'cb action list result) = Inr as
    \<and> (as = [] \<or> (\<exists>d. as = [PutData d] \<and> \<not> mustBeFresh i \<and> stored E e (dName d) = Some d
         \<and> prefix (butlast (iName i)) (dName d) \<and> (\<not> canBePrefix i \<longrightarrow> dName d = iName i)))
    \<and> (\<not> mustBeFresh i \<and> \<not> canBePrefix i \<and> stored E e (iName i) \<noteq> None \<longrightarrow> as \<noteq> [])"
  using ok by (rule read_answers)

theorem read_handle_answers_witness:
  "\<exists>as. (read_onInterest ref_env (ref_store [ref_packet [''a''] ''x'']) (ref_interest [''a''] False)
      :: nat action list result) = Inr as \<and> as \<noteq> []"
  using read_handle_answers [OF ref_store(1), of "[ref_packet [''a''] ''x'']" "ref_interest [''a''] False"]
  by (auto simp: ref_interest_def ref_store(4))

end
