(* ===== verification/Write_Handle.thy ===== *)
theory Write_Handle
  imports Read_Handle "HOL-Library.Multiset"
begin

text \<open>
  \<open>write-handle.cpp\<close>, the part that is compiled: the \<open>insert\<close> command. A command is answered
  at once with a process id, the packet it names is fetched with an interest, and the process
  is forgotten when the packet or a timeout arrives. The random process id is supplied by the
  environment.
\<close>

section \<open>State and operations\<close>

datatype write_callback =
    WriteData "64 word"       \<comment> \<open>\<open>bind(&WriteHandle::onData, this, _1, _2, processId)\<close>\<close>
  | WriteTimeout "64 word"    \<comment> \<open>\<open>bind(&WriteHandle::onTimeout, this, _1, processId)\<close>\<close>

record write_handle =
  m_processes :: "(64 word, response) omap"

definition write_new :: write_handle where
  "write_new = \<lparr>m_processes = omap_empty\<rparr>"

definition write_listen :: "name \<Rightarrow> 'cb action list" where
  "write_listen p = [SetInterestFilter (p @ [generic ''insert'']) InsertCommand]"

text \<open>The access \<open>m_processes[processId]\<close> creates an empty process when there is none.\<close>

definition process_entry :: "write_handle \<Rightarrow> 64 word \<Rightarrow> response" where
  "process_entry s pid =
     (case omap_find (m_processes s) pid of None \<Rightarrow> empty_response | Some r \<Rightarrow> r)"

definition fetch_interest :: "ndn_lib \<Rightarrow> name \<Rightarrow> interest" where
  "fetch_interest L n = (newInterest L n)\<lparr>lifetimeMs := Some 4000\<rparr>"

definition processSingleInsertCommand ::
  "ndn_lib \<Rightarrow> 64 word \<Rightarrow> interest \<Rightarrow> parameter \<Rightarrow> write_handle
     \<Rightarrow> write_handle \<times> write_callback action list" where
  "processSingleInsertCommand L pid i par s =
     (let response = (process_entry s pid)\<lparr>statusCode := 100, processId := pid, insertNum := 0\<rparr>;
          fetchName = message_name (pName par)
      in (s\<lparr>m_processes := omap_store pid (response\<lparr>statusCode := 300\<rparr>) (m_processes s)\<rparr>,
          [reply L i response,
           ExpressInterest (fetch_interest L fetchName) (WriteData pid) (Some (WriteTimeout pid))]))"

definition write_onInterest ::
  "ndn_lib \<Rightarrow> 64 word \<Rightarrow> name \<Rightarrow> interest \<Rightarrow> write_handle
     \<Rightarrow> write_handle \<times> write_callback action list" where
  "write_onInterest L pid p i s =
     (case extractParameter L i p of
        Inl ex \<Rightarrow> (s, [negativeReply L i 403])
      | Inr par \<Rightarrow> processSingleInsertCommand L pid i par s)"

definition write_onTimeout :: "64 word \<Rightarrow> write_handle \<Rightarrow> write_handle" where
  "write_onTimeout pid s = s\<lparr>m_processes := omap_erase pid (m_processes s)\<rparr>"

definition onDataValidated ::
  "'db env \<Rightarrow> 'db engine \<Rightarrow> data \<Rightarrow> 64 word \<Rightarrow> write_handle
     \<Rightarrow> (write_handle \<times> 'db engine \<times> write_callback action list) result" where
  "onDataValidated E e d pid s =
     (case omap_find (m_processes s) pid of
        None \<Rightarrow> Inr (s, e, [])
      | Some r \<Rightarrow>
          let erased = (\<lambda>s. s\<lparr>m_processes := omap_erase pid (m_processes s)\<rparr>) in
          if insertNum r = 0 then
            (case se_put E e d of
               Inl ex \<Rightarrow> Inl ex
             | Inr (e', n, _) \<Rightarrow>
                 let s' = s\<lparr>m_processes := omap_store pid (r\<lparr>insertNum := 1\<rparr>) (m_processes s)\<rparr>
                 in Inr (erased s', e', [EmitInsertion n]))
          else Inr (erased s, e, []))"

definition write_onData ::
  "'db env \<Rightarrow> 'db engine \<Rightarrow> data \<Rightarrow> 64 word \<Rightarrow> write_handle
     \<Rightarrow> (write_handle \<times> 'db engine \<times> write_callback action list) result" where
  "write_onData E e d pid s = onDataValidated E e d pid s"

lemmas [handler_simps] =
  processSingleInsertCommand_def write_onInterest_def write_onTimeout_def
  onDataValidated_def write_onData_def process_entry_def

section \<open>The process table\<close>

definition pending_response :: "64 word \<Rightarrow> response" where
  "pending_response pid = empty_response\<lparr>processId := pid, statusCode := 300\<rparr>"

text \<open>A process in the table is waiting for its packet: status 300, nothing inserted yet.\<close>

definition table_ok :: "write_handle \<Rightarrow> bool" where
  "table_ok s \<longleftrightarrow>
     (\<forall>pid r. omap_find (m_processes s) pid = Some r \<longrightarrow> r = pending_response pid)"

definition processes :: "write_handle \<Rightarrow> 64 word set" where
  "processes s = dom (omap_find (m_processes s))"

lemma table_new: "table_ok write_new" "processes write_new = {}"
  by (simp_all add: table_ok_def processes_def write_new_def fun_eq_iff dom_def)

lemma process_fresh:
  assumes "table_ok s"
  shows "(process_entry s pid)\<lparr>statusCode := c, processId := pid, insertNum := 0\<rparr>
     = (pending_response pid)\<lparr>statusCode := c\<rparr>"
proof -
  have "process_entry s pid = empty_response \<or> process_entry s pid = pending_response pid"
    using assms by (auto simp: table_ok_def process_entry_def split: option.split)
  then show ?thesis by (auto simp: pending_response_def empty_response_def)
qed

lemma command_cases:
  assumes "table_ok s"
  obtains (bad) ex where "extractParameter L i p = Inl ex"
      "write_onInterest L pid p i s = (s, [negativeReply L i 403])"
  | (good) par s' where "extractParameter L i p = Inr par"
      "write_onInterest L pid p i s = (s',
         [reply L i ((pending_response pid)\<lparr>statusCode := 100\<rparr>),
          ExpressInterest (fetch_interest L (message_name (pName par)))
            (WriteData pid) (Some (WriteTimeout pid))])"
      "table_ok s'" "processes s' = insert pid (processes s)"
proof (cases "extractParameter L i p")
  case (Inl ex)
  then show thesis by (intro bad) (simp_all add: handler_simps)
next
  case (Inr par)
  let ?r = "(process_entry s pid)\<lparr>statusCode := 100, processId := pid, insertNum := 0\<rparr>"
  let ?s = "s\<lparr>m_processes := omap_store pid (?r\<lparr>statusCode := 300\<rparr>) (m_processes s)\<rparr>"
  have r: "?r = (pending_response pid)\<lparr>statusCode := 100\<rparr>" "?r\<lparr>statusCode := 300\<rparr> = pending_response pid"
    by (simp_all only: process_fresh [OF assms]) (simp add: pending_response_def)
  show thesis
  proof (rule good [OF Inr])
    show "write_onInterest L pid p i s = (?s,
         [reply L i ((pending_response pid)\<lparr>statusCode := 100\<rparr>),
          ExpressInterest (fetch_interest L (message_name (pName par)))
            (WriteData pid) (Some (WriteTimeout pid))])"
      using Inr r by (simp add: write_onInterest_def processSingleInsertCommand_def Let_def)
    show "table_ok ?s"
      using assms r(2) by (auto simp: table_ok_def om.find_store)
    show "processes ?s = insert pid (processes s)"
      by (simp add: processes_def om.find_store)
  qed
qed

lemma timeout_effect:
  "table_ok s \<Longrightarrow> table_ok (write_onTimeout pid s)"
  "processes (write_onTimeout pid s) = processes s - {pid}"
  by (auto simp: table_ok_def processes_def write_onTimeout_def om.find_erase split: if_splits)

lemma data_cases:
  assumes "table_ok s" and ok: "engine_ok E e"
  obtains (ignored) "pid \<notin> processes s" "write_onData E e d pid s = Inr (s, e, [])"
  | (stored) e' n where "pid \<in> processes s" "se_put E e d = Inr (e', n, dName d)"
      "write_onData E e d pid s = Inr (write_onTimeout pid s, e', [EmitInsertion n])"
proof (cases "omap_find (m_processes s) pid")
  case None
  then show thesis
    by (intro ignored) (auto simp: processes_def handler_simps)
next
  case (Some r)
  obtain e' n where p: "se_put E e d = Inr (e', n, dName d)"
    using se.put_returns [OF ok] by blast
  have erase: "omap_erase k (omap_store k v m) = omap_erase k m" for k v and m :: "(64 word, response) omap"
    by (rule erase_store)
  from assms(1) Some have "r = pending_response pid"
    by (simp add: table_ok_def)
  then have "insertNum r = 0"
    by (simp add: pending_response_def empty_response_def)
  with Some p show thesis
    by (intro stored) (auto simp: processes_def handler_simps Let_def erase)
qed

section \<open>Runs of the handler\<close>

text \<open>
  The face calls exactly one of the callbacks of an interest, once: on data whose name the
  interest's name is a prefix of, or on timeout. So a run keeps the multiset of the pending
  fetches. With \<open>fresh\<close>, the random process ids are not those of pending fetches. The storage is
  shared: a fetch pattern may store a packet at any time.
\<close>

fun fetches :: "write_callback action list \<Rightarrow> (interest \<times> 64 word) list" where
  "fetches [] = []"
| "fetches (ExpressInterest i (WriteData pid) _ # as) = (i, pid) # fetches as"
| "fetches (_ # as) = fetches as"

type_synonym pending = "(interest \<times> 64 word) multiset"

inductive write_run ::
  "'db env \<Rightarrow> bool \<Rightarrow> 'db engine \<Rightarrow> write_handle \<Rightarrow> 'db engine \<Rightarrow> pending \<Rightarrow> bool"
  for E :: "'db env" and fresh :: bool and e0 :: "'db engine" where
  start: "write_run E fresh e0 write_new e0 {#}"
| command: "write_run E fresh e0 s e P \<Longrightarrow> fresh \<longrightarrow> pid \<notin># image_mset snd P \<Longrightarrow>
    write_onInterest (lib E) pid p i s = (s', as) \<Longrightarrow>
    write_run E fresh e0 s' e (P + mset (fetches as))"
| data: "write_run E fresh e0 s e P \<Longrightarrow> (i, pid) \<in># P \<Longrightarrow> prefix (iName i) (dName d) \<Longrightarrow>
    write_onData E e d pid s = Inr (s', e', as) \<Longrightarrow>
    write_run E fresh e0 s' e' (P - {#(i, pid)#})"
| timeout: "write_run E fresh e0 s e P \<Longrightarrow> (i, pid) \<in># P \<Longrightarrow>
    write_run E fresh e0 (write_onTimeout pid s) e (P - {#(i, pid)#})"
| shared: "write_run E fresh e0 s e P \<Longrightarrow> se_put E e d = Inr (e', n, g) \<Longrightarrow>
    write_run E fresh e0 s e' P"

abbreviation pending_ids :: "pending \<Rightarrow> 64 word multiset" where
  "pending_ids P \<equiv> image_mset snd P"

lemma pending_ids_minus:
  "(i, pid) \<in># P \<Longrightarrow> pending_ids (P - {#(i, pid)#}) = pending_ids P - {#pid#}"
  by (simp add: image_mset_Diff)

text \<open>
  The invariant of a run: the table is well-formed, each of its processes has a fetch
  pending, and with fresh ids the two agree and no id is pending twice.
\<close>

definition run_ok :: "'db env \<Rightarrow> bool \<Rightarrow> write_handle \<Rightarrow> 'db engine \<Rightarrow> pending \<Rightarrow> bool" where
  "run_ok E fresh s e P \<longleftrightarrow> engine_ok E e \<and> table_ok s
     \<and> processes s \<subseteq> set_mset (pending_ids P)
     \<and> (fresh \<longrightarrow> pending_ids P = mset_set (processes s))"

lemma processes_finite: "finite (processes s)"
  by (simp add: processes_def om.dom_finite)

lemma member_minus: "x \<in># M \<Longrightarrow> x \<noteq> y \<Longrightarrow> x \<in># M - {#y#}"
  by (simp add: in_diff_count)

lemma run_ok_removed:
  assumes "run_ok E fresh s e P" and "(i, pid) \<in># P" and "engine_ok E e'"
  shows "run_ok E fresh (write_onTimeout pid s) e' (P - {#(i, pid)#})"
proof -
  have ids: "pending_ids (P - {#(i, pid)#}) = pending_ids P - {#pid#}"
    using assms(2) by (rule pending_ids_minus)
  have "pending_ids P - {#pid#} = mset_set (processes s - {pid})" if "fresh"
  proof -
    from that assms(1) have eq: "pending_ids P = mset_set (processes s)"
      by (simp add: run_ok_def)
    moreover have "pid \<in># pending_ids P" using assms(2) by force
    ultimately show ?thesis
      using mset_set_Diff [OF processes_finite, of "{pid}" s] processes_finite [of s] by simp
  qed
  moreover have "processes s - {pid} \<subseteq> set_mset (pending_ids P - {#pid#})"
  proof
    fix x assume x: "x \<in> processes s - {pid}"
    then have "x \<in># pending_ids P"
      using assms(1) unfolding run_ok_def by blast
    with x show "x \<in># pending_ids P - {#pid#}"
      by (intro member_minus) blast+
  qed
  moreover have "table_ok (write_onTimeout pid s)"
    using assms(1) by (simp add: run_ok_def timeout_effect)
  ultimately show ?thesis
    using assms(3) unfolding run_ok_def timeout_effect(2) ids by iprover
qed

lemma run_ok_added:
  assumes "run_ok E fresh s e P" and "table_ok s'" and "processes s' = insert pid (processes s)"
    and "fresh \<longrightarrow> pid \<notin># pending_ids P"
  shows "run_ok E fresh s' e (P + {#(i, pid)#})"
  using assms processes_finite [of s] by (auto simp: run_ok_def simp del: set_image_mset)

theorem run_invariant:
  assumes "write_run E fresh e0 s e P" and "engine_ok E e0"
  shows "run_ok E fresh s e P"
  using assms
proof (induction rule: write_run.induct)
  case start
  then show ?case by (simp add: run_ok_def table_new)
next
  case (command s e P pid p i s' as)
  then have ok: "run_ok E fresh s e P" and tab: "table_ok s" by (auto simp: run_ok_def)
  from tab show ?case
  proof (cases rule: command_cases [where L = "lib E" and pid = pid and i = i and p = p])
    case (bad ex)
    with command(3) ok show ?thesis by (auto simp: handler_simps)
  next
    case (good par s1)
    with command(3) have s1: "s1 = s'" and
      as: "fetches as = [(fetch_interest (lib E) (message_name (pName par)), pid)]"
      by (auto simp: handler_simps)
    have "run_ok E fresh s' e (P + {#(fetch_interest (lib E) (message_name (pName par)), pid)#})"
      by (rule run_ok_added [OF ok]) (use good s1 command(2) in auto)
    with as show ?thesis by simp
  qed
next
  case (data s e P i pid d s' e' as)
  then have ok: "run_ok E fresh s e P" and tab: "table_ok s" and eng: "engine_ok E e"
    by (auto simp: run_ok_def)
  from tab eng show ?case
  proof (cases rule: data_cases [where d = d and pid = pid])
    case ignored
    then have "omap_erase pid (m_processes s) = m_processes s"
      by (intro erase_absent) (auto simp: processes_def)
    with ignored data(4) have "write_onTimeout pid s = s" "e' = e" "s' = s"
      by (auto simp: write_onTimeout_def)
    then show ?thesis using run_ok_removed [OF ok data(2) eng] by simp
  next
    case (stored e1 n)
    with data(4) have "s' = write_onTimeout pid s" "e1 = e'" by auto
    moreover have "engine_ok E e1" using se.put_inv [OF eng stored(2)] .
    ultimately show ?thesis using run_ok_removed [OF ok data(2)] by simp
  qed
next
  case (timeout s e P i pid)
  then show ?case by (intro run_ok_removed) (auto simp: run_ok_def)
next
  case (shared s e P d e' n g)
  then show ?case using se.put_inv by (auto simp: run_ok_def)
qed

end
