(* ===== verification/Write_Properties.thy ===== *)
theory Write_Properties
  imports Write_Handle
begin

text \<open>
  The properties of the \<open>insert\<close> command: every command is answered, the answer says what was
  started, the process table does not leak, and a packet that arrives is stored once.
\<close>

interpretation write_cmd: command_handler "lib :: 'db env \<Rightarrow> ndn_lib"
  "\<lambda>E pid p i s. Inr (write_onInterest (lib E) pid p i s)" "\<lambda>E. table_ok"
proof unfold_locales
  fix E :: "'db env" and s pid p i
  assume tab: "table_ok s"
  from tab show "\<exists>s' as r. Inr (write_onInterest (lib E) pid p i s) = (Inr (s', as) :: _ result)
      \<and> table_ok s' \<and> sent as = [answer (lib E) i r]"
    by (cases rule: command_cases [where L = "lib E" and pid = pid and i = i and p = p])
      (use tab in auto)
qed

section \<open>Commands used by the witnesses\<close>

text \<open>An insert command for the packet \<open>cs\<close>, sent to the prefix \<open>/r/insert\<close>.\<close>

definition ref_command :: "bytes list \<Rightarrow> interest" where
  "ref_command cs = ref_interest [''r'', ''insert'', frames cs] True"

abbreviation ref_prefix :: name where
  "ref_prefix \<equiv> map generic [''r'', ''insert'']"

lemma ref_command_parameter:
  "extractParameter ref_lib (ref_command cs) ref_prefix = Inr (name_parameter cs)"
  "extractParameter ref_lib (ref_interest [''r'', ''insert''] True) ref_prefix
     = Inl (RuntimeError ''Name::get: Index is out of bounds'')"
  by (simp_all add: extractParameter_def ref_command_def ref_interest_def)

lemmas ref_parameter = ref_command_parameter ref_command_parameter [simplified list.map]

section \<open>Every command is answered\<close>

text \<open>
  A handler with a well-formed process table serves any sequence of insert commands, with
  any process ids, without an exception, and answers them in order, each with one packet under
  the command's name.
\<close>

theorem write_commands_answered:
  fixes E :: "'db env"
  assumes "table_ok s" and "packet_laws (lib E)"
  shows "\<exists>s' as. serve (\<lambda>pid p i s. Inr (write_onInterest (lib E) pid p i s)) cs s = Inr (s', as)
    \<and> table_ok s' \<and> map dName (sent as) = map (\<lambda>(pid, p, i). iName i) cs"
  using assms by (rule write_cmd.serve_answers)

theorem write_commands_answered_witness:
  "\<exists>s' as. serve (\<lambda>pid p i s. Inr (write_onInterest ref_lib pid p i s))
      [(7, ref_prefix, ref_command [''a'']), (7, ref_prefix, ref_interest [''r'', ''insert''] True)]
      write_new = Inr (s', as)
    \<and> map dName (sent as) = [map generic [''r'', ''insert'', frames [''a'']], map generic [''r'', ''insert'']]"
proof -
  let ?cs = "[(7, ref_prefix, ref_command [''a'']), (7, ref_prefix, ref_interest [''r'', ''insert''] True)]"
  have "packet_laws (lib ref_env)" by (simp add: ref_packet_laws)
  from write_commands_answered [OF table_new(1) this, of ?cs] show ?thesis
    by (auto simp: ref_command_def ref_interest_def)
qed

text \<open>
  C33: the answer to an insert command and what it starts. A command whose parameter cannot be
  read is refused with status 403: nothing else is done and the process table stays as it is.
  Any other is answered with status 100, its process id and no packet inserted; then exactly
  one interest is expressed, for the name in the parameter and for four seconds, whose
  callbacks carry the process id. The process is then in the table with status 300, and no
  other process is touched.
\<close>

theorem write_command_reply:
  assumes "table_ok s" and "packet_laws L" and "write_onInterest L pid p i s = (s', as)"
  shows "\<exists>d r. dName d = iName i \<and> decodeResponse L (dContent d) = Some r
    \<and> (case extractParameter L i p of
         Inl _ \<Rightarrow> statusCode r = 403 \<and> s' = s \<and> as = [PutData d]
       | Inr par \<Rightarrow> statusCode r = 100 \<and> processId r = pid \<and> insertNum r = 0
           \<and> as = [PutData d, ExpressInterest
                ((newInterest L (message_name (pName par)))\<lparr>lifetimeMs := Some 4000\<rparr>)
                (WriteData pid) (Some (WriteTimeout pid))]
           \<and> omap_find (m_processes s') pid = Some (r\<lparr>statusCode := 300\<rparr>)
           \<and> (\<forall>q. q \<noteq> pid \<longrightarrow> omap_find (m_processes s') q = omap_find (m_processes s) q))"
  using assms(1)
proof (cases rule: command_cases [where L = L and pid = pid and i = i and p = p])
  case (bad ex)
  with assms(3) show ?thesis
    by (intro exI [of _ "answer L i (status_only 403)"] exI [of _ "status_only 403"])
      (auto simp: answer_sel [OF assms(2)] status_only_def handler_simps)
next
  case (good par s1)
  with assms(3) have "s1 = s'" by simp
  moreover have "omap_find (m_processes s1) q = omap_find (m_processes s) q" if "q \<noteq> pid" for q
    using that good(1,2) by (auto simp: handler_simps Let_def)
  moreover have "omap_find (m_processes s1) pid = Some (pending_response pid)"
  proof -
    have "pid \<in> dom (omap_find (m_processes s1))" using good(4) by (simp add: processes_def)
    with good(3) show ?thesis by (auto simp: table_ok_def)
  qed
  ultimately show ?thesis
    using good assms(3)
    by (intro exI [of _ "answer L i ((pending_response pid)\<lparr>statusCode := 100\<rparr>)"]
        exI [of _ "(pending_response pid)\<lparr>statusCode := 100\<rparr>"])
      (auto simp: answer_sel [OF assms(2)] pending_response_def empty_response_def reply_def fetch_interest_def)
qed

theorem write_command_reply_witness:
  "\<exists>s' as. write_onInterest ref_lib 7 ref_prefix (ref_command [''a'', ''b'']) write_new = (s', as)
    \<and> omap_find (m_processes s') 7 \<noteq> None \<and> map (iName \<circ> fst) (expressed as) = [map generic [''a'', ''b'']]
    \<and> map dName (sent as) = [iName (ref_command [''a'', ''b''])]"
proof -
  obtain s' as where r: "write_onInterest ref_lib 7 ref_prefix (ref_command [''a'', ''b'']) write_new = (s', as)"
    by fastforce
  from write_command_reply [OF table_new(1) ref_packet_laws r] show ?thesis
    using r ref_packet_laws
    by (auto simp: ref_parameter table_new fetch_interest_def packet_laws_def
        name_parameter_def message_name_def)
qed

section \<open>Runs\<close>

text \<open>
  C9: the process table does not leak. Whatever commands, packets and timeouts have happened,
  every process in the table has status 300, has inserted nothing and has a fetch pending;
  when no fetch is pending the table is empty. If the random ids do not repeat those of
  pending fetches, the processes are exactly the pending fetches.
\<close>

theorem write_processes_pending:
  assumes "write_run E fresh e0 s e P" and "engine_ok E e0"
  shows "(\<forall>pid r. omap_find (m_processes s) pid = Some r \<longrightarrow>
       statusCode r = 300 \<and> processId r = pid \<and> insertNum r = 0 \<and> (\<exists>i. (i, pid) \<in># P))
    \<and> (P = {#} \<longrightarrow> m_processes s = omap_empty)
    \<and> (fresh \<longrightarrow> image_mset snd P = mset_set (processes s))"
proof -
  have ok: "run_ok E fresh s e P" using assms by (rule run_invariant)
  have row: "r = pending_response pid" "pid \<in># pending_ids P"
    if "omap_find (m_processes s) pid = Some r" for pid r
    using that ok unfolding run_ok_def table_ok_def processes_def by blast+
  have "statusCode r = 300 \<and> processId r = pid \<and> insertNum r = 0 \<and> (\<exists>i. (i, pid) \<in># P)"
    if "omap_find (m_processes s) pid = Some r" for pid r
    using row [OF that] by (auto simp: pending_response_def empty_response_def)
  moreover have "m_processes s = omap_empty" if "P = {#}"
    using row that by (intro omap_no_entries) (metis empty_iff image_mset_empty option.exhaust set_mset_empty)
  ultimately show ?thesis
    using ok unfolding run_ok_def by blast
qed

lemma ref_run:
  "\<exists>s. write_run ref_env True (ref_open []) s (ref_open [])
     {#(fetch_interest ref_lib (map generic [''a'']), 7)#}"
proof -
  obtain s as where r: "write_onInterest (lib ref_env) 7 ref_prefix (ref_command [''a'']) write_new = (s, as)"
    by fastforce
  from table_new(1) have "fetches as = [(fetch_interest ref_lib (map generic [''a'']), 7)]"
    by (cases rule: command_cases [where L = ref_lib and pid = 7 and i = "ref_command [''a'']"
          and p = ref_prefix])
      (use r in \<open>auto simp: ref_parameter handler_simps message_name_def name_parameter_def\<close>)
  with write_run.command [OF write_run.start _ r] show ?thesis by fastforce
qed

theorem write_processes_pending_witness:
  "\<exists>s P. write_run ref_env True (ref_open []) s (ref_open []) P \<and> processes s = {7}"
proof -
  obtain s where run: "write_run ref_env True (ref_open []) s (ref_open [])
     {#(fetch_interest ref_lib (map generic [''a'']), 7)#}"
    using ref_run by blast
  from write_processes_pending [OF run ref_open_ok] have "mset_set (processes s) = {#7#}"
    by simp
  then have "set_mset (mset_set (processes s)) = {7}" by simp
  with run show ?thesis by (auto simp: processes_finite)
qed

text \<open>
  C18: with ids that do not repeat, no packet that arrives is dropped. The handler calls \<open>put\<close> on
  it, leaves the storage as \<open>put\<close> does, emits the signal once with the name \<open>put\<close> returned, and
  ends the process. Either that name is the packet's own, renamed if so configured: then the
  packet is stored under it and no other entry has changed, and it is read back under it; or the
  database has refused the packet: then the name is empty and the store unchanged. A second
  packet for the same process changes nothing.
\<close>

theorem write_stores_packet:
  assumes run: "write_run E True e0 s e P" and "engine_ok E e0" and P: "(i, pid) \<in># P"
  shows "\<exists>s' e' n. se_put E e d = Inr (e', n, dName d) \<and> write_onData E e d pid s = Inr (s', e', [EmitInsertion n])
    \<and> (n = dName (as_stored E e d) \<and> stored E e' = (stored E e)(n \<mapsto> as_stored E e d)
          \<and> impl_get E e' n = Inr (Some (as_stored E e d))
       \<or> n = [] \<and> stored E e' = stored E e)
    \<and> pid \<notin> processes s' \<and> (\<forall>e'' d''. write_onData E e'' d'' pid s' = Inr (s', e'', []))"
proof -
  have ok: "run_ok E True s e P" using run assms(2) by (rule run_invariant)
  then have eng: "engine_ok E e" and tab: "table_ok s" and "pending_ids P = mset_set (processes s)"
    by (auto simp: run_ok_def)
  moreover have "pid \<in># pending_ids P" using P by force
  ultimately have mem: "pid \<in> processes s" by (simp only: finite_set_mset_mset_set [OF processes_finite])
  from tab eng show ?thesis
  proof (cases rule: data_cases [where d = d and pid = pid])
    case ignored
    with mem show ?thesis by blast
  next
    case (stored e' n)
    let ?s = "write_onTimeout pid s"
    have gone: "pid \<notin> processes ?s" by (simp add: timeout_effect)
    then have "write_onData E e'' d'' pid ?s = Inr (?s, e'', [])" for e'' d''
      by (auto simp: processes_def handler_simps)
    moreover have "impl_get E e' n = Inr (stored E e' n)"
      using se.get_holds [OF se.put_inv [OF eng stored(2)]] .
    ultimately show ?thesis
      using stored gone se.put_holds [OF eng stored(2)] by (intro exI [of _ ?s] exI [of _ e'] exI [of _ n]) auto
  qed
qed

theorem write_stores_packet_witness:
  "\<exists>s s' e'. write_onData ref_env (ref_open []) (ref_packet [''a''] ''x'') 7 s
     = Inr (s', e', [EmitInsertion [generic ''a'']])
   \<and> stored ref_env e' = [[generic ''a''] \<mapsto> ref_packet [''a''] ''x''] \<and> 7 \<notin> processes s'"
proof -
  let ?d = "ref_packet [''a''] ''x''" and ?e = "ref_open []"
  obtain s where run: "write_run ref_env True ?e s ?e {#(fetch_interest ref_lib (map generic [''a'']), 7)#}"
    using ref_run by blast
  have kept: "as_stored ref_env ?e ?d = ?d" "dName ?d = [generic ''a'']"
    by (simp_all add: as_stored_def ref_open_def)
  obtain e1 where "impl_put ref_env ?e ?d = Inr (e1, dName (as_stored ref_env ?e ?d))"
    using ref_put [OF ref_open_ok [of "[]"], of ?d] by metis
  then have put: "se_put ref_env ?e ?d = Inr (e1, [generic ''a''], dName ?d)"
    using kept by (simp add: se_put_def)
  from write_stores_packet [OF run ref_open_ok, of _ 7 ?d] put kept ref_open_stored [of "[]"] show ?thesis
    by fastforce
qed

text \<open>
  No command removes a packet: what was stored under a name when the handler started is
  stored, possibly overwritten, at the end of every run.
\<close>

theorem write_keeps_packets:
  assumes "write_run E fresh e0 s e P" and "engine_ok E e0" and "stored E e0 n \<noteq> None"
  shows "stored E e n \<noteq> None"
  using assms
proof (induction rule: write_run.induct)
  case (data s e P i pid d s' e' as)
  then have "run_ok E fresh s e P" by (intro run_invariant)
  then have eng: "engine_ok E e" and tab: "table_ok s" by (auto simp: run_ok_def)
  from tab eng show ?case
    by (cases rule: data_cases [where d = d and pid = pid])
      (use data se.put_keeps [OF eng] in auto)
next
  case (shared s e P d e' n' g)
  then have "engine_ok E e" using run_invariant by (force simp: run_ok_def)
  with shared show ?case using se.put_keeps by blast
qed auto

theorem write_keeps_packets_witness:
  "stored ref_env (ref_store [ref_packet [''a''] ''x'']) (map generic [''a'']) \<noteq> None"
  using write_keeps_packets [OF write_run.start ref_store(1) [of "[ref_packet [''a''] ''x'']"], of "map generic [''a'']"]
  by (simp add: ref_store(4))

end
