(* ===== verification/Fast_Repo.thy ===== *)
theory Fast_Repo
  imports Repo_Config Write_Properties
begin

text \<open>
  \<open>FastRepoImpl\<close> (\<open>fast-repo.cpp\<close>) and the start of the program in \<open>main\<close>: the handlers put
  together over one storage engine, the list of data prefixes that are served, and the steps
  of the event loop. The signals \<open>onDataInsertion\<close> of the handlers are connected to
  \<open>FastRepoImpl::onDataInsertion\<close> once for every command prefix.
\<close>

section \<open>State\<close>

datatype repo_callback = WriteCb write_callback | PatternCb pattern_callback

record ('db, 't) repo =
  repoConfig :: "'t config"
  repoStorage :: "'db engine"
  patternHandle :: pattern_handle
  writeHandle :: write_handle
  statusHandle :: status_handle
  writeSlots :: nat
  patternSlots :: nat

type_synonym 's outcome = "'s \<times> repo_callback action list"

section \<open>Construction and start\<close>

definition fastRepo ::
  "'db env \<Rightarrow> platform \<Rightarrow> 't config \<Rightarrow> ('db, 't) repo result" where
  "fastRepo E X cfg =
     (case storageEngine E (confDbPath cfg) (readOnly cfg) (confRenamePrefix cfg) of
        Inl ex \<Rightarrow> Inl ex
      | Inr e \<Rightarrow> Inr \<lparr>repoConfig = cfg, repoStorage = e, patternHandle = pattern_new (lib E) X,
          writeHandle = write_new, statusHandle = status_new, writeSlots = 0, patternSlots = 0\<rparr>)"

text \<open>One round of the loop in \<open>enableListening\<close>.\<close>

definition listen_prefix :: "name \<Rightarrow> ('db, 't) repo \<Rightarrow> ('db, 't) repo outcome" where
  "listen_prefix cmdPrefix r =
     (let sources = addStatusReportSource PatternStatus (addStatusReportSource RepoStatus (statusHandle r));
          (st, as) = status_listen cmdPrefix sources
      in (r\<lparr>statusHandle := st, writeSlots := Suc (writeSlots r), patternSlots := Suc (patternSlots r)\<rparr>,
          [RegisterPrefix cmdPrefix NoHandler CommandRegisterFailed] @ write_listen cmdPrefix @ pattern_listen cmdPrefix @ as))"

fun listen_all :: "name list \<Rightarrow> ('db, 't) repo \<Rightarrow> ('db, 't) repo outcome" where
  "listen_all [] r = (r, [])"
| "listen_all (p # ps) r =
     (let (r', as) = listen_prefix p r; (r'', bs) = listen_all ps r' in (r'', as @ bs))"

definition enableListening :: "('db, 't) repo \<Rightarrow> ('db, 't) repo outcome" where
  "enableListening r = listen_all (repoPrefixes (repoConfig r)) r"

text \<open>\<open>enableValidation\<close> has an empty body.\<close>

definition enableValidation :: "('db, 't) repo \<Rightarrow> ('db, 't) repo" where
  "enableValidation r = r"

definition add_data_prefixes :: "name list \<Rightarrow> ('db, 't) repo \<Rightarrow> ('db, 't) repo" where
  "add_data_prefixes ps r =
     r\<lparr>repoConfig := (repoConfig r)\<lparr>dataPrefixes := dataPrefixes (repoConfig r) @ ps\<rparr>\<rparr>"

text \<open>The completion callback of the scan, and the scan that calls it.\<close>

definition onScanCompleted :: "name list \<Rightarrow> ('db, 't) repo \<Rightarrow> ('db, 't) repo outcome" where
  "onScanCompleted ps r =
     (let r' = add_data_prefixes ps r
      in (r', concat (map read_listen (dataPrefixes (repoConfig r')))))"

definition initializeStorage :: "'db env \<Rightarrow> ('db, 't) repo \<Rightarrow> ('db, 't) repo outcome result" where
  "initializeStorage E r =
     (case scanForLongestPrefixes E (repoStorage r) of
        Inl ex \<Rightarrow> Inl ex
      | Inr (e', ps) \<Rightarrow> Inr (onScanCompleted ps (r\<lparr>repoStorage := e'\<rparr>)))"

text \<open>
  The part of \<open>main\<close> from the configuration to the first event: the task \<open>initializeStorage\<close>
  has dispatched runs first when the event loop starts, after the listening has been set up.
\<close>

definition main_start ::
  "'db env \<Rightarrow> platform \<Rightarrow> 't conf_lib \<Rightarrow> args \<Rightarrow> ('db, 't) repo outcome result" where
  "main_start E X C a =
     rbind (main_config C (lib E) a) (\<lambda>cfg.
     rbind (fastRepo E X cfg) (\<lambda>r0.
       let (r1, as) = (if readOnly cfg then (r0, []) else enableListening r0);
           r2 = (if argValidate a then enableValidation r1 else r1)
       in rbind (initializeStorage E r2) (\<lambda>(r3, bs). Inr (r3, as @ bs))))"

section \<open>Inserted data\<close>

definition onDataInsertion :: "name \<Rightarrow> ('db, 't) repo \<Rightarrow> ('db, 't) repo outcome" where
  "onDataInsertion n r =
     (if \<exists>p \<in> set (dataPrefixes (repoConfig r)). prefix p n then (r, [])
      else (add_data_prefixes [n] r, read_listen n))"

text \<open>An emitted signal calls the slot as often as it is connected.\<close>

fun emit :: "nat \<Rightarrow> name \<Rightarrow> ('db, 't) repo \<Rightarrow> ('db, 't) repo outcome" where
  "emit 0 n r = (r, [])"
| "emit (Suc k) n r =
     (let (r', as) = onDataInsertion n r; (r'', bs) = emit k n r' in (r'', as @ bs))"

text \<open>
  The calls a handler makes, with its signals replaced by what the connected slots do.
\<close>

fun relay :: "nat \<Rightarrow> ('c \<Rightarrow> repo_callback) \<Rightarrow> 'c action list \<Rightarrow> ('db, 't) repo \<Rightarrow> ('db, 't) repo outcome" where
  "relay k f [] r = (r, [])"
| "relay k f (a # as) r =
     (case a of
        EmitInsertion n \<Rightarrow>
          (let (r1, bs) = emit k n r; (r2, cs) = relay k f as r1 in (r2, bs @ cs))
      | _ \<Rightarrow> (let (r2, cs) = relay k f as r in (r2, map_action f a # cs)))"

definition relay_write :: "write_callback action list \<Rightarrow> ('db, 't) repo \<Rightarrow> ('db, 't) repo outcome" where
  "relay_write as r = relay (writeSlots r) WriteCb as r"

definition relay_pattern :: "pattern_callback action list \<Rightarrow> ('db, 't) repo \<Rightarrow> ('db, 't) repo outcome" where
  "relay_pattern as r = relay (patternSlots r) PatternCb as r"

section \<open>Status\<close>

definition repo_statusReport ::
  "ndn_lib \<Rightarrow> json_lib \<Rightarrow> ('db, 't) repo \<Rightarrow> (string \<times> string) result" where
  "repo_statusReport L J r =
     rbind (getKeysNum (repoStorage r)) (\<lambda>keys.
     rbind (getPayloadSize (repoStorage r)) (\<lambda>size.
     rbind (json_do
       (map (\<lambda>n. json_at ''control'' (json_push_back (JString (toUri L n)))) (repoPrefixes (repoConfig r))
        @ map (\<lambda>n. json_at ''data'' (json_push_back (JString (toUri L n)))) (dataPrefixes (repoConfig r))
        @ [json_at ''storage'' (json_at ''access'' (json_assign (JString
              (if readOnly (repoConfig r) then ''read-only'' else ''read-write'')))),
           json_at ''storage'' (json_at ''nKeys'' (json_assign (JInt (uint keys)))),
           json_at ''storage'' (json_at ''size'' (json_assign (JInt (uint size)))),
           json_at ''storage'' (json_at ''rename'' (json_assign (JString (getRenamePrefix (repoStorage r)))))])
       JNull) (\<lambda>status.
     rbind (json_dump J status) (\<lambda>report. Inr (''repo'', report)))))"

definition poll_source ::
  "ndn_lib \<Rightarrow> platform \<Rightarrow> ('db, 't) repo \<Rightarrow> status_source \<Rightarrow> (string \<times> string) result" where
  "poll_source L X r src =
     (case src of
        RepoStatus \<Rightarrow> repo_statusReport L (jsonLib X) r
      | PatternStatus \<Rightarrow> pattern_statusReport L X (patternHandle r))"

section \<open>Steps of the event loop\<close>

text \<open>
  What the face delivers: an interest at an endpoint (with the prefix it was registered with
  and the random bytes the handler may draw), a packet or a timeout for an interest expressed
  before, a timer, the failure of a registration. A stream recorder, which fetches on its own,
  calls the function it was given with a packet.
\<close>

datatype event =
    InterestAt endpoint name interest bytes
  | DataFor repo_callback data
  | TimeoutOf repo_callback
  | TimerFires repo_callback
  | RecorderStores store_fun data
  | RegisterFailed registration_failed name

definition interest_step ::
  "'db env \<Rightarrow> platform \<Rightarrow> endpoint \<Rightarrow> name \<Rightarrow> interest \<Rightarrow> bytes \<Rightarrow> ('db, 't) repo
     \<Rightarrow> ('db, 't) repo outcome result" where
  "interest_step E X ep p i rnd r =
     (case ep of
        InsertCommand \<Rightarrow>
          (let (h, as) = write_onInterest (lib E) (generateProcessId rnd) p i (writeHandle r)
           in Inr (relay_write as (r\<lparr>writeHandle := h\<rparr>)))
      | PatternCommand \<Rightarrow>
          (let (h, as) = pattern_onInterest (lib E) X (getRenamePrefix (repoStorage r)) p i (patternHandle r)
           in Inr (relay_pattern as (r\<lparr>patternHandle := h\<rparr>)))
      | CancelCommand \<Rightarrow>
          rbind (onCancelRequest (lib E) p i (patternHandle r))
            (\<lambda>(h, as). Inr (relay_pattern as (r\<lparr>patternHandle := h\<rparr>)))
      | ReadInterest \<Rightarrow> rbind (read_onInterest E (repoStorage r) i) (\<lambda>as. Inr (r, as))
      | StatusInterest k \<Rightarrow>
          rbind (onObjectNeeded (jsonLib X) (poll_source (lib E) X r) (k, p) (statusHandle r))
            (\<lambda>doc. Inr (r, case doc of None \<Rightarrow> [] | Some text \<Rightarrow> [PublishObject p text]))
      | NoHandler \<Rightarrow> Inr (r, []))"

definition data_step ::
  "'db env \<Rightarrow> repo_callback \<Rightarrow> data \<Rightarrow> ('db, 't) repo \<Rightarrow> ('db, 't) repo outcome result" where
  "data_step E cb d r =
     (case cb of
        WriteCb (WriteData pid) \<Rightarrow>
          rbind (write_onData E (repoStorage r) d pid (writeHandle r))
            (\<lambda>(h, e, as). Inr (relay_write as (r\<lparr>writeHandle := h, repoStorage := e\<rparr>)))
      | PatternCb cb' \<Rightarrow>
          rbind (pattern_data E (repoStorage r) cb' d (patternHandle r))
            (\<lambda>(h, e, as). Inr (relay_pattern as (r\<lparr>patternHandle := h, repoStorage := e\<rparr>)))
      | _ \<Rightarrow> Inl (UndefinedBehaviour ''not a data callback''))"

definition timer_step ::
  "'db env \<Rightarrow> repo_callback \<Rightarrow> ('db, 't) repo \<Rightarrow> ('db, 't) repo outcome result" where
  "timer_step E cb r =
     (case cb of
        PatternCb cb' \<Rightarrow>
          rbind (pattern_timer (lib E) cb' (patternHandle r)) (\<lambda>as. Inr (relay_pattern as r))
      | WriteCb _ \<Rightarrow> Inl (UndefinedBehaviour ''not a timer''))"

definition timeout_step :: "repo_callback \<Rightarrow> ('db, 't) repo \<Rightarrow> ('db, 't) repo" where
  "timeout_step cb r =
     (case cb of
        WriteCb (WriteTimeout pid) \<Rightarrow> r\<lparr>writeHandle := write_onTimeout pid (writeHandle r)\<rparr>
      | _ \<Rightarrow> r)"

definition recorder_step ::
  "'db env \<Rightarrow> store_fun \<Rightarrow> data \<Rightarrow> ('db, 't) repo \<Rightarrow> ('db, 't) repo outcome result" where
  "recorder_step E storeFun d r =
     rbind (recorder_store E storeFun d (repoStorage r)) (\<lambda>e. Inr (r\<lparr>repoStorage := e\<rparr>, []))"

text \<open>
  The failure callbacks: that of a data prefix shuts the face down, that of a command prefix
  throws, that of the status prefix prints a message.
\<close>

definition register_failed_step ::
  "registration_failed \<Rightarrow> ('db, 't) repo \<Rightarrow> ('db, 't) repo outcome result" where
  "register_failed_step f r =
     (case f of
        ReadRegisterFailed \<Rightarrow> Inr (r, read_onRegisterFailed)
      | CommandRegisterFailed \<Rightarrow> Inl (RuntimeError ''Command prefix registration failed'')
      | StatusRegisterFailed \<Rightarrow> Inr (r, []))"

definition repo_step ::
  "'db env \<Rightarrow> platform \<Rightarrow> event \<Rightarrow> ('db, 't) repo \<Rightarrow> ('db, 't) repo outcome result" where
  "repo_step E X ev r =
     (case ev of
        InterestAt ep p i rnd \<Rightarrow> interest_step E X ep p i rnd r
      | DataFor cb d \<Rightarrow> data_step E cb d r
      | TimeoutOf cb \<Rightarrow> Inr (timeout_step cb r, [])
      | TimerFires cb \<Rightarrow> timer_step E cb r
      | RecorderStores storeFun d \<Rightarrow> recorder_step E storeFun d r
      | RegisterFailed f p \<Rightarrow> register_failed_step f r)"

section \<open>Signals\<close>

text \<open>
  The signals \<open>main\<close> adds to its signal set, and the handler of the one wait it starts. The event
  loop itself, \<open>io_service::run\<close>, is a library's: of the process the model keeps whether the
  loop has been told to stop, what was printed, and how often a backtrace was written.
\<close>

datatype caught_signal = SIGINT | SIGTERM | SIGABRT | SIGSEGV | SIGHUP | SIGUSR1 | SIGUSR2

record process =
  stopped :: bool
  console :: "string list"
  backtraces :: nat

definition terminate :: "(caught_signal \<Rightarrow> string) \<Rightarrow> bool \<Rightarrow> caught_signal \<Rightarrow> process \<Rightarrow> process" where
  "terminate strsignal failed signalNo s =
     (if failed then s
      else
        let s1 = s\<lparr>stopped := True, console := console s @ [''Caught signal '' @ [CHR 0x27]
                   @ strsignal signalNo @ [CHR 0x27] @ '', exiting...'']\<rparr>
        in if signalNo = SIGABRT \<or> signalNo = SIGSEGV then s1\<lparr>backtraces := Suc (backtraces s1)\<rparr>
           else s1)"

lemmas [repo_simps] =
  interest_step_def data_step_def timer_step_def timeout_step_def repo_step_def
  recorder_step_def register_failed_step_def
  relay_write_def relay_pattern_def

end
