(* ===== verification/Repo_Run.thy ===== *)
theory Repo_Run
  imports Fast_Repo
begin

text \<open>
  Runs of the whole repository from its start, and the invariant they keep: every packet that
  has been stored since the start, those of stream recorders apart, is under a data prefix the
  repository has registered.
\<close>

section \<open>What the repository has asked the face for\<close>

datatype repo_call =
    RTimer repo_callback
  | RFetch interest repo_callback "repo_callback option"

fun repo_calls :: "repo_callback action list \<Rightarrow> repo_call list" where
  "repo_calls [] = []"
| "repo_calls (CallLater t cb # as) = RTimer cb # repo_calls as"
| "repo_calls (ExpressInterest i cb t # as) = RFetch i cb t # repo_calls as"
| "repo_calls (_ # as) = repo_calls as"

text \<open>A trace is the list of all actions so far; the endpoints that are served at a prefix.\<close>

definition served :: "repo_callback action list \<Rightarrow> name \<Rightarrow> endpoint \<Rightarrow> bool" where
  "served T p ep \<longleftrightarrow> SetInterestFilter p ep \<in> set T \<or> (\<exists>f. RegisterPrefix p ep f \<in> set T)"

definition commands :: "endpoint set" where
  "commands = {InsertCommand, PatternCommand, CancelCommand}"

section \<open>Runs\<close>

text \<open>
  A run starts after \<open>main_start\<close> (state \<open>r0\<close>, actions \<open>T0\<close>). An interest arrives at an
  endpoint that is served; a pending interest ends with a packet its name is a prefix of, or
  with a timeout, for which there may be no callback; a pending timer fires. A recorder that has
  been started may store a packet at any time, whatever its name, and a registration that has
  been asked for may turn out to have failed. A face that was shut down need not be silent here.
\<close>

inductive repo_run ::
  "'db env \<Rightarrow> platform \<Rightarrow> ('db, 't) repo \<Rightarrow> repo_callback action list
    \<Rightarrow> ('db, 't) repo \<Rightarrow> repo_callback action list \<Rightarrow> repo_call multiset \<Rightarrow> bool"
  for E :: "'db env" and X :: platform and r0 :: "('db, 't) repo"
    and T0 :: "repo_callback action list" where
  start: "repo_run E X r0 T0 r0 T0 {#}"
| interest: "repo_run E X r0 T0 r T P \<Longrightarrow> served T p ep \<Longrightarrow> prefix p (iName i) \<Longrightarrow>
    repo_step E X (InterestAt ep p i rnd) r = Inr (r', as) \<Longrightarrow>
    repo_run E X r0 T0 r' (T @ as) (P + mset (repo_calls as))"
| data: "repo_run E X r0 T0 r T P \<Longrightarrow> RFetch i cb t \<in># P \<Longrightarrow> prefix (iName i) (dName d) \<Longrightarrow>
    repo_step E X (DataFor cb d) r = Inr (r', as) \<Longrightarrow>
    repo_run E X r0 T0 r' (T @ as) (P - {#RFetch i cb t#} + mset (repo_calls as))"
| timeout: "repo_run E X r0 T0 r T P \<Longrightarrow> RFetch i cb (Some t) \<in># P \<Longrightarrow>
    repo_step E X (TimeoutOf t) r = Inr (r', as) \<Longrightarrow>
    repo_run E X r0 T0 r' (T @ as) (P - {#RFetch i cb (Some t)#})"
| expired: "repo_run E X r0 T0 r T P \<Longrightarrow> RFetch i cb None \<in># P \<Longrightarrow>
    repo_run E X r0 T0 r T (P - {#RFetch i cb None#})"
| timer: "repo_run E X r0 T0 r T P \<Longrightarrow> RTimer cb \<in># P \<Longrightarrow>
    repo_step E X (TimerFires cb) r = Inr (r', as) \<Longrightarrow>
    repo_run E X r0 T0 r' (T @ as) (P - {#RTimer cb#} + mset (repo_calls as))"
| recorded: "repo_run E X r0 T0 r T P \<Longrightarrow> StartRecorder stream f \<in> set T \<Longrightarrow>
    repo_step E X (RecorderStores f d) r = Inr (r', as) \<Longrightarrow>
    repo_run E X r0 T0 r' (T @ as) (P + mset (repo_calls as))"
| unregistered: "repo_run E X r0 T0 r T P \<Longrightarrow> RegisterPrefix p ep f \<in> set T \<Longrightarrow>
    repo_step E X (RegisterFailed f p) r = Inr (r', as) \<Longrightarrow>
    repo_run E X r0 T0 r' (T @ as) (P + mset (repo_calls as))"

section \<open>Runs with their events\<close>

text \<open>
  With the actions \<open>T\<close> asked for so far and the calls \<open>P\<close> pending, what can be delivered next. The
  last argument is what stays pending.
\<close>

inductive deliverable ::
  "repo_callback action list \<Rightarrow> repo_call multiset \<Rightarrow> event \<Rightarrow> repo_call multiset \<Rightarrow> bool"
  for T :: "repo_callback action list" and P :: "repo_call multiset" where
  interest: "served T p ep \<Longrightarrow> prefix p (iName i) \<Longrightarrow> deliverable T P (InterestAt ep p i rnd) P"
| data: "RFetch i cb t \<in># P \<Longrightarrow> prefix (iName i) (dName d) \<Longrightarrow>
    deliverable T P (DataFor cb d) (P - {#RFetch i cb t#})"
| timeout: "RFetch i cb (Some t) \<in># P \<Longrightarrow>
    deliverable T P (TimeoutOf t) (P - {#RFetch i cb (Some t)#})"
| timer: "RTimer cb \<in># P \<Longrightarrow> deliverable T P (TimerFires cb) (P - {#RTimer cb#})"
| recorded: "StartRecorder stream f \<in> set T \<Longrightarrow> deliverable T P (RecorderStores f d) P"
| unregistered: "RegisterPrefix p ep f \<in> set T \<Longrightarrow> deliverable T P (RegisterFailed f p) P"

text \<open>The runs of the repository once more, with the sequence of events that were handled.\<close>

inductive session ::
  "'db env \<Rightarrow> platform \<Rightarrow> ('db, 't) repo \<Rightarrow> repo_callback action list \<Rightarrow> event list
    \<Rightarrow> ('db, 't) repo \<Rightarrow> repo_callback action list \<Rightarrow> repo_call multiset \<Rightarrow> bool"
  for E :: "'db env" and X :: platform and r0 :: "('db, 't) repo"
    and T0 :: "repo_callback action list" where
  start: "session E X r0 T0 [] r0 T0 {#}"
| event: "session E X r0 T0 evs r T P \<Longrightarrow> deliverable T P ev Q \<Longrightarrow> repo_step E X ev r = Inr (r', as) \<Longrightarrow>
    session E X r0 T0 (evs @ [ev]) r' (T @ as) (Q + mset (repo_calls as))"
| expired: "session E X r0 T0 evs r T P \<Longrightarrow> RFetch i cb None \<in># P \<Longrightarrow>
    session E X r0 T0 evs r T (P - {#RFetch i cb None#})"

lemma session_run: "session E X r0 T0 evs r T P \<Longrightarrow> repo_run E X r0 T0 r T P"
proof (induction rule: session.induct)
  case (event evs r T P ev Q r' as)
  from event(2) show ?case
  proof cases
    case (timeout i cb t)
    with event(3) have "as = []" by (simp add: repo_step_def)
    with event timeout show ?thesis using repo_run.timeout by fastforce
  qed (use event in \<open>blast intro: repo_run.intros\<close>)+
qed (auto intro: repo_run.intros)

lemma run_session: "repo_run E X r0 T0 r T P \<Longrightarrow> \<exists>evs. session E X r0 T0 evs r T P"
proof (induction rule: repo_run.induct)
  case (timeout r T P i cb t r' as)
  then obtain evs where "session E X r0 T0 evs r T P" by blast
  moreover from timeout have "as = []" by (simp add: repo_step_def)
  ultimately show ?case
    using session.event [OF _ deliverable.timeout [OF timeout(2)] timeout(3)] by fastforce
qed (blast intro: session.intros deliverable.intros)+

text \<open>The steps alone, without what makes them possible.\<close>

fun repo_steps ::
  "'db env \<Rightarrow> platform \<Rightarrow> event list \<Rightarrow> ('db, 't) repo outcome \<Rightarrow> ('db, 't) repo outcome result" where
  "repo_steps E X [] r = Inr r"
| "repo_steps E X (ev # evs) (r, as) =
     rbind (repo_step E X ev r) (\<lambda>(r', bs). repo_steps E X evs (r', as @ bs))"

lemma rbind_assoc: "rbind (rbind m f) g = rbind m (\<lambda>x. rbind (f x) g)"
  by (cases m) simp_all

lemma repo_steps_append:
  "repo_steps E X (xs @ ys) r = rbind (repo_steps E X xs r) (repo_steps E X ys)"
  by (induction E X xs r rule: repo_steps.induct) (simp_all add: rbind_assoc split_def)

lemma session_steps: "session E X r0 T0 evs r T P \<Longrightarrow> repo_steps E X evs (r0, T0) = Inr (r, T)"
  by (induction rule: session.induct) (simp_all add: repo_steps_append)

section \<open>The signal's slots\<close>

definition covered :: "('db, 't) repo \<Rightarrow> name \<Rightarrow> bool" where
  "covered r n \<longleftrightarrow> (\<exists>p \<in> set (dataPrefixes (repoConfig r)). prefix p n)"

lemma covered_extends: "covered r n \<Longrightarrow> prefix n m \<Longrightarrow> covered r m"
  unfolding covered_def by (meson prefix_order.trans)

lemma covered_add [simp]:
  "covered (add_data_prefixes ps r) n \<longleftrightarrow> covered r n \<or> (\<exists>p \<in> set ps. prefix p n)"
  by (auto simp: covered_def add_data_prefixes_def)

lemma add_data_prefixes_sel [simp]:
  "repoStorage (add_data_prefixes ps r) = repoStorage r"
  "patternHandle (add_data_prefixes ps r) = patternHandle r"
  "writeHandle (add_data_prefixes ps r) = writeHandle r"
  "statusHandle (add_data_prefixes ps r) = statusHandle r"
  "writeSlots (add_data_prefixes ps r) = writeSlots r"
  "patternSlots (add_data_prefixes ps r) = patternSlots r"
  "dataPrefixes (repoConfig (add_data_prefixes ps r)) = dataPrefixes (repoConfig r) @ ps"
  by (simp_all add: add_data_prefixes_def)

lemma add_data_prefixes_add [simp]:
  "add_data_prefixes qs (add_data_prefixes ps r) = add_data_prefixes (ps @ qs) r"
  "add_data_prefixes [] r = r"
  by (simp_all add: add_data_prefixes_def)

lemma onDataInsertion_cases:
  "onDataInsertion n r = (if covered r n then (r, []) else (add_data_prefixes [n] r, [RegisterPrefix n ReadInterest ReadRegisterFailed]))"
  by (simp add: onDataInsertion_def covered_def read_listen_def)

lemma emit_covered: "covered r n \<Longrightarrow> emit k n r = (r, [])"
  by (induction k) (simp_all add: onDataInsertion_cases)

text \<open>However often the slot is connected, a name is registered once.\<close>

lemma emit_once: "emit (Suc k) n r = onDataInsertion n r"
proof (cases "covered r n")
  case True
  then show ?thesis by (simp add: emit_covered onDataInsertion_cases)
next
  case False
  then have "covered (add_data_prefixes [n] r) n" by simp
  then show ?thesis by (simp add: emit_covered onDataInsertion_cases False)
qed

text \<open>
  The locale of a slot list: what the handlers rely on when they emit. The emission adds
  prefixes, registers those it adds, and covers the name if anything is connected.
\<close>

locale insertion_listener =
  fixes notify :: "nat \<Rightarrow> name \<Rightarrow> 'r \<Rightarrow> 'r \<times> 'c action list"
    and prefixes :: "'r \<Rightarrow> name list"
  assumes notify_grows: "notify k n r = (r', as) \<Longrightarrow>
      \<exists>ps. prefixes r' = prefixes r @ ps \<and> (\<forall>p \<in> set ps. RegisterPrefix p ReadInterest ReadRegisterFailed \<in> set as)"
    and notify_covers: "notify k n r = (r', as) \<Longrightarrow> 0 < k \<Longrightarrow> \<exists>p \<in> set (prefixes r'). prefix p n"
    and notify_quiet: "\<exists>p \<in> set (prefixes r). prefix p n \<Longrightarrow> notify k n r = (r, [])"
begin

lemma notify_again: "notify k n r = (r', as) \<Longrightarrow> 0 < k \<Longrightarrow> notify j n r' = (r', [])"
  using notify_covers notify_quiet by blast

lemma notify_registered:
  assumes "notify k n r = (r', as)" and "\<forall>p \<in> set (prefixes r). RegisterPrefix p ReadInterest ReadRegisterFailed \<in> set T"
  shows "\<forall>p \<in> set (prefixes r'). RegisterPrefix p ReadInterest ReadRegisterFailed \<in> set (T @ as)"
proof -
  obtain ps where "prefixes r' = prefixes r @ ps" "\<forall>p \<in> set ps. RegisterPrefix p ReadInterest ReadRegisterFailed \<in> set as"
    using notify_grows [OF assms(1)] by blast
  with assms(2) show ?thesis by auto
qed

end

interpretation slots: insertion_listener emit "\<lambda>r. dataPrefixes (repoConfig r)"
proof unfold_locales
  fix k n and r r' :: "('db, 't) repo" and as
  assume e: "emit k n r = (r', as)"
  have step: "emit k n r = (if k = 0 then (r, []) else onDataInsertion n r)"
    using emit_once [of _ n r] by (cases k) simp_all
  from e step show "\<exists>ps. dataPrefixes (repoConfig r') = dataPrefixes (repoConfig r) @ ps
      \<and> (\<forall>p \<in> set ps. RegisterPrefix p ReadInterest ReadRegisterFailed \<in> set as)"
    by (auto simp: onDataInsertion_cases split: if_splits)
  assume "0 < k"
  with e step have "covered r' n"
    by (auto simp: onDataInsertion_cases split: if_splits)
  then show "\<exists>p \<in> set (dataPrefixes (repoConfig r')). prefix p n" by (simp add: covered_def)
next
  fix n k and r :: "('db, 't) repo"
  assume "\<exists>p \<in> set (dataPrefixes (repoConfig r)). prefix p n"
  then show "emit k n r = (r, [])" by (intro emit_covered) (simp add: covered_def)
qed

lemma emit_effect:
  assumes "emit k n r = (r', as)"
  shows "\<exists>ps. r' = add_data_prefixes ps r \<and> as = map (\<lambda>p. RegisterPrefix p ReadInterest ReadRegisterFailed) ps"
proof (cases k)
  case 0
  with assms show ?thesis by (intro exI [of _ "[]"]) simp
next
  case (Suc j)
  with assms show ?thesis
    by (intro exI [of _ "if covered r n then [] else [n]"])
      (auto simp: emit_once onDataInsertion_cases simp del: emit.simps split: if_splits)
qed

section \<open>The effect of one step\<close>

lemma repo_calls_append [simp]: "repo_calls (as @ bs) = repo_calls as @ repo_calls bs"
  by (induction as rule: repo_calls.induct) auto

lemma repo_calls_registers [simp]:
  "repo_calls (map (\<lambda>p. RegisterPrefix p ep f) ps) = []"
  by (induction ps) auto

lemma relay_effect:
  assumes "relay k f as r = (r', bs)"
  shows "\<exists>ps. r' = add_data_prefixes ps r \<and> (\<forall>p \<in> set ps. RegisterPrefix p ReadInterest ReadRegisterFailed \<in> set bs)
     \<and> (0 < k \<longrightarrow> (\<forall>n \<in> set (signalled as). covered r' n))
     \<and> repo_calls bs = repo_calls (map (map_action f) as)"
  using assms
proof (induction as arbitrary: r r' bs)
  case Nil
  then show ?case by (intro exI [of _ "[]"]) simp
next
  case (Cons a as)
  show ?case
  proof (cases "\<exists>n. a = EmitInsertion n")
    case True
    then obtain n where a: "a = EmitInsertion n" by blast
    obtain r1 b1 where e: "emit k n r = (r1, b1)" by fastforce
    obtain r2 b2 where rel: "relay k f as r1 = (r2, b2)" by fastforce
    from Cons.prems a e rel have res: "r' = r2" "bs = b1 @ b2" by simp_all
    obtain qs where qs: "r1 = add_data_prefixes qs r" "b1 = map (\<lambda>p. RegisterPrefix p ReadInterest ReadRegisterFailed) qs"
      using emit_effect [OF e] by blast
    obtain ps where ps: "r2 = add_data_prefixes ps r1" "\<forall>p \<in> set ps. RegisterPrefix p ReadInterest ReadRegisterFailed \<in> set b2"
      "0 < k \<longrightarrow> (\<forall>n \<in> set (signalled as). covered r2 n)"
      "repo_calls b2 = repo_calls (map (map_action f) as)"
      using Cons.IH [OF rel] by blast
    have "covered r2 n" if "0 < k"
      using slots.notify_covers [OF e that] ps(1) by (auto simp: covered_def)
    with a res qs ps show ?thesis
      by (intro exI [of _ "qs @ ps"]) auto
  next
    case False
    obtain r2 b2 where rel: "relay k f as r = (r2, b2)" by fastforce
    with False Cons.prems have res: "r' = r2" "bs = map_action f a # b2"
      by (cases a; auto)+
    have sig: "signalled (a # as) = signalled as" using False by (cases a) auto
    obtain ps where "r2 = add_data_prefixes ps r" "\<forall>p \<in> set ps. RegisterPrefix p ReadInterest ReadRegisterFailed \<in> set b2"
      "0 < k \<longrightarrow> (\<forall>n \<in> set (signalled as). covered r2 n)"
      "repo_calls b2 = repo_calls (map (map_action f) as)"
      using Cons.IH [OF rel] by blast
    with res sig show ?thesis
      by (intro exI [of _ ps]) (cases a; auto)
  qed
qed

text \<open>The name under which a packet is stored, with or without renaming.\<close>

definition stored_as :: "'db env \<Rightarrow> 'db engine \<Rightarrow> name \<Rightarrow> name" where
  "stored_as E e n = ofUri (lib E) (renamePrefix e) @ n"

lemma as_stored_name: "env_ok E \<Longrightarrow> dName (as_stored E e d) = stored_as E e (dName d)"
  using uri_lawsD(7) [OF env_uri, of E] env_packet [of E]
  by (auto simp: as_stored_def stored_as_def renamed_data_def packet_laws_def)

lemma put_outcome:
  assumes "engine_ok E e" and "se_put E e d = Inr (e', n, g)"
  shows "engine_ok E e' \<and> renamePrefix e' = renamePrefix e
     \<and> (\<forall>m. stored E e' m \<noteq> None \<longrightarrow> stored E e m \<noteq> None \<or> m = n \<and> n = stored_as E e (dName d))"
proof -
  have "impl_put E e d = Inr (e', n)" using assms(2) by (auto simp: se_put_def split: sum.splits)
  from put_refines [OF assms(1) this] as_stored_name [OF engine_env [OF assms(1)]] show ?thesis
    by auto
qed

lemma write_data_outcome:
  assumes "write_onData E e d pid s = Inr (s', e', as)"
  shows "e' = e \<and> as = [] \<or> (\<exists>n g. se_put E e d = Inr (e', n, g) \<and> as = [EmitInsertion n])"
  using assms by (auto simp: handler_simps Let_def split: option.splits if_splits sum.splits)

lemma pattern_data_outcome:
  assumes "pattern_data E e cb d s = Inr (s', e', as)"
  obtains a c c' n g where "cb = CounterOnData a" "omap_find (heap s) a = Some (CounterObject c)"
    "counter c \<noteq> None" "se_put E e d = Inr (e', n, g)"
    "s' = s\<lparr>heap := omap_store a (CounterObject c') (heap s)\<rparr>" "fetchPrefix c' = fetchPrefix c"
    "signalled as = []" "expressed as = []"
proof -
  from assms obtain a c where cb: "cb = CounterOnData a" "omap_find (heap s) a = Some (CounterObject c)"
    by (auto simp: pattern_data_def split: pattern_callback.splits option.splits pattern_object.splits)
  with assms obtain c' where c': "counter_onData E e a d c = Inr (c', e', as)"
    "s' = s\<lparr>heap := omap_store a (CounterObject c') (heap s)\<rparr>"
    by (auto simp: pattern_data_def split: sum.splits)
  then obtain n g where "se_put E e d = Inr (e', n, g)"
    by (auto simp: counter_onData_def split: sum.splits option.splits if_splits)
  with cb c' show thesis
    by (intro that [of a c n g c'])
      (auto simp: counter_onData_def split: sum.splits option.splits if_splits)
qed

lemma pattern_timer_outcome:
  assumes "pattern_timer L cb s = Inr as"
  shows "as = [] \<or> (\<exists>a c n. omap_find (heap s) a = Some (CounterObject c) \<and> counter c \<noteq> None
     \<and> as = [ExpressInterest (counter_interest L (fetchPrefix c) n) (CounterOnData a) None])"
  using assms
  by (auto simp: pattern_timer_def counter_doFetch_def
      split: pattern_callback.splits option.splits pattern_object.splits if_splits)

section \<open>The invariant\<close>

text \<open>
  \<open>base\<close> is the set of names that were stored at the start. Slots are connected as soon as a
  command can arrive; every counter pattern and every interest of one is below a data prefix.
\<close>

definition call_covered :: "'db env \<Rightarrow> ('db, 't) repo \<Rightarrow> repo_call \<Rightarrow> bool" where
  "call_covered E r x \<longleftrightarrow>
     (case x of RFetch i (PatternCb _) _ \<Rightarrow> covered r (stored_as E (repoStorage r) (iName i)) | _ \<Rightarrow> True)"

definition connected :: "('db, 't) repo \<Rightarrow> repo_callback action list \<Rightarrow> repo_call multiset \<Rightarrow> bool" where
  "connected r T P \<longleftrightarrow> writeSlots r = patternSlots r
     \<and> (writeSlots r = 0 \<longrightarrow> P = {#} \<and> (\<forall>p. \<forall>ep \<in> commands. \<not> served T p ep))"

definition repo_inv ::
  "'db env \<Rightarrow> name set \<Rightarrow> ('db, 't) repo \<Rightarrow> repo_callback action list \<Rightarrow> repo_call multiset \<Rightarrow> bool" where
  "repo_inv E base r T P \<longleftrightarrow> engine_ok E (repoStorage r) \<and> connected r T P \<and> table_ok (writeHandle r)
     \<and> (\<forall>n. stored E (repoStorage r) n \<noteq> None \<longrightarrow> n \<in> base \<or> covered r n)
     \<and> (\<forall>p \<in> set (dataPrefixes (repoConfig r)). RegisterPrefix p ReadInterest ReadRegisterFailed \<in> set T)
     \<and> (\<forall>a c. omap_find (heap (patternHandle r)) a = Some (CounterObject c) \<and> counter c \<noteq> None
          \<longrightarrow> covered r (stored_as E (repoStorage r) (fetchPrefix c)))
     \<and> (\<forall>x. x \<in># P \<longrightarrow> call_covered E r x)"

lemma repo_invD:
  assumes "repo_inv E base r T P"
  shows "engine_ok E (repoStorage r)" and "connected r T P"
    and "stored E (repoStorage r) n \<noteq> None \<Longrightarrow> n \<in> base \<or> covered r n"
    and "p \<in> set (dataPrefixes (repoConfig r)) \<Longrightarrow> RegisterPrefix p ReadInterest ReadRegisterFailed \<in> set T"
    and "omap_find (heap (patternHandle r)) a = Some (CounterObject c) \<Longrightarrow> counter c \<noteq> None
          \<Longrightarrow> covered r (stored_as E (repoStorage r) (fetchPrefix c))"
    and "x \<in># P \<Longrightarrow> call_covered E r x" and "table_ok (writeHandle r)"
  using assms unfolding repo_inv_def by blast+

text \<open>
  A step that changes the handlers and the engine, adds data prefixes with their registrations
  and only adds pending calls that are covered keeps the invariant.
\<close>

lemma repo_inv_step:
  assumes inv: "repo_inv E base r T P"
    and eng: "engine_ok E e'" "renamePrefix e' = renamePrefix (repoStorage r)"
    and r': "r' = add_data_prefixes ps r1" "repoStorage r1 = e'"
      "dataPrefixes (repoConfig r1) = dataPrefixes (repoConfig r)"
      "writeSlots r1 = writeSlots r" "patternSlots r1 = patternSlots r"
    and reg: "\<forall>p \<in> set ps. RegisterPrefix p ReadInterest ReadRegisterFailed \<in> set as"
    and put: "\<forall>m. stored E e' m \<noteq> None \<longrightarrow> stored E (repoStorage r) m \<noteq> None \<or> covered r' m"
    and heap: "\<forall>a c. omap_find (heap (patternHandle r1)) a = Some (CounterObject c) \<and> counter c \<noteq> None
        \<longrightarrow> covered r' (stored_as E (repoStorage r) (fetchPrefix c))"
    and calls: "\<forall>x. x \<in># Q \<longrightarrow> x \<in># P \<or> call_covered E r' x"
    and conn: "connected r' (T @ as) Q" and tab: "table_ok (writeHandle r1)"
  shows "repo_inv E base r' (T @ as) Q"
proof -
  have more: "covered r' n" if "covered r n" for n
    using that r'(1,3) by (auto simp: covered_def)
  have name: "stored_as E (repoStorage r') n = stored_as E (repoStorage r) n" for n
    using eng(2) r'(1,2) by (simp add: stored_as_def)
  have "call_covered E r' x" if "call_covered E r x" for x
    using that more name by (auto simp: call_covered_def split: repo_call.splits repo_callback.splits)
  then have "call_covered E r' x" if "x \<in># Q" for x
    using that calls repo_invD(6) [OF inv] by blast
  moreover have "n \<in> base \<or> covered r' n" if "stored E e' n \<noteq> None" for n
    using that put repo_invD(3) [OF inv] more by blast
  moreover have "RegisterPrefix p ReadInterest ReadRegisterFailed \<in> set (T @ as)"
    if "p \<in> set (dataPrefixes (repoConfig r'))" for p
    using that reg r'(1,3) repo_invD(4) [OF inv] by auto
  moreover have "patternHandle r' = patternHandle r1" "repoStorage r' = e'" "writeHandle r' = writeHandle r1"
    using r'(1,2) by simp_all
  ultimately show ?thesis
    unfolding repo_inv_def using eng(1) conn heap name tab by simp
qed

text \<open>With the slots connected, nothing is left to show for \<open>connected\<close>.\<close>

lemma connected_slots:
  assumes "connected r T P" and "writeSlots r \<noteq> 0"
    and "writeSlots r' = writeSlots r" "patternSlots r' = patternSlots r"
  shows "connected r' T' P'"
  using assms by (simp add: connected_def)

lemma connected_command:
  "connected r T P \<Longrightarrow> served T p ep \<Longrightarrow> ep \<in> commands \<Longrightarrow> writeSlots r \<noteq> 0"
  by (auto simp: connected_def)

lemma connected_pending: "connected r T P \<Longrightarrow> x \<in># P \<Longrightarrow> writeSlots r \<noteq> 0"
  by (auto simp: connected_def)

text \<open>
  A step through a connected handler: its actions are relayed, the signals it emits are
  covered, and what is stored, active or pending must be covered by those.
\<close>

lemma repo_inv_relay:
  assumes inv: "repo_inv E base r T P" and slots: "writeSlots r \<noteq> 0"
    and rel: "relay k f as r1 = (r', bs)" and k: "0 < k"
    and r1: "engine_ok E (repoStorage r1)" "renamePrefix (repoStorage r1) = renamePrefix (repoStorage r)"
      "repoConfig r1 = repoConfig r" "writeSlots r1 = writeSlots r" "patternSlots r1 = patternSlots r"
    and put: "\<forall>m. stored E (repoStorage r1) m \<noteq> None \<longrightarrow>
        stored E (repoStorage r) m \<noteq> None \<or> covered r m \<or> m \<in> set (signalled as)"
    and heap: "\<forall>a c. omap_find (heap (patternHandle r1)) a = Some (CounterObject c) \<and> counter c \<noteq> None
        \<longrightarrow> covered r (stored_as E (repoStorage r) (fetchPrefix c))
          \<or> stored_as E (repoStorage r) (fetchPrefix c) \<in> set (signalled as)"
    and calls: "\<forall>x \<in> set (repo_calls (map (map_action f) as)). call_covered E r x"
    and Q: "\<forall>x. x \<in># Q \<longrightarrow> x \<in># P" and tab: "table_ok (writeHandle r1)"
  shows "repo_inv E base r' (T @ bs) (Q + mset (repo_calls bs))"
proof -
  obtain ps where ps: "r' = add_data_prefixes ps r1" "\<forall>p \<in> set ps. RegisterPrefix p ReadInterest ReadRegisterFailed \<in> set bs"
    "\<forall>n \<in> set (signalled as). covered r' n" "repo_calls bs = repo_calls (map (map_action f) as)"
    using relay_effect [OF rel] k by auto
  have more: "covered r' n" if "covered r n" for n
    using that r1(3) ps(1) by (auto simp: covered_def)
  have call: "call_covered E r' x" if "call_covered E r x" for x
    using that more r1(2) ps(1)
    by (auto simp: call_covered_def stored_as_def split: repo_call.splits repo_callback.splits)
  show ?thesis
  proof (rule repo_inv_step [OF inv r1(1,2) ps(1)])
    show "\<forall>m. stored E (repoStorage r1) m \<noteq> None \<longrightarrow> stored E (repoStorage r) m \<noteq> None \<or> covered r' m"
      using put more ps(3) by blast
    show "\<forall>a c. omap_find (heap (patternHandle r1)) a = Some (CounterObject c) \<and> counter c \<noteq> None
        \<longrightarrow> covered r' (stored_as E (repoStorage r) (fetchPrefix c))"
      using heap more ps(3) by blast
    show "\<forall>x. x \<in># Q + mset (repo_calls bs) \<longrightarrow> x \<in># P \<or> call_covered E r' x"
      using Q calls call ps(4) by auto
    show "connected r' (T @ bs) (Q + mset (repo_calls bs))"
      using repo_invD(2) [OF inv] slots by (rule connected_slots) (use ps(1) r1 in simp_all)
  qed (use ps r1 tab in simp_all)
qed

lemma write_command_calls:
  assumes "write_onInterest L pid p i h = (h', as)" and "table_ok h"
  shows "signalled as = [] \<and> (\<forall>x \<in> set (repo_calls (map (map_action WriteCb) as)). call_covered E r x)
     \<and> table_ok h'"
proof
  show "signalled as = []"
    using assms(1) by (auto simp: handler_simps Let_def split: sum.splits)
  have "\<forall>x \<in> set (repo_calls (map (map_action WriteCb) as)). call_covered E r x"
    using assms(1) by (auto simp: handler_simps Let_def call_covered_def split: sum.splits)
  moreover from assms(2) have "table_ok h'"
    by (cases rule: command_cases [where L = L and pid = pid and i = i and p = p])
      (use assms in auto)
  ultimately show "(\<forall>x \<in> set (repo_calls (map (map_action WriteCb) as)). call_covered E r x) \<and> table_ok h'"
    by blast
qed

lemma connected_insert:
  assumes "repo_inv E base r T P" and "served T p InsertCommand"
    and "interest_step E X InsertCommand p i rnd r = Inr (r', bs)"
  shows "repo_inv E base r' (T @ bs) (P + mset (repo_calls bs))"
proof -
  note conn = repo_invD(2) [OF assms(1)]
  have slots: "writeSlots r \<noteq> 0"
    using connected_command [OF conn assms(2)] by (simp add: commands_def)
  obtain h as where h: "write_onInterest (lib E) (generateProcessId rnd) p i (writeHandle r) = (h, as)"
    by fastforce
  let ?r1 = "r\<lparr>writeHandle := h\<rparr>"
  have rel: "relay (writeSlots r) WriteCb as ?r1 = (r', bs)"
    using assms(3) h by (simp add: interest_step_def relay_write_def)
  show ?thesis
    by (rule repo_inv_relay [OF assms(1) slots rel])
      (use slots write_command_calls [OF h] repo_invD [OF assms(1)] in auto)
qed

lemma fetch_heap:
  assumes "pattern_fetch X a fp (new_pattern k) = (obj, as)"
  shows "(\<forall>c. obj = CounterObject c \<longrightarrow> fetchPrefix c = fp)
     \<and> (\<forall>x \<in> set (repo_calls (map (map_action PatternCb) as)). call_covered E r x)"
  using assms by (cases k)
    (auto simp: counter_fetch_def ndnrtc_fetch_def gobj_fetch_def call_covered_def split: option.splits)

lemma repo_calls_reply [simp]:
  "repo_calls (map_action f (negativeReply L i c) # as) = repo_calls as"
  by (simp add: handler_simps)

lemma connected_pattern:
  assumes "repo_inv E base r T P" and "served T p PatternCommand"
    and "interest_step E X PatternCommand p i rnd r = Inr (r', bs)"
  shows "repo_inv E base r' (T @ bs) (P + mset (repo_calls bs))"
proof -
  note conn = repo_invD(2) [OF assms(1)]
  have slots: "writeSlots r \<noteq> 0"
    using connected_command [OF conn assms(2)] by (simp add: commands_def)
  then have k: "0 < patternSlots r" using conn by (simp add: connected_def)
  let ?ren = "getRenamePrefix (repoStorage r)"
  obtain h as where h: "pattern_onInterest (lib E) X ?ren p i (patternHandle r) = (h, as)"
    by fastforce
  let ?r1 = "r\<lparr>patternHandle := h\<rparr>"
  have rel: "relay (patternSlots r) PatternCb as ?r1 = (r', bs)"
    using assms(3) h by (simp add: interest_step_def relay_pattern_def)
  show ?thesis
  proof (cases rule: pattern_command_cases [where L = "lib E" and X = X and rename = ?ren and p = p
        and i = i and s = "patternHandle r"])
    case (refused code)
    with h have "h = patternHandle r" "as = [negativeReply (lib E) i code]" by auto
    then show ?thesis
      by (intro repo_inv_relay [OF assms(1) slots rel k]) (use repo_invD [OF assms(1)] in auto)
  next
    case (started par pat fp obj obj' as')
    obtain kd where "obj = new_pattern kd" using started(4) by (auto simp: factory_create_def)
    with started(5) have f: "(\<forall>c. obj' = CounterObject c \<longrightarrow> fetchPrefix c = fp)
        \<and> (\<forall>x \<in> set (repo_calls (map (map_action PatternCb) as')). call_covered E r x)"
      using fetch_heap by blast
    have sig: "signalled as = [stored_as E (repoStorage r) fp]"
      using started(6) h fetch_sends_nothing [OF started(5)]
      by (auto simp: stored_as_def getRenamePrefix_def)
    have heap: "heap h = omap_store (nextAddr (patternHandle r)) obj' (heap (patternHandle r))"
      and as: "as = as' @ [EmitInsertion (ofUri (lib E) ?ren @ fp), negativeReply (lib E) i 100]"
      using started(6) h by auto
    show ?thesis
      by (rule repo_inv_relay [OF assms(1) slots rel k])
        (use f sig heap as repo_invD [OF assms(1)] in \<open>auto simp: om.find_store split: if_splits\<close>)
  qed
qed

lemma connected_cancel:
  assumes "repo_inv E base r T P" and "served T p CancelCommand"
    and "interest_step E X CancelCommand p i rnd r = Inr (r', bs)"
  shows "repo_inv E base r' (T @ bs) (P + mset (repo_calls bs))"
proof -
  note conn = repo_invD(2) [OF assms(1)]
  have slots: "writeSlots r \<noteq> 0"
    using connected_command [OF conn assms(2)] by (simp add: commands_def)
  then have k: "0 < patternSlots r" using conn by (simp add: connected_def)
  obtain h as where h: "onCancelRequest (lib E) p i (patternHandle r) = Inr (h, as)"
    and rel: "relay (patternSlots r) PatternCb as (r\<lparr>patternHandle := h\<rparr>) = (r', bs)"
    using assms(3) by (auto simp: interest_step_def relay_pattern_def rbind_Inr)
  have o: "signalled as = [] \<and> repo_calls (map (map_action PatternCb) as) = []
      \<and> (\<forall>a obj. omap_find (heap h) a = Some obj \<longrightarrow> omap_find (heap (patternHandle r)) a = Some obj)"
  proof -
    have "signalled as' = [] \<and> repo_calls (map (map_action PatternCb) as') = []"
      if "pattern_cancel obj = (obj', as')" for obj obj' as'
      using that by (cases obj) (auto simp: ndnrtc_cancel_def gobj_cancel_def split: option.splits)
    then show ?thesis
      using h by (auto simp: onCancelRequest_def cancel_entry_def om.find_erase Let_def
          split: sum.splits option.splits prod.splits if_splits)
  qed
  then have "\<forall>a c. omap_find (heap h) a = Some (CounterObject c) \<and> counter c \<noteq> None
      \<longrightarrow> covered r (stored_as E (repoStorage r) (fetchPrefix c))"
    using repo_invD(5) [OF assms(1)] by blast
  with o show ?thesis
    by (intro repo_inv_relay [OF assms(1) slots rel k]) (use repo_invD(1-4,7) [OF assms(1)] in auto)
qed

text \<open>Steps that only send or publish.\<close>

lemma silent_step:
  assumes inv: "repo_inv E base r T P"
    and as: "\<forall>a \<in> set as. (\<exists>d. a = PutData d) \<or> (\<exists>n t. a = PublishObject n t)"
  shows "repo_inv E base r (T @ as) (P + mset (repo_calls as))"
proof -
  have "served (T @ as) p ep = served T p ep" for p ep
    using as by (auto simp: served_def)
  moreover have "repo_calls as = []"
    using as by (induction as rule: repo_calls.induct) auto
  ultimately show ?thesis
    using inv by (simp add: repo_inv_def connected_def) blast
qed

lemma interest_keeps:
  assumes "repo_inv E base r T P" and "served T p ep"
    and "repo_step E X (InterestAt ep p i rnd) r = Inr (r', as)"
  shows "repo_inv E base r' (T @ as) (P + mset (repo_calls as))"
proof (cases ep)
  case ReadInterest
  with assms(3) have "r' = r" "read_onInterest E (repoStorage r) i = Inr as"
    by (auto simp: repo_step_def interest_step_def rbind_Inr)
  moreover from this have "\<forall>a \<in> set as. \<exists>d. a = PutData d"
    by (auto simp: read_onInterest_def split: if_splits sum.splits option.splits)
  ultimately show ?thesis using silent_step [OF assms(1), of as] by blast
next
  case (StatusInterest k)
  with assms(3) have "r' = r" "\<forall>a \<in> set as. \<exists>n t. a = PublishObject n t"
    by (auto simp: repo_step_def interest_step_def rbind_Inr split: option.splits)
  then show ?thesis using silent_step [OF assms(1), of as] by blast
next
  case NoHandler
  with assms(3) show ?thesis
    using silent_step [OF assms(1), of "[]"] by (auto simp: repo_step_def interest_step_def)
qed (use assms connected_insert connected_pattern connected_cancel in \<open>auto simp: repo_step_def\<close>)

lemma data_keeps:
  assumes inv: "repo_inv E base r T P" and pend: "RFetch i cb t \<in># P"
    and pre: "prefix (iName i) (dName d)"
    and step: "repo_step E X (DataFor cb d) r = Inr (r', bs)"
  shows "repo_inv E base r' (T @ bs) (P - {#RFetch i cb t#} + mset (repo_calls bs))"
proof -
  note conn = repo_invD(2) [OF inv] and eng = repo_invD(1) [OF inv]
  have slots: "writeSlots r \<noteq> 0" using conn pend by (rule connected_pending)
  then have k: "0 < patternSlots r" using conn by (simp add: connected_def)
  show ?thesis
  proof (cases cb)
    case (WriteCb w)
    with step obtain pid h e as where w: "w = WriteData pid"
      "write_onData E (repoStorage r) d pid (writeHandle r) = Inr (h, e, as)"
      and rel: "relay (writeSlots r) WriteCb as (r\<lparr>writeHandle := h, repoStorage := e\<rparr>) = (r', bs)"
      by (cases w) (auto simp: repo_simps rbind_Inr)
    have tab: "table_ok h"
      by (rule data_cases [OF repo_invD(7) [OF inv] eng, where d = d and pid = pid])
        (use w(2) repo_invD(7) [OF inv] timeout_effect(1) in auto)
    from write_data_outcome [OF w(2)] show ?thesis
    proof
      assume "e = repoStorage r \<and> as = []"
      then show ?thesis
        by (intro repo_inv_relay [OF inv slots rel]) (use slots tab repo_invD [OF inv] in \<open>auto dest: in_diffD\<close>)
    next
      assume "\<exists>n g. se_put E (repoStorage r) d = Inr (e, n, g) \<and> as = [EmitInsertion n]"
      then obtain n g where p: "se_put E (repoStorage r) d = Inr (e, n, g)" "as = [EmitInsertion n]"
        by blast
      from put_outcome [OF eng p(1)] show ?thesis
        by (intro repo_inv_relay [OF inv slots rel])
          (use p(2) slots tab repo_invD [OF inv] in \<open>auto dest: in_diffD\<close>)
    qed
  next
    case (PatternCb cb')
    with step obtain h e as where
      w: "pattern_data E (repoStorage r) cb' d (patternHandle r) = Inr (h, e, as)"
      and rel: "relay (patternSlots r) PatternCb as (r\<lparr>patternHandle := h, repoStorage := e\<rparr>) = (r', bs)"
      by (auto simp: repo_simps rbind_Inr)
    from w obtain a c c' n g where o: "omap_find (heap (patternHandle r)) a = Some (CounterObject c)"
      "counter c \<noteq> None" "se_put E (repoStorage r) d = Inr (e, n, g)"
      "h = (patternHandle r)\<lparr>heap := omap_store a (CounterObject c') (heap (patternHandle r))\<rparr>"
      "fetchPrefix c' = fetchPrefix c" "signalled as = []" "expressed as = []"
      by (rule pattern_data_outcome)
    have "call_covered E r (RFetch i cb t)" using repo_invD(6) [OF inv pend] .
    then have "covered r (stored_as E (repoStorage r) (iName i))"
      using PatternCb by (simp add: call_covered_def)
    moreover have "prefix (stored_as E (repoStorage r) (iName i)) (stored_as E (repoStorage r) (dName d))"
      using pre by (simp add: stored_as_def)
    ultimately have cov: "covered r (stored_as E (repoStorage r) (dName d))"
      by (rule covered_extends)
    have calls: "\<forall>x \<in> set (repo_calls (map (map_action PatternCb) as)). call_covered E r x"
      using o(7) by (induction as rule: expressed.induct) (auto simp: call_covered_def)
    from put_outcome [OF eng o(3)] cov calls show ?thesis
      by (intro repo_inv_relay [OF inv slots rel k])
        (use o repo_invD [OF inv] in \<open>auto simp: om.find_store dest: in_diffD split: if_splits\<close>)
  qed
qed

lemma timer_keeps:
  assumes inv: "repo_inv E base r T P" and pend: "RTimer cb \<in># P" and L: "packet_laws (lib E)"
    and step: "repo_step E X (TimerFires cb) r = Inr (r', bs)"
  shows "repo_inv E base r' (T @ bs) (P - {#RTimer cb#} + mset (repo_calls bs))"
proof -
  note conn = repo_invD(2) [OF inv]
  have slots: "writeSlots r \<noteq> 0" using conn pend by (rule connected_pending)
  then have k: "0 < patternSlots r" using conn by (simp add: connected_def)
  from step obtain cb' as where w: "pattern_timer (lib E) cb' (patternHandle r) = Inr as"
    and rel: "relay (patternSlots r) PatternCb as r = (r', bs)"
    by (cases cb) (auto simp: repo_simps rbind_Inr)
  have "signalled as = [] \<and> (\<forall>x \<in> set (repo_calls (map (map_action PatternCb) as)). call_covered E r x)"
    using pattern_timer_outcome [OF w]
  proof
    assume "as = []"
    then show ?thesis by simp
  next
    assume "\<exists>a c n. omap_find (heap (patternHandle r)) a = Some (CounterObject c) \<and> counter c \<noteq> None
     \<and> as = [ExpressInterest (counter_interest (lib E) (fetchPrefix c) n) (CounterOnData a) None]"
    then obtain a n and c :: counter_pattern where
      o: "omap_find (heap (patternHandle r)) a = Some (CounterObject c)" "counter c \<noteq> None"
      "as = [ExpressInterest (counter_interest (lib E) (fetchPrefix c) n) (CounterOnData a) None]"
      by blast
    have "covered r (stored_as E (repoStorage r) (fetchPrefix c @ [generic (to_string n)]))"
      using repo_invD(5) [OF inv o(1,2)] by (rule covered_extends) (simp add: stored_as_def)
    with o(3) L show ?thesis by (simp add: call_covered_def)
  qed
  then show ?thesis
    by (intro repo_inv_relay [OF inv slots rel k])
      (use repo_invD [OF inv] in \<open>auto dest: in_diffD\<close>)
qed

lemma timeout_keeps:
  assumes inv: "repo_inv E base r T P" and pend: "x \<in># P"
    and r': "r' = r \<or> (\<exists>pid. r' = r\<lparr>writeHandle := write_onTimeout pid (writeHandle r)\<rparr>)"
  shows "repo_inv E base r' T (P - {#x#})"
proof -
  have "writeSlots r \<noteq> 0" using repo_invD(2) [OF inv] pend by (rule connected_pending)
  then have "connected r' T (P - {#x#})"
    by (rule connected_slots [OF repo_invD(2) [OF inv]]) (use r' in auto)
  moreover have "covered r' = covered r" "repoStorage r' = repoStorage r" "repoConfig r' = repoConfig r"
    "patternHandle r' = patternHandle r"
    using r' by (auto simp: covered_def fun_eq_iff)
  moreover have "call_covered E r' = call_covered E r"
    using calculation(2,3) by (auto simp: call_covered_def fun_eq_iff split: repo_call.split repo_callback.split)
  moreover have "table_ok (writeHandle r')"
    using r' repo_invD(7) [OF inv] timeout_effect(1) by auto
  ultimately show ?thesis
    using inv by (auto simp: repo_inv_def dest: in_diffD)
qed

text \<open>
  A recorder stores without announcing, so what it stores need not be covered: its names count
  among those the invariant makes an exception for.
\<close>

lemma repo_inv_mono: "repo_inv E base r T P \<Longrightarrow> base \<subseteq> base' \<Longrightarrow> repo_inv E base' r T P"
  unfolding repo_inv_def by blast

lemma recorder_store_outcome:
  assumes "recorder_store E f d e = Inr e'"
  obtains n g where "se_put E e d = Inr (e', n, g)"
  using assms by (auto simp: recorder_store_def split: store_fun.splits sum.splits)

lemma recorded_keeps:
  assumes inv: "repo_inv E base r T P" and step: "repo_step E X (RecorderStores f d) r = Inr (r', bs)"
  shows "bs = []" and "repo_inv E (insert (stored_as E (repoStorage r) (dName d)) base) r' T P"
proof -
  from step obtain e where e: "recorder_store E f d (repoStorage r) = Inr e"
    and r': "r' = r\<lparr>repoStorage := e\<rparr>" and "bs = []"
    by (auto simp: repo_simps rbind_Inr)
  then show "bs = []" by simp
  from e obtain n g where "se_put E (repoStorage r) d = Inr (e, n, g)" by (rule recorder_store_outcome)
  note put = put_outcome [OF repo_invD(1) [OF inv] this]
  have same: "covered r' = covered r" "stored_as E e = stored_as E (repoStorage r)"
    using put by (auto simp: r' covered_def stored_as_def fun_eq_iff)
  have "call_covered E r' = call_covered E r"
    using same by (auto simp: r' call_covered_def fun_eq_iff split: repo_call.split repo_callback.split)
  then show "repo_inv E (insert (stored_as E (repoStorage r) (dName d)) base) r' T P"
    using inv put same by (auto simp: r' repo_inv_def connected_def)
qed

lemma unregistered_keeps:
  assumes inv: "repo_inv E base r T P" and step: "repo_step E X (RegisterFailed f p) r = Inr (r', bs)"
  shows "r' = r" and "repo_calls bs = []" and "repo_inv E base r' (T @ bs) P"
proof -
  from step have r': "r' = r" and bs: "bs = [] \<or> bs = [ShutdownFace]"
    by (auto simp: repo_simps read_onRegisterFailed_def split: registration_failed.splits)
  then show "r' = r" "repo_calls bs = []" by auto
  have "served (T @ bs) q ep = served T q ep" for q ep using bs by (auto simp: served_def)
  then show "repo_inv E base r' (T @ bs) P"
    using inv by (simp add: r' repo_inv_def connected_def) blast
qed

text \<open>The names under which the recorders have stored packets.\<close>

definition recorded :: "(name \<Rightarrow> name) \<Rightarrow> event list \<Rightarrow> name set" where
  "recorded rname evs = {rname (dName d) | f d. RecorderStores f d \<in> set evs}"

lemma relay_storage: "relay k f as r = (r', bs) \<Longrightarrow> repoStorage r' = repoStorage r"
  using relay_effect [of k f as r r' bs] by auto

text \<open>Only the arrival of a packet reaches the storage, and only through \<open>put\<close>.\<close>

fun brings :: "event \<Rightarrow> data \<Rightarrow> bool" where
  "brings (DataFor cb d) d' \<longleftrightarrow> d' = d"
| "brings (RecorderStores f d) d' \<longleftrightarrow> d' = d"
| "brings ev d' \<longleftrightarrow> False"

lemma step_puts:
  assumes "repo_step E X ev r = Inr (r', as)"
  shows "repoStorage r' = repoStorage r \<or>
    (\<exists>d n g. brings ev d \<and> se_put E (repoStorage r) d = Inr (repoStorage r', n, g))"
proof (cases ev)
  case (InterestAt ep p i rnd)
  with assms show ?thesis
    by (cases ep) (auto simp: repo_simps rbind_Inr dest!: relay_storage split: prod.splits)
next
  case (DataFor cb d)
  show ?thesis
  proof (cases cb)
    case (WriteCb w)
    with assms DataFor obtain pid h e bs where
      w: "write_onData E (repoStorage r) d pid (writeHandle r) = Inr (h, e, bs)"
      and rel: "relay (writeSlots r) WriteCb bs (r\<lparr>writeHandle := h, repoStorage := e\<rparr>) = (r', as)"
      by (cases w) (auto simp: repo_simps rbind_Inr)
    from write_data_outcome [OF w] relay_storage [OF rel] DataFor show ?thesis by auto
  next
    case (PatternCb cb')
    with assms DataFor obtain h e bs where
      w: "pattern_data E (repoStorage r) cb' d (patternHandle r) = Inr (h, e, bs)"
      and rel: "relay (patternSlots r) PatternCb bs (r\<lparr>patternHandle := h, repoStorage := e\<rparr>) = (r', as)"
      by (auto simp: repo_simps rbind_Inr)
    from w relay_storage [OF rel] DataFor show ?thesis
      by (elim pattern_data_outcome) auto
  qed
next
  case (TimeoutOf cb)
  with assms show ?thesis
    by (auto simp: repo_simps split: repo_callback.splits write_callback.splits)
next
  case (TimerFires cb)
  with assms show ?thesis
    by (cases cb) (auto simp: repo_simps rbind_Inr dest!: relay_storage)
next
  case (RecorderStores f d)
  with assms obtain e where "recorder_store E f d (repoStorage r) = Inr e" "repoStorage r' = e"
    by (auto simp: repo_simps rbind_Inr)
  with RecorderStores show ?thesis by (auto elim: recorder_store_outcome)
next
  case (RegisterFailed f p)
  with assms show ?thesis by (auto simp: repo_simps split: registration_failed.splits)
qed

lemma step_renames:
  assumes "engine_ok E (repoStorage r)" and "repo_step E X ev r = Inr (r', as)"
  shows "renamePrefix (repoStorage r') = renamePrefix (repoStorage r)"
  using step_puts [OF assms(2)] put_outcome [OF assms(1)] by auto

lemma same_renaming:
  "renamePrefix e = renamePrefix e' \<Longrightarrow> as_stored E e = as_stored E e' \<and> stored_as E e = stored_as E e'"
  by (simp add: as_stored_def stored_as_def fun_eq_iff)

theorem session_invariant:
  assumes "session E X r0 T0 evs r T P" and "repo_inv E base r0 T0 {#}" and L: "packet_laws (lib E)"
  shows "repo_inv E (base \<union> recorded (stored_as E (repoStorage r0)) evs) r T P
    \<and> renamePrefix (repoStorage r) = renamePrefix (repoStorage r0)"
  using assms(1,2)
proof (induction rule: session.induct)
  case start
  then show ?case by (simp add: recorded_def)
next
  case (event evs r T P ev Q r' as)
  let ?base = "base \<union> recorded (stored_as E (repoStorage r0)) evs"
  from event have inv: "repo_inv E ?base r T P"
    and ren: "renamePrefix (repoStorage r) = renamePrefix (repoStorage r0)" by blast+
  have grows: "?base \<subseteq> base \<union> recorded (stored_as E (repoStorage r0)) (evs @ [ev])" by (auto simp: recorded_def)
  note more = repo_inv_mono [OF _ grows]
  have "repo_inv E (base \<union> recorded (stored_as E (repoStorage r0)) (evs @ [ev])) r' (T @ as) (Q + mset (repo_calls as))"
    using event(2)
  proof cases
    case (interest p ep i rnd)
    with interest_keeps [OF inv interest(3)] event(3) show ?thesis by (intro more) simp
  next
    case (data i cb t d)
    with data_keeps [OF inv data(3,4)] event(3) show ?thesis by (intro more) simp
  next
    case (timeout i cb t)
    then have r': "r' = r \<or> (\<exists>pid. r' = r\<lparr>writeHandle := write_onTimeout pid (writeHandle r)\<rparr>)" "as = []"
      using event(3) by (auto simp: repo_simps split: repo_callback.splits write_callback.splits)
    with timeout_keeps [OF inv timeout(3) r'(1)] timeout(2) show ?thesis by (intro more) simp
  next
    case (timer cb)
    with timer_keeps [OF inv timer(3) L] event(3) show ?thesis by (intro more) simp
  next
    case (recorded stream f d)
    note rec = recorded_keeps [OF inv event(3) [unfolded recorded(1)]]
    have "stored_as E (repoStorage r) = stored_as E (repoStorage r0)" using same_renaming [OF ren] by blast
    then have "insert (stored_as E (repoStorage r) (dName d)) ?base
        \<subseteq> base \<union> recorded (stored_as E (repoStorage r0)) (evs @ [ev])"
      using recorded(1) by (auto simp: recorded_def)
    from repo_inv_mono [OF rec(2) this] rec(1) recorded(2) show ?thesis by simp
  next
    case (unregistered p ep f)
    note keeps = unregistered_keeps [OF inv event(3) [unfolded unregistered(1)]]
    from more [OF keeps(3)] keeps(2) unregistered(2) show ?thesis by simp
  qed
  with step_renames [OF repo_invD(1) [OF inv] event(3)] ren show ?case by simp
next
  case (expired evs r T P i cb)
  then show ?case using timeout_keeps [where r = r and r' = r] by blast
qed

text \<open>Without the exception, for what does not depend on names.\<close>

theorem repo_run_invariant:
  assumes "repo_run E X r0 T0 r T P" and "repo_inv E base r0 T0 {#}" and L: "packet_laws (lib E)"
  shows "repo_inv E UNIV r T P"
proof -
  obtain evs where "session E X r0 T0 evs r T P" using run_session [OF assms(1)] by blast
  from session_invariant [OF this assms(2,3)] show ?thesis by (blast intro: repo_inv_mono)
qed

end
