(* ===== verification/Repo_Properties.thy ===== *)
theory Repo_Properties
  imports Repo_Run
begin

text \<open>
  The properties of the whole repository: how it starts, which prefixes it serves, that what
  is inserted can be read, and that a read-only repository never writes.
\<close>

section \<open>The start\<close>

lemma listen_all_effect:
  "listen_all ps r = (r', as) \<Longrightarrow>
     repoConfig r' = repoConfig r \<and> repoStorage r' = repoStorage r \<and> patternHandle r' = patternHandle r
   \<and> writeHandle r' = writeHandle r \<and> writeSlots r' = writeSlots r + length ps
   \<and> patternSlots r' = patternSlots r + length ps
   \<and> (\<forall>p. \<forall>ep \<in> commands. served as p ep \<longleftrightarrow> (\<exists>q \<in> set ps.
        ep = InsertCommand \<and> p = q @ [generic ''insert''] \<or> ep = PatternCommand \<and> p = q @ [generic ''pattern'']
        \<or> ep = CancelCommand \<and> p = q @ [generic ''cancel'']))"
proof (induction ps arbitrary: r r' as)
  case Nil
  then show ?case by (simp add: served_def)
next
  case (Cons q ps)
  obtain r1 b1 where one: "listen_prefix q r = (r1, b1)" by fastforce
  obtain r2 b2 where rest: "listen_all ps r1 = (r2, b2)" by fastforce
  have "as = b1 @ b2" "r' = r2" using Cons.prems one rest by simp_all
  then have srv: "served as p ep \<longleftrightarrow> served b1 p ep \<or> served b2 p ep" for p ep
    by (auto simp: served_def)
  show ?case
    using Cons.IH [OF rest] one srv \<open>r' = r2\<close>
    by (auto simp: listen_prefix_def status_listen_def Let_def served_def write_listen_def
        pattern_listen_def commands_def)
qed

lemma read_listens [simp]:
  "concat (map read_listen ns) = map (\<lambda>p. RegisterPrefix p ReadInterest ReadRegisterFailed) ns"
  by (induction ns) (simp_all add: read_listen_def)

text \<open>The pieces of a successful start.\<close>

lemma start_cases:
  assumes "main_start E X C a = Inr (r0, T0)"
  obtains cfg e r1 as e' ps where "main_config C (lib E) a = Inr cfg"
    "storageEngine E (confDbPath cfg) (readOnly cfg) (confRenamePrefix cfg) = Inr e"
    "r1 = \<lparr>repoConfig = cfg, repoStorage = e, patternHandle = pattern_new (lib E) X,
          writeHandle = write_new, statusHandle = status_new, writeSlots = 0, patternSlots = 0\<rparr>"
    "se_scan E e = Inr (e', ps)"
    "(\<exists>r2. (r2, as) = (if readOnly cfg then (r1, []) else listen_all (repoPrefixes cfg) r1)
        \<and> r0 = add_data_prefixes ps (r2\<lparr>repoStorage := e'\<rparr>))"
    "T0 = as @ map (\<lambda>p. RegisterPrefix p ReadInterest ReadRegisterFailed) (dataPrefixes (repoConfig r0))"
proof -
  from assms obtain cfg where cfg: "main_config C (lib E) a = Inr cfg" "(rbind (fastRepo E X cfg) (\<lambda>r0.
       let (r1, as) = (if readOnly cfg then (r0, []) else enableListening r0);
           r2 = (if argValidate a then enableValidation r1 else r1)
       in rbind (initializeStorage E r2) (\<lambda>(r3, bs). Inr (r3, as @ bs)))) = Inr (r0, T0)"
    by (auto simp: main_start_def rbind_Inr)
  then obtain r1 where r1: "fastRepo E X cfg = Inr r1" "(let (r1, as) = (if readOnly cfg then (r1, []) else enableListening r1);
           r2 = (if argValidate a then enableValidation r1 else r1)
       in rbind (initializeStorage E r2) (\<lambda>(r3, bs). Inr (r3, as @ bs))) = Inr (r0, T0)"
    by (auto simp: rbind_Inr)
  obtain e where e: "storageEngine E (confDbPath cfg) (readOnly cfg) (confRenamePrefix cfg) = Inr e"
    "r1 = \<lparr>repoConfig = cfg, repoStorage = e, patternHandle = pattern_new (lib E) X,
          writeHandle = write_new, statusHandle = status_new, writeSlots = 0, patternSlots = 0\<rparr>"
    using r1(1) by (auto simp: fastRepo_def split: sum.splits)
  obtain r2 as where r2: "(r2, as) = (if readOnly cfg then (r1, []) else enableListening r1)"
    by (metis surj_pair)
  then have st: "repoStorage r2 = e" "repoConfig r2 = cfg"
    using e(2) listen_all_effect [of "repoPrefixes cfg" r1 r2 as]
    by (auto simp: enableListening_def split: if_splits)
  from r1(2) have "rbind (initializeStorage E r2) (\<lambda>(r3, bs). Inr (r3, as @ bs)) = Inr (r0, T0)"
    unfolding r2 [symmetric] by (cases "argValidate a") (simp_all add: enableValidation_def)
  then obtain e' ps where sc: "se_scan E e = Inr (e', ps)"
    "r0 = add_data_prefixes ps (r2\<lparr>repoStorage := e'\<rparr>)"
    "T0 = as @ concat (map read_listen (dataPrefixes (repoConfig r0)))"
    using st by (auto simp: rbind_Inr initializeStorage_def onScanCompleted_def Let_def split: sum.splits)
  with sc cfg(1) e r2 show thesis
    by (intro that [of cfg e r1 e' ps as]) (auto simp: enableListening_def)
qed

lemma start_keeps_commands:
  assumes "\<not> served as p ep" and "ep \<in> commands"
  shows "\<not> served (as @ map (\<lambda>p. RegisterPrefix p ReadInterest ReadRegisterFailed) ns) p ep"
  using assms by (auto simp: served_def commands_def)

lemma start_inv:
  assumes start: "main_start E X C a = Inr (r0, T0)" and eng: "engine_ok E (repoStorage r0)"
  shows "repo_inv E {n. stored E (repoStorage r0) n \<noteq> None} r0 T0 {#}"
  using start
proof (cases rule: start_cases)
  case (1 cfg e r1 as e' ps)
  then obtain r2 where r2: "(r2, as) = (if readOnly cfg then (r1, []) else listen_all (repoPrefixes cfg) r1)"
    "r0 = add_data_prefixes ps (r2\<lparr>repoStorage := e'\<rparr>)" by blast
  have k: "writeSlots r0 = patternSlots r0" "patternHandle r0 = pattern_new (lib E) X"
    "writeSlots r0 = 0 \<Longrightarrow> as = []"
    using r2 1(3) listen_all_effect [of "repoPrefixes cfg" r1 r2 as]
    by (auto split: if_splits)
  have "connected r0 T0 {#}"
    unfolding connected_def 1(6)
    using k(1,3) start_keeps_commands [of "[]"] by (auto simp: served_def)
  moreover have "heap (patternHandle r0) = omap_empty"
    by (simp add: k(2) pattern_new_def)
  moreover have "RegisterPrefix p ReadInterest ReadRegisterFailed \<in> set T0" if "p \<in> set (dataPrefixes (repoConfig r0))" for p
    using that 1(6) by auto
  moreover have "writeHandle r0 = write_new"
    using r2 1(3) listen_all_effect [of "repoPrefixes cfg" r1 r2 as] by (auto split: if_splits)
  ultimately show ?thesis using eng by (simp add: repo_inv_def table_new)
qed

section \<open>A concrete repository\<close>

definition ref_args :: "bool \<Rightarrow> args" where
  "ref_args ro = \<lparr>argConfig = None, argCommandPrefix = Some ''/r'', argDbPath = ''db'', argReadonly = ro,
     argRenamePrefix = None, argValidate = False\<rparr>"

definition ref_config :: "bool \<Rightarrow> ptree config" where
  "ref_config ro = (default_config (ref_conf sample_files))
     \<lparr>repoPrefixes := [[generic ''r'']], confDbPath := ''db'', readOnly := ro\<rparr>"

lemma ref_main_config: "main_config (ref_conf sample_files) (lib ref_env) (ref_args ro) = Inr (ref_config ro)"
proof -
  have "ref_ofUri ''/r'' = [generic ''r'']" by code_simp
  then show ?thesis
    by (cases ro) (simp_all add: main_config_def ref_args_def ref_config_def override_path_def override_mode_def
        override_rename_def default_config_def)
qed

lemma ref_engine_opened: "storageEngine ref_env ''db'' ro [] = Inr (ref_open [])"
  by (simp add: storageEngine_def impl_open_def impl_new_def ref_open_def)

lemma ref_start:
  "\<exists>r0 T0. main_start ref_env ref_platform (ref_conf sample_files) (ref_args ro) = Inr (r0, T0)
     \<and> engine_ok ref_env (repoStorage r0) \<and> stored ref_env (repoStorage r0) = Map.empty
     \<and> renamePrefix (repoStorage r0) = []"
proof -
  let ?cfg = "ref_config ro"
  obtain e' ps where scan: "se_scan ref_env (ref_open []) = Inr (e', ps)"
    using scan_returns [OF ref_open_ok] by blast
  have "keysTrie (ref_open []) = new_node" by (simp add: ref_open_def impl_new_def)
  with scan_first [OF ref_open_ok _ scan] have ok: "engine_ok ref_env e'"
    "stored ref_env e' = stored ref_env (ref_open [])" by metis+
  have ren: "renamePrefix e' = []"
    using scan by (auto simp: se_scan_def buildKeyTrie_def ref_open_def split: prod.splits)
  let ?r = "\<lparr>repoConfig = ?cfg, repoStorage = ref_open [], patternHandle = pattern_new ref_lib ref_platform,
     writeHandle = write_new, statusHandle = status_new, writeSlots = 0, patternSlots = 0\<rparr>"
  have new: "fastRepo ref_env ref_platform ?cfg = Inr ?r"
    by (simp add: fastRepo_def ref_engine_opened ref_config_def default_config_def)
  obtain r1 as where r1: "(r1, as) = (if readOnly ?cfg then (?r, []) else enableListening ?r)"
    by (metis surj_pair)
  have st: "repoStorage r1 = ref_open []"
    using r1 listen_all_effect [of "repoPrefixes ?cfg" ?r r1 as]
    by (auto simp: enableListening_def split: if_splits)
  obtain r3 bs where r3: "onScanCompleted ps (r1\<lparr>repoStorage := e'\<rparr>) = (r3, bs)" by fastforce
  then have "repoStorage r3 = e'" by (auto simp: onScanCompleted_def Let_def)
  moreover have "main_start ref_env ref_platform (ref_conf sample_files) (ref_args ro) = Inr (r3, as @ bs)"
    unfolding main_start_def ref_main_config rbind_simps new r1 [symmetric]
    using scan st r3 by (simp add: ref_args_def initializeStorage_def)
  ultimately show ?thesis using ok ref_open_stored ren by auto
qed

text \<open>The scan at the start leaves the database alone and registers the outermost names.\<close>

lemma start_storage:
  assumes "main_start E X C a = Inr (r0, T0)"
  obtains cfg e e' ps as where "main_config C (lib E) a = Inr cfg"
    "storageEngine E (confDbPath cfg) (readOnly cfg) (confRenamePrefix cfg) = Inr e"
    "se_scan E e = Inr (e', ps)" "keysTrie e = new_node" "db e' = db e" "repoStorage r0 = e'"
    "dataPrefixes (repoConfig r0) = dataPrefixes cfg @ ps"
    "T0 = as @ map (\<lambda>p. RegisterPrefix p ReadInterest ReadRegisterFailed) (dataPrefixes (repoConfig r0))"
  using assms
proof (cases rule: start_cases)
  case (1 cfg e r1 as e' ps)
  then obtain r2 where r2: "(r2, as) = (if readOnly cfg then (r1, []) else listen_all (repoPrefixes cfg) r1)"
    "r0 = add_data_prefixes ps (r2\<lparr>repoStorage := e'\<rparr>)" by blast
  then have "dataPrefixes (repoConfig r0) = dataPrefixes cfg @ ps" "repoStorage r0 = e'"
    using 1(3) listen_all_effect [of "repoPrefixes cfg" r1 r2 as] by (auto split: if_splits)
  moreover have "keysTrie e = new_node" "db e' = db e"
    using 1(2,4) by (auto simp: storageEngine_def impl_open_def impl_new_def se_scan_def buildKeyTrie_def
        split: sum.splits option.splits if_splits prod.splits)
  ultimately show thesis using that 1 by blast
qed

lemma start_registers_outer:
  assumes start: "main_start E X C a = Inr (r0, T0)" and eng: "engine_ok E (repoStorage r0)"
    and gen: "\<forall>n. stored E (repoStorage r0) n \<noteq> None \<longrightarrow> generic_name n"
    and n: "stored E (repoStorage r0) n \<noteq> None" "n \<noteq> []"
    and outer: "\<forall>m. stored E (repoStorage r0) m \<noteq> None \<longrightarrow> \<not> strict_prefix n m"
  shows "\<exists>p. RegisterPrefix p ReadInterest ReadRegisterFailed \<in> set T0 \<and> prefix p n"
  using start
proof (cases rule: start_storage)
  case (1 cfg e e' ps as)
  then have ok: "engine_ok E e" "stored E e = stored E e'"
    using eng by (simp_all add: engine_ok_def stored_def fun_eq_iff)
  from scan_outer_names [OF ok(1) 1(4) _ 1(3), of n] gen n outer ok(2) 1(6-8) show ?thesis by auto
qed

section \<open>What is served\<close>

text \<open>
  C31: after the start, commands are served exactly in read-write mode, and exactly at the
  endpoints \<open>insert\<close>, \<open>pattern\<close> and \<open>cancel\<close> below the command prefixes of the configuration;
  every data prefix of the configuration is registered for reading; and if all stored names
  are made of generic components, a registered prefix covers every stored name that no stored
  name extends.
\<close>

theorem start_serves:
  assumes start: "main_start E X C a = Inr (r0, T0)" and cfg: "main_config C (lib E) a = Inr cfg"
    and eng: "engine_ok E (repoStorage r0)"
  shows "(\<forall>p. \<forall>ep \<in> commands. served T0 p ep \<longleftrightarrow> \<not> readOnly cfg \<and> (\<exists>q \<in> set (repoPrefixes cfg).
        ep = InsertCommand \<and> p = q @ [generic ''insert''] \<or> ep = PatternCommand \<and> p = q @ [generic ''pattern'']
        \<or> ep = CancelCommand \<and> p = q @ [generic ''cancel'']))
    \<and> (\<forall>p \<in> set (dataPrefixes cfg). served T0 p ReadInterest)
    \<and> ((\<forall>n. stored E (repoStorage r0) n \<noteq> None \<longrightarrow> generic_name n) \<longrightarrow>
        (\<forall>n. stored E (repoStorage r0) n \<noteq> None \<longrightarrow> n \<noteq> [] \<longrightarrow>
          (\<forall>m. stored E (repoStorage r0) m \<noteq> None \<longrightarrow> \<not> strict_prefix n m) \<longrightarrow>
          (\<exists>p. RegisterPrefix p ReadInterest ReadRegisterFailed \<in> set T0 \<and> prefix p n)))"
  using start
proof (cases rule: start_cases)
  case (1 cfg' e r1 as e' ps)
  then have c: "cfg' = cfg" using cfg by simp
  obtain r2 where r2: "(r2, as) = (if readOnly cfg then (r1, []) else listen_all (repoPrefixes cfg) r1)"
    "r0 = add_data_prefixes ps (r2\<lparr>repoStorage := e'\<rparr>)" using 1(5) c by blast
  have pre: "dataPrefixes (repoConfig r0) = dataPrefixes cfg @ ps" "repoStorage r0 = e'"
    using r2 1(3) c listen_all_effect [of "repoPrefixes cfg" r1 r2 as] by (auto split: if_splits)
  have "served T0 p ep \<longleftrightarrow> served as p ep" if "ep \<in> commands" for p ep
    using that 1(6) by (auto simp: served_def commands_def)
  moreover have "served as p ep \<longleftrightarrow> \<not> readOnly cfg \<and> (\<exists>q \<in> set (repoPrefixes cfg).
        ep = InsertCommand \<and> p = q @ [generic ''insert''] \<or> ep = PatternCommand \<and> p = q @ [generic ''pattern'']
        \<or> ep = CancelCommand \<and> p = q @ [generic ''cancel''])" if "ep \<in> commands" for p ep
    using that r2(1) listen_all_effect [of "repoPrefixes cfg" r1 r2 as]
    by (cases "readOnly cfg") (auto simp: served_def)
  ultimately show ?thesis
    using pre 1(6) start_registers_outer [OF start eng] by (auto simp: served_def)
qed

theorem start_serves_witness:
  "\<exists>r0 T0. main_start ref_env ref_platform (ref_conf sample_files) (ref_args False) = Inr (r0, T0)
     \<and> served T0 ref_prefix InsertCommand \<and> \<not> served T0 [generic ''r''] InsertCommand"
proof -
  obtain r0 T0 where st: "main_start ref_env ref_platform (ref_conf sample_files) (ref_args False) = Inr (r0, T0)"
    "engine_ok ref_env (repoStorage r0)"
    using ref_start by blast
  have "InsertCommand \<in> commands" by (simp add: commands_def)
  with start_serves [OF st(1) ref_main_config st(2)] have
    "served T0 p InsertCommand \<longleftrightarrow> \<not> readOnly (ref_config False) \<and> (\<exists>q \<in> set (repoPrefixes (ref_config False)).
       p = q @ [generic ''insert''])" for p
    by auto
  with st(1) show ?thesis by (auto simp: ref_config_def)
qed

text \<open>
  A name is registered at most once. Whatever the number of command prefixes, and so of
  connected slots, a signal registers its name exactly when no data prefix is a prefix of it;
  afterwards it is covered, and the same signal does nothing.
\<close>

theorem insertion_registers_once:
  assumes "emit (Suc k) n r = (r', as)"
  shows "as = (if \<exists>p \<in> set (dataPrefixes (repoConfig r)). prefix p n then [] else [RegisterPrefix n ReadInterest ReadRegisterFailed])
    \<and> (\<exists>p \<in> set (dataPrefixes (repoConfig r')). prefix p n) \<and> emit j n r' = (r', [])"
proof -
  have "\<exists>p \<in> set (dataPrefixes (repoConfig r')). prefix p n" "emit j n r' = (r', [])"
    using slots.notify_covers [OF assms] slots.notify_again [OF assms] by blast+
  moreover have "onDataInsertion n r = (r', as)" using assms unfolding emit_once .
  ultimately show ?thesis by (auto simp: onDataInsertion_def read_listen_def split: if_splits)
qed

theorem insertion_registers_once_witness:
  "\<exists>r r'. emit 3 [generic ''a''] (r :: ((string, bytes) omap, ptree) repo)
     = (r', [RegisterPrefix [generic ''a''] ReadInterest ReadRegisterFailed])"
proof -
  let ?r = "\<lparr>repoConfig = ref_config False, repoStorage = ref_open [], patternHandle = pattern_new ref_lib ref_platform,
     writeHandle = write_new, statusHandle = status_new, writeSlots = 3, patternSlots = 3\<rparr>"
  obtain r' as where e: "emit (Suc 2) [generic ''a''] ?r = (r', as)" by fastforce
  with insertion_registers_once [OF e] have "emit (Suc 2) [generic ''a''] ?r = (r', [RegisterPrefix [generic ''a''] ReadInterest ReadRegisterFailed])"
    by (simp add: ref_config_def default_config_def del: emit.simps)
  then show ?thesis unfolding numeral_3_eq_3 Suc_1 [symmetric] by (auto simp: numeral_2_eq_2)
qed

section \<open>Reading what was inserted\<close>

lemma ref_served:
  assumes "main_start ref_env ref_platform (ref_conf sample_files) (ref_args False) = Inr (r0, T0)"
  shows "served T0 [generic ''r'', generic ''insert''] InsertCommand
    \<and> served T0 [generic ''r'', generic ''pattern''] PatternCommand"
  using assms
proof (cases rule: start_cases)
  case (1 cfg e r1 as e' ps)
  have c: "\<not> readOnly cfg" "repoPrefixes cfg = [[generic ''r'']]"
    using 1(1) ref_main_config [of False] by (simp_all add: ref_config_def)
  obtain r2 where "(r2, as) = listen_all (repoPrefixes cfg) r1"
    using 1(5) c(1) by auto
  from listen_all_effect [OF this [symmetric]] c(2) 1(6) show ?thesis
    by (auto simp: served_def commands_def)
qed

text \<open>An insert command for \<open>/a\<close> is accepted, and the run in which it has been.\<close>

lemma ref_insert_accepted:
  "\<exists>r0 T0 r bs. main_start ref_env ref_platform (ref_conf sample_files) (ref_args False) = Inr (r0, T0)
     \<and> engine_ok ref_env (repoStorage r0) \<and> stored ref_env (repoStorage r0) = Map.empty
     \<and> renamePrefix (repoStorage r0) = [] \<and> served T0 ref_prefix InsertCommand
     \<and> prefix ref_prefix (iName (ref_command [''a'']))
     \<and> repo_step ref_env ref_platform (InterestAt InsertCommand ref_prefix (ref_command [''a'']) []) r0 = Inr (r, bs)
     \<and> RFetch (fetch_interest ref_lib [generic ''a'']) (WriteCb (WriteData 0)) (Some (WriteCb (WriteTimeout 0)))
         \<in> set (repo_calls bs)
     \<and> 0 \<in> processes (writeHandle r) \<and> repoStorage r = repoStorage r0"
proof -
  obtain r0 T0 where st: "main_start ref_env ref_platform (ref_conf sample_files) (ref_args False) = Inr (r0, T0)"
    "engine_ok ref_env (repoStorage r0)" "stored ref_env (repoStorage r0) = Map.empty"
    "renamePrefix (repoStorage r0) = []"
    using ref_start by blast
  have tab: "table_ok (writeHandle r0)" using repo_invD(7) [OF start_inv [OF st(1,2)]] .
  have srv: "served T0 ref_prefix InsertCommand" using ref_served [OF st(1)] by simp
  obtain h as where h: "write_onInterest ref_lib 0 ref_prefix (ref_command [''a'']) (writeHandle r0) = (h, as)"
    by fastforce
  have out: "0 \<in> processes h" "signalled as = []"
    "repo_calls (map (map_action WriteCb) as)
       = [RFetch (fetch_interest ref_lib [generic ''a'']) (WriteCb (WriteData 0)) (Some (WriteCb (WriteTimeout 0)))]"
  proof -
    from tab have "0 \<in> processes h \<and> signalled as = [] \<and> repo_calls (map (map_action WriteCb) as)
       = [RFetch (fetch_interest ref_lib [generic ''a'']) (WriteCb (WriteData 0)) (Some (WriteCb (WriteTimeout 0)))]"
      by (cases rule: command_cases [where L = ref_lib and pid = 0 and i = "ref_command [''a'']" and p = ref_prefix])
        (use h in \<open>auto simp: ref_parameter handler_simps name_parameter_def message_name_def\<close>)
    then show "0 \<in> processes h" "signalled as = []"
      "repo_calls (map (map_action WriteCb) as)
       = [RFetch (fetch_interest ref_lib [generic ''a'']) (WriteCb (WriteData 0)) (Some (WriteCb (WriteTimeout 0)))]"
      by blast+
  qed
  obtain r bs where rel: "relay (writeSlots r0) WriteCb as (r0\<lparr>writeHandle := h\<rparr>) = (r, bs)" by fastforce
  have step: "repo_step ref_env ref_platform (InterestAt InsertCommand ref_prefix (ref_command [''a'']) []) r0 = Inr (r, bs)"
    using h rel by (simp add: repo_simps)
  have "prefix ref_prefix (iName (ref_command [''a'']))"
    by (simp add: ref_command_def ref_interest_def)
  moreover from relay_effect [OF rel] out
  have "RFetch (fetch_interest ref_lib [generic ''a'']) (WriteCb (WriteData 0)) (Some (WriteCb (WriteTimeout 0)))
       \<in> set (repo_calls bs)"
    "0 \<in> processes (writeHandle r)" "repoStorage r = repoStorage r0"
    by auto
  ultimately show ?thesis using st srv step by blast
qed

abbreviation ref_insert :: event where
  "ref_insert \<equiv> InterestAt InsertCommand ref_prefix (ref_command [''a'']) []"

abbreviation ref_arrival :: event where
  "ref_arrival \<equiv> DataFor (WriteCb (WriteData 0)) (ref_packet [''a''] ''x'')"

lemma ref_repo_run:
  "\<exists>r0 T0 r T P. main_start ref_env ref_platform (ref_conf sample_files) (ref_args False) = Inr (r0, T0)
     \<and> engine_ok ref_env (repoStorage r0) \<and> stored ref_env (repoStorage r0) = Map.empty
     \<and> renamePrefix (repoStorage r0) = [] \<and> session ref_env ref_platform r0 T0 [ref_insert] r T P
     \<and> RFetch (fetch_interest ref_lib [generic ''a'']) (WriteCb (WriteData 0)) (Some (WriteCb (WriteTimeout 0))) \<in># P
     \<and> 0 \<in> processes (writeHandle r) \<and> repoStorage r = repoStorage r0"
proof -
  obtain r0 T0 r bs where st: "main_start ref_env ref_platform (ref_conf sample_files) (ref_args False) = Inr (r0, T0)"
    "engine_ok ref_env (repoStorage r0)" "stored ref_env (repoStorage r0) = Map.empty"
    "renamePrefix (repoStorage r0) = []"
    and step: "served T0 ref_prefix InsertCommand" "prefix ref_prefix (iName (ref_command [''a'']))"
      "repo_step ref_env ref_platform (InterestAt InsertCommand ref_prefix (ref_command [''a'']) []) r0 = Inr (r, bs)"
    and out: "RFetch (fetch_interest ref_lib [generic ''a'']) (WriteCb (WriteData 0)) (Some (WriteCb (WriteTimeout 0)))
         \<in> set (repo_calls bs)"
      "0 \<in> processes (writeHandle r)" "repoStorage r = repoStorage r0"
    using ref_insert_accepted by blast
  from session.event [OF session.start deliverable.interest [OF step(1,2)] step(3)]
  have "session ref_env ref_platform r0 T0 [ref_insert] r (T0 @ bs) (mset (repo_calls bs))" by simp
  moreover have "RFetch (fetch_interest ref_lib [generic ''a'']) (WriteCb (WriteData 0)) (Some (WriteCb (WriteTimeout 0)))
       \<in># mset (repo_calls bs)"
    using out(1) by simp
  ultimately show ?thesis using st out(2,3) by blast
qed

lemma data_step_write:
  assumes "table_ok (writeHandle r)" and "engine_ok E (repoStorage r)"
    and "pid \<in> processes (writeHandle r)" and p: "se_put E (repoStorage r) d = Inr (e', n, g)"
  shows "repo_step E X (DataFor (WriteCb (WriteData pid)) d) r
     = Inr (emit (writeSlots r) n (r\<lparr>writeHandle := write_onTimeout pid (writeHandle r), repoStorage := e'\<rparr>))"
proof -
  have "write_onData E (repoStorage r) d pid (writeHandle r)
      = Inr (write_onTimeout pid (writeHandle r), e', [EmitInsertion n])"
    by (rule data_cases [OF assms(1,2), where d = d and pid = pid]) (use assms(3) p in auto)
  then show ?thesis by (simp add: repo_simps split: prod.split)
qed

text \<open>And the run in which its packet has been stored as well.\<close>

lemma ref_repo_packet:
  "\<exists>r0 T0 r T P r' as T' P'. main_start ref_env ref_platform (ref_conf sample_files) (ref_args False) = Inr (r0, T0)
     \<and> engine_ok ref_env (repoStorage r0) \<and> stored ref_env (repoStorage r0) = Map.empty
     \<and> repo_run ref_env ref_platform r0 T0 r T P
     \<and> engine_ok ref_env (repoStorage r) \<and> stored ref_env (repoStorage r) = Map.empty
     \<and> repo_step ref_env ref_platform (DataFor (WriteCb (WriteData 0)) (ref_packet [''a''] ''x'')) r = Inr (r', as)
     \<and> session ref_env ref_platform r0 T0 [ref_insert, ref_arrival] r' T' P'
     \<and> stored ref_env (repoStorage r') = [[generic ''a''] \<mapsto> ref_packet [''a''] ''x'']"
proof -
  obtain r0 T0 r T P where st: "main_start ref_env ref_platform (ref_conf sample_files) (ref_args False) = Inr (r0, T0)"
     "engine_ok ref_env (repoStorage r0)" "stored ref_env (repoStorage r0) = Map.empty"
     "renamePrefix (repoStorage r0) = []"
    and ses: "session ref_env ref_platform r0 T0 [ref_insert] r T P"
    and pend: "RFetch (fetch_interest ref_lib [generic ''a'']) (WriteCb (WriteData 0)) (Some (WriteCb (WriteTimeout 0))) \<in># P"
    and pid: "0 \<in> processes (writeHandle r)" and eq: "repoStorage r = repoStorage r0"
    using ref_repo_run by blast
  note run = session_run [OF ses]
  note inv = repo_run_invariant [OF run start_inv [OF st(1,2)] env_packet [OF ref_env_ok]]
  let ?d = "ref_packet [''a''] ''x''" and ?e = "repoStorage r"
  have eng: "engine_ok ref_env ?e" using eq st(2) by simp
  obtain e' where put: "impl_put ref_env ?e ?d = Inr (e', dName (as_stored ref_env ?e ?d))"
    "stored ref_env e' = (stored ref_env ?e)(dName (as_stored ref_env ?e ?d) \<mapsto> as_stored ref_env ?e ?d)"
    using ref_put [OF eng, of ?d] by metis
  have same: "as_stored ref_env ?e ?d = ?d" "dName ?d = [generic ''a'']"
    using st(4) eq by (simp_all add: as_stored_def)
  have sp: "se_put ref_env ?e ?d = Inr (e', [generic ''a''], dName ?d)"
    using put(1) same by (simp add: se_put_def)
  obtain r' bs where em: "emit (writeSlots r) [generic ''a'']
      (r\<lparr>writeHandle := write_onTimeout 0 (writeHandle r), repoStorage := e'\<rparr>) = (r', bs)" by fastforce
  then have stp: "repo_step ref_env ref_platform (DataFor (WriteCb (WriteData 0)) ?d) r = Inr (r', bs)"
    using data_step_write [OF repo_invD(7) [OF inv] eng pid sp] by simp
  have "prefix (iName (fetch_interest ref_lib [generic ''a''])) (dName ?d)"
    using ref_packet_laws by (simp add: fetch_interest_def packet_laws_def)
  from session.event [OF ses deliverable.data [OF pend this] stp]
  obtain T' P' where run': "session ref_env ref_platform r0 T0 [ref_insert, ref_arrival] r' T' P'" by auto
  have "repoStorage r' = e'" using emit_effect [OF em] by auto
  with put(2) same eq st(3)
  have "stored ref_env (repoStorage r') = [[generic ''a''] \<mapsto> ?d]" by simp
  moreover have "stored ref_env (repoStorage r) = Map.empty" using st(3) eq by simp
  ultimately show ?thesis using st(1-3) run run' stp eng by blast
qed

lemma ref_repo_stored:
  "\<exists>r0 T0 r T P. main_start ref_env ref_platform (ref_conf sample_files) (ref_args False) = Inr (r0, T0)
     \<and> engine_ok ref_env (repoStorage r0) \<and> stored ref_env (repoStorage r0) = Map.empty
     \<and> repo_run ref_env ref_platform r0 T0 r T P
     \<and> stored ref_env (repoStorage r) = [[generic ''a''] \<mapsto> ref_packet [''a''] ''x'']"
  using ref_repo_packet session_run by blast

text \<open>
  C2: insert, then read. When the packet of an insert command arrives and is written under the
  name \<open>n\<close>, the repository has from that step on registered a prefix of \<open>n\<close>, and an interest
  for exactly \<open>n\<close> that reaches the read handler is answered with the packet as it was stored.
\<close>

theorem insert_then_read:
  assumes "main_start E X C a = Inr (r0, T0)" and "engine_ok E (repoStorage r0)"
    and run: "repo_run E X r0 T0 r T P" and pend: "RFetch i (WriteCb (WriteData pid)) t \<in># P"
    and pid: "pid \<in> processes (writeHandle r)"
    and put: "se_put E (repoStorage r) d = Inr (e', n, g)" and "n \<noteq> []"
  shows "\<exists>r' as. repo_step E X (DataFor (WriteCb (WriteData pid)) d) r = Inr (r', as)
    \<and> (\<exists>p. RegisterPrefix p ReadInterest ReadRegisterFailed \<in> set (T @ as) \<and> prefix p n)
    \<and> (\<forall>p j rnd. iName j = n \<and> \<not> canBePrefix j \<and> \<not> mustBeFresh j \<longrightarrow>
        repo_step E X (InterestAt ReadInterest p j rnd) r' = Inr (r', [PutData (as_stored E (repoStorage r) d)]))"
proof -
  have inv: "repo_inv E UNIV r T P"
    using run start_inv [OF assms(1,2)] env_packet [OF engine_env [OF assms(2)]]
    by (rule repo_run_invariant)
  note eng = repo_invD(1) [OF inv]
  have k: "0 < writeSlots r" using connected_pending [OF repo_invD(2) [OF inv] pend] by simp
  let ?r1 = "r\<lparr>writeHandle := write_onTimeout pid (writeHandle r), repoStorage := e'\<rparr>"
  obtain r' as where em: "emit (writeSlots r) n ?r1 = (r', as)" by fastforce
  have "\<forall>p \<in> set (dataPrefixes (repoConfig r')). RegisterPrefix p ReadInterest ReadRegisterFailed \<in> set (T @ as)"
    using slots.notify_registered [OF em] repo_invD(4) [OF inv] by simp
  then have "\<exists>p. RegisterPrefix p ReadInterest ReadRegisterFailed \<in> set (T @ as) \<and> prefix p n"
    using slots.notify_covers [OF em k] by blast
  moreover have st: "repoStorage r' = e'" using emit_effect [OF em] by auto
  have st': "engine_ok E e'" "stored E e' n = Some (as_stored E (repoStorage r) d)"
    using se.put_inv [OF eng put] se.put_holds [OF eng put] assms(7) by auto
  have "repo_step E X (InterestAt ReadInterest p j rnd) r' = Inr (r', [PutData (as_stored E (repoStorage r) d)])"
    if "iName j = n" "\<not> canBePrefix j" "\<not> mustBeFresh j" for p j rnd
    using that st by (simp add: repo_step_def interest_step_def read_exact [OF st'(1)] st'(2))
  ultimately show ?thesis
    using data_step_write [OF repo_invD(7) [OF inv] eng pid put] em by auto
qed

theorem insert_then_read_witness:
  "\<exists>(r :: ((string, bytes) omap, ptree) repo) r' as d.
     repo_step ref_env ref_platform (DataFor (WriteCb (WriteData 0)) (ref_packet [''a''] ''x'')) r = Inr (r', as)
   \<and> repo_step ref_env ref_platform (InterestAt ReadInterest [] (ref_interest [''a''] False) []) r'
       = Inr (r', [PutData d]) \<and> dName d = [generic ''a'']"
proof -
  obtain r0 T0 and r :: "((string, bytes) omap, ptree) repo" and T P where
    st: "main_start ref_env ref_platform (ref_conf sample_files) (ref_args False) = Inr (r0, T0)"
     "engine_ok ref_env (repoStorage r0)"
    and ren: "renamePrefix (repoStorage r0) = []"
    and run: "repo_run ref_env ref_platform r0 T0 r T P"
    and pend: "RFetch (fetch_interest ref_lib [generic ''a'']) (WriteCb (WriteData 0)) (Some (WriteCb (WriteTimeout 0))) \<in># P"
    and pid: "0 \<in> processes (writeHandle r)" and eq: "repoStorage r = repoStorage r0"
    using ref_repo_run session_run by blast
  let ?d = "ref_packet [''a''] ''x''" and ?j = "ref_interest [''a''] False"
  have "engine_ok ref_env (repoStorage r)" using eq st(2) by simp
  then obtain e' where "impl_put ref_env (repoStorage r) ?d = Inr (e', dName (as_stored ref_env (repoStorage r) ?d))"
    using ref_put by metis
  then have sp: "se_put ref_env (repoStorage r) ?d = Inr (e', [generic ''a''], dName ?d)"
    using ren eq by (simp add: se_put_def as_stored_def)
  have j: "iName ?j = [generic ''a''] \<and> \<not> canBePrefix ?j \<and> \<not> mustBeFresh ?j"
    by (simp add: ref_interest_def)
  have "dName (as_stored ref_env (repoStorage r) ?d) = [generic ''a'']"
    using ren eq by (simp add: as_stored_def)
  with insert_then_read [OF st run pend pid sp] j show ?thesis by blast
qed

text \<open>
  C32: a packet that cannot be written is announced all the same. \<open>put\<close> then returns the empty
  name, the handler does not look at it and emits it, and the repository registers the root
  prefix for reading: from then on every name counts as served, so no later insertion
  registers anything, although nothing was stored.
\<close>

theorem failed_put_registers_root:
  assumes "table_ok (writeHandle r)" and "engine_ok E (repoStorage r)"
    and "pid \<in> processes (writeHandle r)" and "0 < writeSlots r"
    and put: "se_put E (repoStorage r) d = Inr (e', [], g)"
    and "[] \<notin> set (dataPrefixes (repoConfig r))" and "dName (as_stored E (repoStorage r) d) \<noteq> []"
  shows "\<exists>r'. repo_step E X (DataFor (WriteCb (WriteData pid)) d) r = Inr (r', [RegisterPrefix [] ReadInterest ReadRegisterFailed])
    \<and> stored E (repoStorage r') = stored E (repoStorage r) \<and> (\<forall>k m. emit k m r' = (r', []))"
proof -
  let ?r1 = "r\<lparr>writeHandle := write_onTimeout pid (writeHandle r), repoStorage := e'\<rparr>"
  obtain k where k: "writeSlots r = Suc k" using assms(4) by (cases "writeSlots r") auto
  have "\<not> covered ?r1 []" using assms(6) by (auto simp: covered_def)
  then have em: "emit (writeSlots r) [] ?r1 = (add_data_prefixes [[]] ?r1, [RegisterPrefix [] ReadInterest ReadRegisterFailed])"
    unfolding k emit_once by (simp add: onDataInsertion_cases)
  have all: "emit k m (add_data_prefixes [[]] ?r1) = (add_data_prefixes [[]] ?r1, [])" for k m
    by (rule emit_covered) simp
  have "stored E e' = stored E (repoStorage r)"
    using se.put_failed [OF assms(2) put assms(7)] .
  with data_step_write [OF assms(1-3) put] em all show ?thesis
    by (intro exI [of _ "add_data_prefixes [[]] ?r1"]) simp
qed

definition ref_env_ro :: "(string, bytes) omap env" where
  "ref_env_ro = \<lparr>lib = ref_lib, kv = ref_kv_ro\<rparr>"

theorem failed_put_registers_root_witness:
  "\<exists>(r :: ((string, bytes) omap, ptree) repo) r'.
     repo_step ref_env_ro ref_platform (DataFor (WriteCb (WriteData 7)) (ref_packet [''a''] ''x'')) r
       = Inr (r', [RegisterPrefix [] ReadInterest ReadRegisterFailed])"
proof -
  let ?h = "\<lparr>m_processes = omap_store 7 (pending_response 7) omap_empty\<rparr>"
  let ?r = "\<lparr>repoConfig = ref_config False, repoStorage = ref_open [], patternHandle = pattern_new ref_lib ref_platform,
     writeHandle = ?h, statusHandle = status_new, writeSlots = 1, patternSlots = 1\<rparr>"
  have env: "env_ok ref_env_ro"
    by (simp add: env_ok_def ref_env_ro_def ref_uri_laws ref_wire_laws ref_packet_laws ref_kv_ro_laws)
  have tab: "table_ok (writeHandle ?r)" "7 \<in> processes (writeHandle ?r)"
    by (auto simp: table_ok_def processes_def om.find_store split: if_splits)
  have eng: "engine_ok ref_env_ro (repoStorage ?r)"
    using env by (simp add: engine_ok_iff ref_open_def packets_only_def ref_env_ro_def)
  have put: "se_put ref_env_ro (repoStorage ?r) (ref_packet [''a''] ''x'') = Inr (ref_open [], [], [generic ''a''])"
    by (simp add: se_put_def impl_put_def ref_open_def ref_env_ro_def)
  have slots: "0 < writeSlots ?r" and pre: "[] \<notin> set (dataPrefixes (repoConfig ?r))"
    by (simp_all add: ref_config_def default_config_def)
  have "dName (as_stored ref_env_ro (repoStorage ?r) (ref_packet [''a''] ''x'')) \<noteq> []"
    by (simp add: as_stored_def ref_open_def)
  from failed_put_registers_root [OF tab(1) eng tab(2) slots put pre this, of ref_platform]
  show ?thesis by blast
qed

text \<open>
  C8: a repository in read-only mode never changes. Whatever the face delivers, the state is that
  of the start, nothing is pending with the face, and all that has been asked of it is to
  register data prefixes, to send packets, each of which was stored at the start under its name,
  and, only if the registration of a data prefix has failed, to shut down.
\<close>

theorem read_only_never_writes:
  assumes start: "main_start E X C a = Inr (r0, T0)" and cfg: "main_config C (lib E) a = Inr cfg"
    and ro: "readOnly cfg" and eng: "engine_ok E (repoStorage r0)"
    and run: "session E X r0 T0 evs r T P"
  shows "r = r0 \<and> P = {#} \<and> (\<forall>x \<in> set T. (\<exists>p. x = RegisterPrefix p ReadInterest ReadRegisterFailed)
    \<or> (\<exists>d. x = PutData d \<and> stored E (repoStorage r0) (dName d) = Some d)
    \<or> x = ShutdownFace \<and> (\<exists>p. RegisterFailed ReadRegisterFailed p \<in> set evs))"
  using run
proof (induction rule: session.induct)
  case start
  from assms(1) show ?case
    by (cases rule: start_cases) (use cfg ro in auto)
next
  case (event evs r T P ev Q r' as)
  from event(2) show ?case
  proof cases
    case (interest p ep i rnd)
    from interest(3) event(4) have ep: "ep = ReadInterest" by (auto simp: served_def)
    with interest(1) event(3,4) have "r' = r0" and rd: "read_onInterest E (repoStorage r0) i = Inr as"
      by (auto simp: repo_step_def interest_step_def rbind_Inr)
    with read_outcome [OF eng rd] event(4) interest(2) show ?thesis by auto
  next
    case (unregistered p ep f)
    with event(4) have "f = ReadRegisterFailed" by auto
    with event(3) unregistered(1) have "r' = r" "as = [ShutdownFace]"
      by (simp_all add: repo_step_def register_failed_step_def read_onRegisterFailed_def)
    with event(4) unregistered \<open>f = ReadRegisterFailed\<close> show ?thesis by auto
  qed (use event(4) in auto)
qed auto

theorem read_only_never_writes_witness:
  "\<exists>(r0 :: ((string, bytes) omap, ptree) repo) T0.
     main_start ref_env ref_platform (ref_conf sample_files) (ref_args True) = Inr (r0, T0)
   \<and> (\<forall>x \<in> set T0. \<exists>p. x = RegisterPrefix p ReadInterest ReadRegisterFailed)"
proof -
  obtain r0 :: "((string, bytes) omap, ptree) repo" and T0 where
    st: "main_start ref_env ref_platform (ref_conf sample_files) (ref_args True) = Inr (r0, T0)"
    "engine_ok ref_env (repoStorage r0)" "stored ref_env (repoStorage r0) = Map.empty"
    using ref_start by blast
  have "readOnly (ref_config True)" by (simp add: ref_config_def)
  from read_only_never_writes [OF st(1) ref_main_config this st(2) session.start] st(1,3)
  show ?thesis by auto
qed

end
