(* ===== verification/Example_Clients.thy ===== *)
theory Example_Clients
  imports Pattern_Properties
begin

text \<open>
  \<open>examples/pattern-fetch.cpp\<close> and \<open>examples/pattern-cancel.cpp\<close>: the two command-line programs
  that start and cancel a fetch pattern. Each sends one command interest and runs the event
  loop until a callback has disabled it or has called \<open>exit\<close>. The programs differ in the
  command they build, in the status they wait for and in what they print.
\<close>

section \<open>Library and state\<close>

text \<open>
  The functions of the NDN and protobuf libraries that only the clients use.
  \<open>partialResponse\<close> is what the message holds when \<open>decode\<close> has thrown.
\<close>

record client_lib =
  encodeParameter :: "parameter \<Rightarrow> bytes"
  encodeNameMsg :: "bytes list \<Rightarrow> bytes"
  makeCommandInterest :: "interest \<Rightarrow> interest"   \<comment> \<open>\<open>Face::makeCommandInterest\<close>\<close>
  partialResponse :: "bytes \<Rightarrow> response"
  decodeWhat :: "bytes \<Rightarrow> string"                  \<comment> \<open>the text of the exception \<open>decode\<close> throws\<close>
  setupWhat :: "string option"                     \<comment> \<open>what is thrown before the loop, if anything\<close>

text \<open>
  Protobuf decoding inverts encoding, and a command interest has the name of the interest it is
  made of, with further components (a timestamp, a nonce, the signature) at the end.
\<close>

definition client_laws :: "ndn_lib \<Rightarrow> client_lib \<Rightarrow> bool" where
  "client_laws L K \<longleftrightarrow>
     (\<forall>cs. decodeParameter L (encodeParameter K (name_parameter cs)) = Some (name_parameter cs))
   \<and> (\<forall>cs. decodeNameMsg L (encodeNameMsg K cs) = Some cs)
   \<and> (\<forall>i. \<exists>more. iName (makeCommandInterest K i) = iName i @ more)"

text \<open>The flag of the loop, the lines printed, and the code the process has ended with.\<close>

record client =
  enabled :: bool
  printed :: "string list"
  exitCode :: "int option"

definition client_new :: client where
  "client_new = \<lparr>enabled = True, printed = [], exitCode = None\<rparr>"

definition say :: "string \<Rightarrow> client \<Rightarrow> client" where
  "say line c = c\<lparr>printed := printed c @ [line]\<rparr>"

text \<open>What a call of \<open>processEvents\<close> hands to the callbacks of the command interest.\<close>

datatype delivery = ResponseData data | ResponseTimeout

section \<open>The loop of \<open>main\<close>\<close>

text \<open>
  One element of the list per round: what a call of \<open>processEvents\<close> delivers, if anything, and
  then the exception that leaves it, if any (the face has lost its connection, say). The loop is
  inside the \<open>try\<close> block of \<open>main\<close>: an exception ends it, and the result has its text.
  When a callback has called \<open>exit\<close> nothing more happens. The result is \<open>None\<close> when the rounds
  given do not suffice to end the loop.
\<close>

type_synonym round = "delivery option \<times> string option"

fun client_loop ::
  "(delivery \<Rightarrow> client \<Rightarrow> client) \<Rightarrow> round list \<Rightarrow> client \<Rightarrow> (string option \<times> client) option" where
  "client_loop on [] c = (if \<not> enabled c \<or> exitCode c \<noteq> None then Some (None, c) else None)"
| "client_loop on ((delivered, thrown) # rounds) c =
     (if \<not> enabled c \<or> exitCode c \<noteq> None then Some (None, c)
      else
        let c' = (case delivered of None \<Rightarrow> c | Some d \<Rightarrow> on d c)
        in if exitCode c' \<noteq> None then Some (None, c')
           else case thrown of None \<Rightarrow> client_loop on rounds c' | Some ex \<Rightarrow> Some (Some ex, c'))"

text \<open>The \<open>catch\<close> block of \<open>main\<close>.\<close>

fun catch_exception :: "string option \<times> client \<Rightarrow> client" where
  "catch_exception (None, c) = c"
| "catch_exception (Some ex, c) = say (''exception: '' @ ex) c"

text \<open>Both programs end with \<open>return 0\<close>, unless \<open>exit\<close> has been called.\<close>

definition return_0 :: "client \<Rightarrow> client" where
  "return_0 c = (case exitCode c of None \<Rightarrow> c\<lparr>exitCode := Some 0\<rparr> | Some _ \<Rightarrow> c)"

definition usage :: "string list \<Rightarrow> client" where
  "usage argv = (say (''Usage: '' @ concat (take 1 argv) @ '' <repo-command-prefix> <fetch-prefix>'')
     client_new)\<lparr>exitCode := Some 1\<rparr>"

definition printAndQuit :: "string \<Rightarrow> client \<Rightarrow> client" where
  "printAndQuit message c = (if message = [] then c else say message c)\<lparr>enabled := False\<rparr>"

section \<open>\<open>pattern-fetch\<close>\<close>

definition PATTERN_NAME :: string where
  "PATTERN_NAME = ''ndnrtc3''"

definition fetch_request :: "ndn_lib \<Rightarrow> client_lib \<Rightarrow> name \<Rightarrow> name \<Rightarrow> interest" where
  "fetch_request L K repoCommandPrefix fetchName =
     (let par = name_parameter [encodeNameMsg K [PATTERN_NAME],
                  encodeNameMsg K (map cvalue fetchName)]
      in makeCommandInterest K (newInterest L
           ((repoCommandPrefix @ [generic ''pattern'']) @ [generic (encodeParameter K par)])))"

definition onInsertStarted :: "ndn_lib \<Rightarrow> name \<Rightarrow> client \<Rightarrow> client" where
  "onInsertStarted L n c = (say (''Fetch started for '' @ toUri L n) c)\<lparr>exitCode := Some 0\<rparr>"

text \<open>When the response cannot be decoded the failure callback is called, and the code goes on.\<close>

definition requestFetchOnData :: "ndn_lib \<Rightarrow> client_lib \<Rightarrow> name \<Rightarrow> data \<Rightarrow> client \<Rightarrow> client" where
  "requestFetchOnData L K n d c =
     (let (r, c1) = (case decodeResponse L (dContent d) of
            Some r \<Rightarrow> (r, c)
          | None \<Rightarrow> (partialResponse K (dContent d), printAndQuit []
              (say (''Cannot decode the repo command response '' @ decodeWhat K (dContent d)) c)))
      in if statusCode r = 100 then onInsertStarted L n c1
         else printAndQuit []
           (say (''Got repo command error code '' @ to_string (uint (statusCode r))) c1))"

definition requestFetchOnTimeout :: "client \<Rightarrow> client" where
  "requestFetchOnTimeout c = printAndQuit [] (say ''Pattern repo command timeout'' c)"

fun fetch_callback :: "ndn_lib \<Rightarrow> client_lib \<Rightarrow> name \<Rightarrow> delivery \<Rightarrow> client \<Rightarrow> client" where
  "fetch_callback L K n (ResponseData d) c = requestFetchOnData L K n d c"
| "fetch_callback L K n ResponseTimeout c = requestFetchOnTimeout c"

text \<open>The interests the program expresses, and how it ends.\<close>

definition fetch_main ::
  "ndn_lib \<Rightarrow> client_lib \<Rightarrow> string list \<Rightarrow> round list \<Rightarrow> interest list \<times> client option" where
  "fetch_main L K argv rounds =
     (if length argv < 3 then ([], Some (usage argv))
      else case setupWhat K of
        Some ex \<Rightarrow> ([], Some (return_0 (catch_exception (Some ex, client_new))))
      | None \<Rightarrow>
          let repoCommandPrefix = ofUri L (argv ! 1);
              fetchPref = ofUri L (argv ! 2)
          in ([fetch_request L K repoCommandPrefix fetchPref],
              map_option (\<lambda>x. return_0 (catch_exception x))
                (client_loop (fetch_callback L K fetchPref) rounds client_new)))"

section \<open>\<open>pattern-cancel\<close>\<close>

definition cancel_request :: "ndn_lib \<Rightarrow> client_lib \<Rightarrow> name \<Rightarrow> name \<Rightarrow> interest" where
  "cancel_request L K repoCommandPrefix fetchName =
     makeCommandInterest K (newInterest L
       ((repoCommandPrefix @ [generic ''cancel''])
          @ [generic (encodeParameter K (name_parameter (map cvalue fetchName)))]))"

definition onCancelSucceed :: "ndn_lib \<Rightarrow> name \<Rightarrow> client \<Rightarrow> client" where
  "onCancelSucceed L n c = (say (''Cancel succeeded for '' @ toUri L n) c)\<lparr>exitCode := Some 0\<rparr>"

definition requestCancelOnData :: "ndn_lib \<Rightarrow> client_lib \<Rightarrow> name \<Rightarrow> data \<Rightarrow> client \<Rightarrow> client" where
  "requestCancelOnData L K n d c =
     (let (r, c1) = (case decodeResponse L (dContent d) of
            Some r \<Rightarrow> (r, c)
          | None \<Rightarrow> (partialResponse K (dContent d), printAndQuit []
              (say (''Cannot decode the repo command response '' @ decodeWhat K (dContent d)) c)))
      in if statusCode r = 101 then onCancelSucceed L n c1
         else printAndQuit []
           (say (''Got repo command error code '' @ to_string (uint (statusCode r))) c1))"

definition requestCancelOnTimeout :: "client \<Rightarrow> client" where
  "requestCancelOnTimeout c = printAndQuit [] (say ''Cancel repo command timeout'' c)"

fun cancel_callback :: "ndn_lib \<Rightarrow> client_lib \<Rightarrow> name \<Rightarrow> delivery \<Rightarrow> client \<Rightarrow> client" where
  "cancel_callback L K n (ResponseData d) c = requestCancelOnData L K n d c"
| "cancel_callback L K n ResponseTimeout c = requestCancelOnTimeout c"

definition cancel_main ::
  "ndn_lib \<Rightarrow> client_lib \<Rightarrow> string list \<Rightarrow> round list \<Rightarrow> interest list \<times> client option" where
  "cancel_main L K argv rounds =
     (if length argv < 3 then ([], Some (usage argv))
      else case setupWhat K of
        Some ex \<Rightarrow> ([], Some (return_0 (catch_exception (Some ex, client_new))))
      | None \<Rightarrow>
          let repoCommandPrefix = ofUri L (argv ! 1);
              fetchPref = ofUri L (argv ! 2)
          in ([cancel_request L K repoCommandPrefix fetchPref],
              map_option (\<lambda>x. return_0 (catch_exception x))
                (client_loop (cancel_callback L K fetchPref) rounds client_new)))"

lemmas [handler_simps] =
  say_def printAndQuit_def return_0_def onInsertStarted_def onCancelSucceed_def
  requestFetchOnData_def requestFetchOnTimeout_def requestCancelOnData_def
  requestCancelOnTimeout_def

end
