(* ===== verification/Client_Session.thy ===== *)
theory Client_Session
  imports Example_Clients
begin

text \<open>
  The two example clients against the pattern handle. The network is reduced to what it owes a
  client: the command interest reaches the endpoint, and the packet the handle sends reaches
  the client. Seen from the command line the pair is a set of active prefixes with two
  operations that report success or failure, and this is what it is proved to refine.
\<close>

section \<open>The loop of a client\<close>

text \<open>The rounds in which something happens.\<close>

fun eventful :: "round \<Rightarrow> bool" where
  "eventful (delivered, thrown) \<longleftrightarrow> delivered \<noteq> None \<or> thrown \<noteq> None"

text \<open>What the loop needs of a callback: it ends the program, and never with a failure code.\<close>

locale client_callback =
  fixes on :: "delivery \<Rightarrow> client \<Rightarrow> client"
  assumes ends: "\<not> enabled (on d c) \<or> exitCode (on d c) \<noteq> None"
    and code: "exitCode c = None \<Longrightarrow> exitCode (on d c) \<in> {None, Some 0}"
begin

lemma loop_stopped: "\<not> enabled c \<or> exitCode c \<noteq> None \<Longrightarrow> client_loop on rounds c = Some (None, c)"
  by (cases rounds) auto

text \<open>The first eventful round ends the loop: with its delivery, its exception, or both.\<close>

lemma loop_quiet:
  "enabled c \<Longrightarrow> exitCode c = None \<Longrightarrow> \<forall>x \<in> set quiet. \<not> eventful x \<Longrightarrow>
     client_loop on (quiet @ rounds) c = client_loop on rounds c"
  by (induction quiet) auto

lemma loop_eventful:
  assumes "enabled c" and "exitCode c = None" and "eventful (delivered, thrown)"
  shows "client_loop on ((delivered, thrown) # rounds) c
    = (case delivered of
         None \<Rightarrow> Some (thrown, c)
       | Some d \<Rightarrow> Some (if exitCode (on d c) \<noteq> None then None else thrown, on d c))"
  using assms loop_stopped [of _ rounds] ends by (cases delivered; cases thrown) auto

lemma loop_first:
  assumes "enabled c" and "exitCode c = None"
  shows "(\<forall>x \<in> set rounds. \<not> eventful x) \<and> client_loop on rounds c = None
    \<or> (\<exists>x \<in> set rounds. eventful x) \<and> (\<exists>thrown c'. client_loop on rounds c = Some (thrown, c')
        \<and> (c' = c \<or> (\<exists>d. c' = on d c)))"
proof (cases "\<exists>x \<in> set rounds. eventful x")
  case True
  then obtain quiet delivered thrown later where r: "rounds = quiet @ (delivered, thrown) # later"
    "eventful (delivered, thrown)" "\<forall>x \<in> set quiet. \<not> eventful x"
    by (metis split_list_first_prop prod.exhaust)
  with True loop_quiet [OF assms r(3)] loop_eventful [OF assms r(2)] show ?thesis
    by (cases delivered) auto
next
  case False
  with loop_quiet [OF assms, of rounds "[]"] assms show ?thesis by auto
qed

lemma new_client: "enabled client_new" "exitCode client_new = None"
  by (simp_all add: client_new_def)

lemma loop_returns_iff:
  "(\<exists>c. map_option (\<lambda>x. return_0 (catch_exception x)) (client_loop on rounds client_new) = Some c)
     \<longleftrightarrow> (\<exists>x \<in> set rounds. eventful x)"
  using loop_first [OF new_client, of rounds] by auto

lemma catch_code: "exitCode (catch_exception (thrown, c)) = exitCode c"
  by (cases thrown) (simp_all add: say_def)

lemma loop_exit_code:
  assumes "map_option (\<lambda>x. return_0 (catch_exception x)) (client_loop on rounds client_new) = Some c"
  shows "exitCode c = Some 0"
proof -
  from assms obtain thrown c' where run: "client_loop on rounds client_new = Some (thrown, c')"
    and c: "c = return_0 (catch_exception (thrown, c'))" by auto
  have "c' = client_new \<or> (\<exists>d. c' = on d client_new)"
    using loop_first [OF new_client, of rounds] run by auto
  then have "exitCode c' \<in> {None, Some 0}" using code [of client_new] new_client(2) by auto
  with c catch_code [of thrown c'] show ?thesis by (auto simp: return_0_def)
qed

text \<open>A delivery alone, as the client is run against the handle.\<close>

lemma loop_delivery:
  "client_loop on [(Some d, None)] client_new = Some (None, on d client_new)"
  using loop_eventful [OF new_client, of "Some d" None "[]"] by simp

end

interpretation fetch_cb: client_callback "fetch_callback L K n"
proof unfold_locales
  fix d c
  show "\<not> enabled (fetch_callback L K n d c) \<or> exitCode (fetch_callback L K n d c) \<noteq> None"
    by (cases d) (auto simp: handler_simps Let_def split: option.splits)
  show "exitCode c = None \<Longrightarrow> exitCode (fetch_callback L K n d c) \<in> {None, Some 0}"
    by (cases d) (auto simp: handler_simps Let_def split: option.splits)
qed

interpretation cancel_cb: client_callback "cancel_callback L K n"
proof unfold_locales
  fix d c
  show "\<not> enabled (cancel_callback L K n d c) \<or> exitCode (cancel_callback L K n d c) \<noteq> None"
    by (cases d) (auto simp: handler_simps Let_def split: option.splits)
  show "exitCode c = None \<Longrightarrow> exitCode (cancel_callback L K n d c) \<in> {None, Some 0}"
    by (cases d) (auto simp: handler_simps Let_def split: option.splits)
qed

section \<open>A client and the handle\<close>

datatype client_op = Fetch name | Cancel name

fun op_name :: "client_op \<Rightarrow> name" where
  "op_name (Fetch n) = n"
| "op_name (Cancel n) = n"

text \<open>The command line that names the command prefix and the fetch prefix.\<close>

definition command_line :: "ndn_lib \<Rightarrow> name \<Rightarrow> name \<Rightarrow> string list" where
  "command_line L cmd n = [''client'', toUri L cmd, toUri L n]"

definition client_fails :: "string \<Rightarrow> client option" where
  "client_fails line = Some \<lparr>enabled = False, printed = [line], exitCode = Some 0\<rparr>"

text \<open>
  One run of a client: its interest is handled at the endpoint below the command prefix, and
  the packets sent are delivered.
\<close>

definition run_client ::
  "ndn_lib \<Rightarrow> platform \<Rightarrow> client_lib \<Rightarrow> string \<Rightarrow> name \<Rightarrow> client_op \<Rightarrow> pattern_handle
     \<Rightarrow> (pattern_handle \<times> client option) result" where
  "run_client L X K rename cmd op s =
     (let argv = command_line L cmd (op_name op) in
      case op of
        Fetch n \<Rightarrow>
          (let (s', as) = pattern_onInterest L X rename (cmd @ [generic ''pattern''])
                            (hd (fst (fetch_main L K argv []))) s
           in Inr (s', snd (fetch_main L K argv (map (\<lambda>d. (Some (ResponseData d), None)) (sent as)))))
      | Cancel n \<Rightarrow>
          (case onCancelRequest L (cmd @ [generic ''cancel''])
                  (hd (fst (cancel_main L K argv []))) s of
             Inl ex \<Rightarrow> Inl ex
           | Inr (s', as) \<Rightarrow>
               Inr (s', snd (cancel_main L K argv (map (\<lambda>d. (Some (ResponseData d), None)) (sent as))))))"

fun run_clients ::
  "ndn_lib \<Rightarrow> platform \<Rightarrow> client_lib \<Rightarrow> string \<Rightarrow> name \<Rightarrow> client_op list \<Rightarrow> pattern_handle
     \<Rightarrow> (pattern_handle \<times> client option list) result" where
  "run_clients L X K rename cmd [] s = Inr (s, [])"
| "run_clients L X K rename cmd (op # ops) s =
     (case run_client L X K rename cmd op s of
        Inl ex \<Rightarrow> Inl ex
      | Inr (s', c) \<Rightarrow>
          (case run_clients L X K rename cmd ops s' of
             Inl ex \<Rightarrow> Inl ex
           | Inr (s'', cs) \<Rightarrow> Inr (s'', c # cs)))"

section \<open>The specification\<close>

text \<open>
  The service a user sees: a set of active prefixes. \<open>known\<close> says whether the repository has
  the pattern the client asks for.
\<close>

fun service :: "bool \<Rightarrow> client_op \<Rightarrow> name set \<Rightarrow> name set \<times> bool" where
  "service known (Fetch n) A = (if known \<and> n \<notin> A then (insert n A, True) else (A, False))"
| "service known (Cancel n) A = (if n \<in> A then (A - {n}, True) else (A, False))"

fun services :: "bool \<Rightarrow> client_op list \<Rightarrow> name set \<Rightarrow> name set \<times> bool list" where
  "services known [] A = (A, [])"
| "services known (op # ops) A =
     (let (A', ok) = service known op A; (A'', oks) = services known ops A' in (A'', ok # oks))"

definition active :: "pattern_handle \<Rightarrow> name set" where
  "active s = dom (omap_find (patterns s))"

definition known_pattern :: "pattern_handle \<Rightarrow> bool" where
  "known_pattern s \<longleftrightarrow> [generic PATTERN_NAME] \<in> set (getSupportedPatterns (handleFactory s))"

text \<open>A client has succeeded when it ended with the one line it prints on success.\<close>

fun success_line :: "ndn_lib \<Rightarrow> client_op \<Rightarrow> string" where
  "success_line L (Fetch n) = ''Fetch started for '' @ toUri L n"
| "success_line L (Cancel n) = ''Cancel succeeded for '' @ toUri L n"

definition succeeded :: "ndn_lib \<Rightarrow> client_op \<Rightarrow> client option \<Rightarrow> bool" where
  "succeeded L op c \<longleftrightarrow> (case c of None \<Rightarrow> False | Some c \<Rightarrow> printed c = [success_line L op])"

section \<open>One run of a client\<close>

lemma request_reaches_handle:
  assumes "client_laws L K" and "packet_laws L" and n: "generic_name n"
  shows "\<exists>par. extractParameter L (fetch_request L K cmd n) (cmd @ [generic ''pattern'']) = Inr par
      \<and> decodeNames L (pName par) = Some ([generic PATTERN_NAME], n)"
    and "\<exists>par. extractParameter L (cancel_request L K cmd n) (cmd @ [generic ''cancel'']) = Inr par
      \<and> message_name (pName par) = n"
proof -
  have name: "message_name (map cvalue n) = n"
    using n by (simp add: message_name_def generic_name_def generic_cvalue map_idI)
  note laws = assms(1,2) [unfolded client_laws_def packet_laws_def]
  have component: "extractParameter L (makeCommandInterest K (newInterest L ((p @ [v]) @ [generic
      (encodeParameter K (name_parameter cs))]))) (p @ [v]) = Inr (name_parameter cs)" for p v cs
  proof -
    obtain more where "iName (makeCommandInterest K (newInterest L ((p @ [v]) @
        [generic (encodeParameter K (name_parameter cs))])))
      = ((p @ [v]) @ [generic (encodeParameter K (name_parameter cs))]) @ more"
      using laws by metis
    with laws show ?thesis by (simp add: extractParameter_def nth_append)
  qed
  show "\<exists>par. extractParameter L (fetch_request L K cmd n) (cmd @ [generic ''pattern'']) = Inr par
      \<and> decodeNames L (pName par) = Some ([generic PATTERN_NAME], n)"
    using component laws name
    by (simp add: fetch_request_def Let_def decodeNames_def name_parameter_def)
      (simp add: message_name_def)
  show "\<exists>par. extractParameter L (cancel_request L K cmd n) (cmd @ [generic ''cancel'']) = Inr par
      \<and> message_name (pName par) = n"
    using component name by (simp add: cancel_request_def name_parameter_def)
qed

lemma client_reports:
  assumes "uri_laws L" and "packet_laws L" and "setupWhat K = None"
  shows "succeeded L (Fetch n) (snd (fetch_main L K (command_line L cmd n)
           [(Some (ResponseData (answer L i r)), None)])) \<longleftrightarrow> statusCode r = 100"
    and "succeeded L (Cancel n) (snd (cancel_main L K (command_line L cmd n)
           [(Some (ResponseData (answer L i r)), None)])) \<longleftrightarrow> statusCode r = 101"
  using assms(3) answer_sel [OF assms(2), of i r]
  by (auto simp: fetch_main_def cancel_main_def command_line_def of_to_uri [OF assms(1)]
      handler_simps client_new_def succeeded_def Let_def)

text \<open>What the handle does with a request that reaches it, in terms of the active prefixes.\<close>

lemma handle_fetches:
  assumes ok: "handle_ok s" and L: "uri_laws L"
    and par: "extractParameter L i p = Inr par" "decodeNames L (pName par) = Some ([generic PATTERN_NAME], n)"
  obtains s' as code where "pattern_onInterest L X rename p i s = (s', as)" "handle_ok s'"
    "sent as = [answer L i (status_only code)]"
    "service (known_pattern s) (Fetch n) (active s) = (active s', code = 100)"
    "handleFactory s' = handleFactory s" "code \<in> {100, 402, 403, 404}"
proof (cases rule: pattern_command_cases [where L = L and X = X and rename = rename and p = p
      and i = i and s = s])
  case (refused code)
  have "\<not> (known_pattern s \<and> n \<notin> active s)"
  proof
    assume "known_pattern s \<and> n \<notin> active s"
    then have "omap_find (patterns s) n = None"
      "factory_create L (handleFactory s) [generic PATTERN_NAME] \<noteq> None"
      using factory_create_iff [OF L] by (auto simp: known_pattern_def active_def)
    with refused(2) par show False
      by (auto simp: pattern_onInterest_def Let_def split: prod.splits)
  qed
  with refused ok show thesis by (intro that [of s "[negativeReply L i code]" code]) auto
next
  case (started par' pat fp obj obj' as)
  with par have [simp]: "par' = par" "pat = [generic PATTERN_NAME]" "fp = n" by auto
  from started(4) have "known_pattern s"
    using factory_create_iff [OF L, of "handleFactory s" pat] by (simp add: known_pattern_def)
  moreover from started(3) have "n \<notin> active s" by (auto simp: active_def)
  ultimately show thesis
    using started handle_ok_start [OF ok started(3)] fetch_sends_nothing [OF started(5)]
    by (intro that [where code = 100, OF started(6)]) (auto simp: active_def om.find_store)
qed

lemma handle_cancels:
  assumes ok: "handle_ok s" and par: "extractParameter L i p = Inr par" "message_name (pName par) = n"
  obtains s' as code where "onCancelRequest L p i s = Inr (s', as)" "handle_ok s'"
    "sent as = [answer L i (status_only code)]"
    "service (known_pattern s) (Cancel n) (active s) = (active s', code = 101)"
    "handleFactory s' = handleFactory s" "code \<in> {101, 402}"
  using ok
proof (cases rule: cancel_command_cases [where L = L and p = p and i = i])
  case (unreadable ex)
  with par show thesis by simp
next
  case (unknown par')
  with par ok show thesis
    by (intro that [where code = 402, OF unknown(3)]) (auto simp: active_def)
next
  case (cancelled par' a obj obj' as)
  with par cancel_sends_nothing [OF cancelled(4)] handle_ok_erase [OF ok cancelled(2)] show thesis
    by (intro that [where code = 101, OF cancelled(5)]) (auto simp: active_def om.find_erase)
qed

section \<open>Properties\<close>

lemma run_client_refines:
  assumes ok: "handle_ok s" and L: "uri_laws L" "packet_laws L" "client_laws L K" and "setupWhat K = None"
    and n: "generic_name (op_name op)"
  shows "\<exists>s' c. run_client L X K rename cmd op s = Inr (s', c) \<and> handle_ok s'
    \<and> known_pattern s' = known_pattern s
    \<and> service (known_pattern s) op (active s) = (active s', succeeded L op c)"
proof (cases op)
  case (Fetch n)
  with n obtain par where par: "extractParameter L (fetch_request L K cmd n) (cmd @ [generic ''pattern'']) = Inr par"
    "decodeNames L (pName par) = Some ([generic PATTERN_NAME], n)"
    using request_reaches_handle(1) [OF L(3,2)] by fastforce
  obtain s' as code where h: "pattern_onInterest L X rename (cmd @ [generic ''pattern''])
      (fetch_request L K cmd n) s = (s', as)" "handle_ok s'"
    "sent as = [answer L (fetch_request L K cmd n) (status_only code)]"
    "service (known_pattern s) (Fetch n) (active s) = (active s', code = 100)"
    "handleFactory s' = handleFactory s" "code \<in> {100, 402, 403, 404}"
    by (rule handle_fetches [OF ok L(1) par])
  have "hd (fst (fetch_main L K (command_line L cmd n) [])) = fetch_request L K cmd n"
    using assms(5) by (simp add: fetch_main_def command_line_def of_to_uri [OF L(1)] Let_def)
  moreover have "statusCode (status_only code) = 100 \<longleftrightarrow> code = 100"
    using h(6) by (auto simp: status_only_def)
  ultimately show ?thesis
    using h client_reports(1) [OF L(1,2) assms(5)] Fetch
    by (auto simp: run_client_def known_pattern_def Let_def)
next
  case (Cancel n)
  with n obtain par where par: "extractParameter L (cancel_request L K cmd n) (cmd @ [generic ''cancel'']) = Inr par"
    "message_name (pName par) = n"
    using request_reaches_handle(2) [OF L(3,2)] by fastforce
  obtain s' as code where h: "onCancelRequest L (cmd @ [generic ''cancel''])
      (cancel_request L K cmd n) s = Inr (s', as)" "handle_ok s'"
    "sent as = [answer L (cancel_request L K cmd n) (status_only code)]"
    "service (known_pattern s) (Cancel n) (active s) = (active s', code = 101)"
    "handleFactory s' = handleFactory s" "code \<in> {101, 402}"
    by (rule handle_cancels [OF ok par])
  have "hd (fst (cancel_main L K (command_line L cmd n) [])) = cancel_request L K cmd n"
    using assms(5) by (simp add: cancel_main_def command_line_def of_to_uri [OF L(1)] Let_def)
  moreover have "statusCode (status_only code) = 101 \<longleftrightarrow> code = 101"
    using h(6) by (auto simp: status_only_def)
  ultimately show ?thesis
    using h client_reports(2) [OF L(1,2) assms(5)] Cancel
    by (auto simp: run_client_def known_pattern_def Let_def)
qed

text \<open>
  C10: the example clients and the pattern handle together implement a set of active fetch
  prefixes. Whatever sequence of the two clients is run against a handle whose table and heap
  agree, nothing fails, a client reports success exactly when the specification's operation
  succeeds (`pattern-fetch` when the repository knows its pattern and the prefix is not active,
  `pattern-cancel` when it is), and the active prefixes are those of the specification. The
  prefixes must consist of generic components; the encoding drops other component types.
\<close>

theorem clients_refine_service:
  assumes "handle_ok s" and "uri_laws L" and "packet_laws L" and "client_laws L K"
    and "setupWhat K = None" and "\<forall>op \<in> set ops. generic_name (op_name op)"
  shows "\<exists>s' cs. run_clients L X K rename cmd ops s = Inr (s', cs) \<and> handle_ok s'
    \<and> services (known_pattern s) ops (active s) = (active s', map2 (succeeded L) ops cs)"
  using assms(1,6)
proof (induction ops arbitrary: s)
  case Nil
  then show ?case by simp
next
  case (Cons op ops)
  then have "generic_name (op_name op)" by simp
  then obtain s1 c where one: "run_client L X K rename cmd op s = Inr (s1, c)" "handle_ok s1"
    "known_pattern s1 = known_pattern s"
    "service (known_pattern s) op (active s) = (active s1, succeeded L op c)"
    using run_client_refines [OF Cons.prems(1) assms(2-5)] by blast
  from Cons.IH [OF one(2)] Cons.prems(2) obtain s' cs where
    "run_clients L X K rename cmd ops s1 = Inr (s', cs)" "handle_ok s'"
    "services (known_pattern s1) ops (active s1) = (active s', map2 (succeeded L) ops cs)"
    by auto
  with one show ?case by simp
qed

text \<open>
  C30: a client ends exactly when it is started with too few arguments, when the code before the
  loop throws, or when a call of `processEvents` delivers a response or a timeout, or throws;
  until then it keeps polling. Its exit code is 1 for too few arguments and 0 in every other
  case, so a refused command, a timeout and a lost connection cannot be told from success by it.
\<close>

theorem clients_end:
  shows "((\<exists>c. snd (fetch_main L K argv rounds) = Some c)
        \<longleftrightarrow> length argv < 3 \<or> setupWhat K \<noteq> None \<or> (\<exists>x \<in> set rounds. eventful x))
     \<and> ((\<exists>c. snd (cancel_main L K argv rounds) = Some c)
        \<longleftrightarrow> length argv < 3 \<or> setupWhat K \<noteq> None \<or> (\<exists>x \<in> set rounds. eventful x))
     \<and> (\<forall>c. Some c \<in> {snd (fetch_main L K argv rounds), snd (cancel_main L K argv rounds)}
        \<longrightarrow> exitCode c = Some (if length argv < 3 then 1 else 0))"
proof -
  note defs = fetch_main_def cancel_main_def Let_def return_0_def usage_def client_new_def say_def
  have "(\<exists>c. snd (fetch_main L K argv rounds) = Some c)
        \<longleftrightarrow> length argv < 3 \<or> setupWhat K \<noteq> None \<or> (\<exists>x \<in> set rounds. eventful x)"
    using fetch_cb.loop_returns_iff [of L K "ofUri L (argv ! 2)" rounds]
    by (cases "setupWhat K") (auto simp: fetch_main_def Let_def)
  moreover have "(\<exists>c. snd (cancel_main L K argv rounds) = Some c)
        \<longleftrightarrow> length argv < 3 \<or> setupWhat K \<noteq> None \<or> (\<exists>x \<in> set rounds. eventful x)"
    using cancel_cb.loop_returns_iff [of L K "ofUri L (argv ! 2)" rounds]
    by (cases "setupWhat K") (auto simp: cancel_main_def Let_def)
  moreover have "exitCode c = Some (if length argv < 3 then 1 else 0)"
    if "Some c = snd (fetch_main L K argv rounds)" for c
    using that fetch_cb.loop_exit_code [of L K "ofUri L (argv ! 2)" rounds c]
    by (cases "setupWhat K") (auto simp: fetch_main_def usage_def return_0_def say_def client_new_def Let_def split: if_splits)
  moreover have "exitCode c = Some (if length argv < 3 then 1 else 0)"
    if "Some c = snd (cancel_main L K argv rounds)" for c
    using that cancel_cb.loop_exit_code [of L K "ofUri L (argv ! 2)" rounds c]
    by (cases "setupWhat K") (auto simp: cancel_main_def usage_def return_0_def say_def client_new_def Let_def split: if_splits)
  ultimately show ?thesis by blast
qed

section \<open>A concrete library for the clients\<close>

definition ref_client_lib :: client_lib where
  "ref_client_lib = \<lparr>encodeParameter = (\<lambda>p. frames (pName p)), encodeNameMsg = frames,
     makeCommandInterest = (\<lambda>i. i\<lparr>iName := iName i @ [generic ''signature'']\<rparr>),
     partialResponse = (\<lambda>_. empty_response), decodeWhat = (\<lambda>_. []), setupWhat = None\<rparr>"

lemma ref_client_laws: "client_laws ref_lib ref_client_lib" "setupWhat ref_client_lib = None"
  by (simp_all add: client_laws_def ref_client_lib_def name_parameter_def)

lemma ref_known: "known_pattern (pattern_new ref_lib ref_platform)"
proof -
  have "getPatternKeyword ref_lib ref_platform Counter = [generic ''counter'']"
    "getPatternKeyword ref_lib ref_platform Ndnrtc = [generic ''ndnrtc3'']"
    unfolding getPatternKeyword.simps ref_platform_def ref_rtc_def by (simp; code_simp)+
  then have "[generic PATTERN_NAME] \<in> dom (omap_find (patternFactory ref_lib ref_platform))"
    by (simp add: patternFactory_def ref_platform_def om.find_store PATTERN_NAME_def Let_def)
  moreover have "set (getSupportedPatterns f) = dom (omap_find f)" for f
    by (simp only: getSupportedPatterns_def om.iter_keys)
  moreover have "handleFactory (pattern_new ref_lib ref_platform) = patternFactory ref_lib ref_platform"
    by (simp add: pattern_new_def factory_getInstance_def Let_def)
  ultimately show ?thesis by (simp only: known_pattern_def)
qed

theorem clients_refine_service_witness:
  "\<exists>s' cs. run_clients ref_lib ref_platform ref_client_lib [] [generic ''r'']
      [Fetch [generic ''a''], Fetch [generic ''a''], Cancel [generic ''a'']]
      (pattern_new ref_lib ref_platform) = Inr (s', cs)
    \<and> active s' = {} \<and> map2 (succeeded ref_lib)
      [Fetch [generic ''a''], Fetch [generic ''a''], Cancel [generic ''a'']] cs = [True, False, True]"
proof -
  let ?ops = "[Fetch [generic ''a''], Fetch [generic ''a''], Cancel [generic ''a'']]"
  have "\<forall>op \<in> set ?ops. generic_name (op_name op)" by (simp add: generic_name_def)
  moreover have "active (pattern_new ref_lib ref_platform) = {}" by (simp add: active_def handle_new(2))
  moreover have "known_pattern (pattern_new ref_lib ref_platform) = True" by (simp add: ref_known)
  ultimately obtain s' cs where "run_clients ref_lib ref_platform ref_client_lib [] [generic ''r''] ?ops
      (pattern_new ref_lib ref_platform) = Inr (s', cs)"
    "services True ?ops {} = (active s', map2 (succeeded ref_lib) ?ops cs)"
    using clients_refine_service [OF handle_new(1) [of ref_lib ref_platform] ref_uri_laws
      ref_packet_laws ref_client_laws, where ops = ?ops and X = ref_platform and rename = "[]"
      and cmd = "[generic ''r'']"] by metis
  moreover have "services True ?ops {} = ({}, [True, False, True])" by simp
  ultimately show ?thesis by (metis prod.inject)
qed

theorem clients_end_witness:
  "snd (fetch_main ref_lib ref_client_lib [''pattern-fetch'', ''/r'', ''/a''] [(None, None), (None, None)]) = None
   \<and> (\<exists>c. snd (fetch_main ref_lib ref_client_lib [''pattern-fetch'', ''/r'', ''/a'']
        [(None, None), (Some ResponseTimeout, None)]) = Some c \<and> exitCode c = Some 0)"
proof -
  let ?argv = "[''pattern-fetch'', ''/r'', ''/a'']"
  have "\<nexists>c. snd (fetch_main ref_lib ref_client_lib ?argv [(None, None), (None, None)]) = Some c"
    by (subst clients_end [THEN conjunct1]) (simp add: ref_client_laws)
  moreover have "\<exists>c. snd (fetch_main ref_lib ref_client_lib ?argv [(None, None), (Some ResponseTimeout, None)]) = Some c"
    by (subst clients_end [THEN conjunct1]) simp
  then obtain c where c: "snd (fetch_main ref_lib ref_client_lib ?argv [(None, None), (Some ResponseTimeout, None)]) = Some c"
    by blast
  moreover have "exitCode c = Some (if length ?argv < 3 then 1 else 0)"
    by (rule clients_end [THEN conjunct2, THEN conjunct2, rule_format,
          of _ ref_lib ref_client_lib ?argv "[(None, None), (Some ResponseTimeout, None)]"]) (simp add: c)
  ultimately show ?thesis by simp
qed

end
