(* ===== verification/Old_Protocol.thy ===== *)
theory Old_Protocol
  imports Base_Handle
begin

text \<open>
  What the command handlers kept under \<open>#if 0\<close> share: the message classes and library calls
  of the repo protocol as it was before the port to protobuf. The classes
  \<open>RepoCommandParameter\<close> and \<open>RepoCommandResponse\<close> and the storage class they were written for
  are not in the repository, so decoding, encoding and the storage operations are fields of a
  library record. Of the messages only what the handlers use is modelled, the fields with
  their \<open>has\<close>, \<open>get\<close> and \<open>set\<close> members: a field that has not been set is \<open>None\<close>, and asking
  for its value is an error.
\<close>

section \<open>Messages\<close>

record 'sel command =
  cmdHasName :: bool
  cmdName :: name
  cmdSelectors :: "'sel option"
  cmdStart :: "64 word option"
  cmdEnd :: "64 word option"
  cmdProcessId :: "64 word option"
  cmdMaxInterestNum :: "int option"
  cmdWatchTimeout :: "int option"
  cmdLifetime :: "int option"

record report =
  repStatus :: "int option"
  repProcessId :: "64 word option"
  repStart :: "64 word option"
  repEnd :: "64 word option"
  repInsertNum :: "64 word option"
  repDeleteNum :: "64 word option"

definition report_new :: report where
  "report_new = \<lparr>repStatus = None, repProcessId = None, repStart = None, repEnd = None,
     repInsertNum = None, repDeleteNum = None\<rparr>"

definition get_field :: "'a option \<Rightarrow> 'a result" where
  "get_field f = (case f of None \<Rightarrow> Inl (UndefinedBehaviour ''field is not set'') | Some x \<Rightarrow> Inr x)"

lemma get_field_simps [simp]: "get_field (Some x) = Inr x"
  by (simp add: get_field_def)

section \<open>Library\<close>

record ('sel, 'st) old_lib =
  oldNdn :: ndn_lib
  decodeCommand :: "bytes \<Rightarrow> 'sel command option"     \<comment> \<open>\<open>None\<close>: \<open>RepoCommandParameter::Error\<close>\<close>
  encodeReport :: "report \<Rightarrow> bytes"
  appendSegment :: "name \<Rightarrow> 64 word \<Rightarrow> name"           \<comment> \<open>\<open>Name::appendSegment\<close>\<close>
  toSegment :: "component \<Rightarrow> 64 word option"          \<comment> \<open>\<open>Component::toSegment\<close>, \<open>None\<close> when it throws\<close>
  setSelectors :: "'sel \<Rightarrow> interest \<Rightarrow> interest"
  insertData :: "'st \<Rightarrow> data \<Rightarrow> 'st \<times> bool"           \<comment> \<open>the members of the storage class\<close>
  deleteData :: "'st \<Rightarrow> name \<Rightarrow> 'st \<times> int"
  deleteMatching :: "'st \<Rightarrow> interest \<Rightarrow> 'st \<times> int"

text \<open>A segment number is one component, from which it is read back.\<close>

definition segment_laws :: "('sel, 'st) old_lib \<Rightarrow> bool" where
  "segment_laws G \<longleftrightarrow>
     (\<forall>n k. \<exists>c. appendSegment G n k = n @ [c] \<and> toSegment G c = Some k)
   \<and> (\<forall>n. iName (newInterest (oldNdn G) n) = n)"

section \<open>Parameters and replies\<close>

text \<open>
  The handlers catch \<open>RepoCommandParameter::Error\<close> only: \<open>Inr None\<close> stands for it, while a
  name that is too short makes \<open>Name::get\<close> throw something else.
\<close>

definition command_parameter ::
  "('sel, 'st) old_lib \<Rightarrow> interest \<Rightarrow> name \<Rightarrow> 'sel command option result" where
  "command_parameter G i p =
     (if length p < length (iName i) then Inr (decodeCommand G (cvalue (iName i ! length p)))
      else Inl (RuntimeError ''Name::get: Index is out of bounds''))"

definition old_answer :: "('sel, 'st) old_lib \<Rightarrow> interest \<Rightarrow> report \<Rightarrow> data" where
  "old_answer G i r =
     signData (oldNdn G) ((newData (oldNdn G) (iName i))\<lparr>dContent := encodeReport G r\<rparr>)"

definition old_reply :: "('sel, 'st) old_lib \<Rightarrow> interest \<Rightarrow> report \<Rightarrow> 'cb action" where
  "old_reply G i r = PutData (old_answer G i r)"

definition old_negativeReply :: "('sel, 'st) old_lib \<Rightarrow> interest \<Rightarrow> int \<Rightarrow> 'cb action" where
  "old_negativeReply G i code = old_reply G i (report_new\<lparr>repStatus := Some code\<rparr>)"

lemma sent_old_reply [simp]:
  "sent (old_reply G i r # as) = old_answer G i r # sent as"
  "sent (old_negativeReply G i code # as) = old_answer G i (report_new\<lparr>repStatus := Some code\<rparr>) # sent as"
  "expressed (old_reply G i r # as) = expressed as"
  "expressed (old_negativeReply G i code # as) = expressed as"
  by (simp_all add: old_reply_def old_negativeReply_def)

text \<open>\<open>interest.getName().get(-1).toSegment()\<close>\<close>

definition segment_of :: "('sel, 'st) old_lib \<Rightarrow> interest \<Rightarrow> 64 word result" where
  "segment_of G i =
     (if iName i = [] then Inl (RuntimeError ''Name::get: Index is out of bounds'')
      else case toSegment G (last (iName i)) of
        None \<Rightarrow> Inl (RuntimeError ''Component::toSegment'')
      | Some k \<Rightarrow> Inr k)"

definition segment_interest ::
  "('sel, 'st) old_lib \<Rightarrow> int \<Rightarrow> name \<Rightarrow> 64 word \<Rightarrow> interest" where
  "segment_interest G lifetime n k =
     (newInterest (oldNdn G) (appendSegment G n k))\<lparr>lifetimeMs := Some lifetime\<rparr>"

lemma segment_of_interest:
  assumes "segment_laws G"
  shows "segment_of G (segment_interest G t n k) = Inr k"
    and "butlast (iName (segment_interest G t n k)) = n"
proof -
  from assms obtain c where "appendSegment G n k = n @ [c]" "toSegment G c = Some k"
    unfolding segment_laws_def by blast
  with assms show "segment_of G (segment_interest G t n k) = Inr k"
    and "butlast (iName (segment_interest G t n k)) = n"
    by (simp_all add: segment_of_def segment_interest_def segment_laws_def)
qed

end
