(* ===== verification/Segment_Handle.thy ===== *)
theory Segment_Handle
  imports Old_Protocol
begin

text \<open>
  The part of \<open>write-handle.hpp\<close> and \<open>write-handle.cpp\<close> under \<open>#if 0\<close>: the insert handler with
  segmented fetching. A segmented process keeps up to twelve interests outstanding: each packet
  that arrives gives a credit, each interest that is sent takes one. Validation of commands and
  packets is asynchronous in the code and its verdict comes from the environment, so the two
  callbacks of each \<open>validate\<close> call are operations of their own. Time points and durations are
  milliseconds.
\<close>

section \<open>State\<close>

datatype seg_callback =
    SegmentData "64 word"       \<comment> \<open>\<open>bind(&WriteHandle::onSegmentData, this, _1, _2, processId)\<close>\<close>
  | SegmentTimeout "64 word"
  | SingleData "64 word"
  | SingleTimeout "64 word"
  | DeleteProcess "64 word"     \<comment> \<open>the scheduled \<open>deleteProcess\<close>\<close>

record seg_process =
  segResponse :: report
  nextSegmentQueue :: "64 word list"
  nextSegment :: "64 word"
  retryCounts :: "(64 word, int) omap"
  credit :: int
  noEndTime :: int

definition seg_process_new :: seg_process where
  "seg_process_new = \<lparr>segResponse = report_new, nextSegmentQueue = [], nextSegment = 0,
     retryCounts = omap_empty, credit = 0, noEndTime = 0\<rparr>"

record seg_handle =
  segProcesses :: "(64 word, seg_process) omap"
  m_retryTime :: int
  m_credit :: int
  m_noEndTimeout :: int
  m_interestLifetime :: int

definition seg_new :: seg_handle where
  "seg_new = \<lparr>segProcesses = omap_empty, m_retryTime = 3, m_credit = 12, m_noEndTimeout = 10000,
     m_interestLifetime = 4000\<rparr>"

datatype seg_endpoint = SegInsert | SegInsertCheck

definition seg_listen :: "name \<Rightarrow> (name \<times> seg_endpoint) list" where
  "seg_listen p = [(p @ [generic ''insert''], SegInsert), (p @ [generic ''insert check''], SegInsertCheck)]"

definition set_process :: "64 word \<Rightarrow> seg_process \<Rightarrow> seg_handle \<Rightarrow> seg_handle" where
  "set_process pid p s = s\<lparr>segProcesses := omap_store pid p (segProcesses s)\<rparr>"

text \<open>\<open>m_processes[processId]\<close> creates the process when there is none.\<close>

definition process_at :: "64 word \<Rightarrow> seg_handle \<Rightarrow> seg_process" where
  "process_at pid s = (case omap_find (segProcesses s) pid of None \<Rightarrow> seg_process_new | Some p \<Rightarrow> p)"

definition deleteProcess :: "64 word \<Rightarrow> seg_handle \<Rightarrow> seg_handle" where
  "deleteProcess pid s = s\<lparr>segProcesses := omap_erase pid (segProcesses s)\<rparr>"

definition deferredDeleteProcess :: "64 word \<Rightarrow> seg_callback action" where
  "deferredDeleteProcess pid = CallLater 10000 (DeleteProcess pid)"

definition express_segment ::
  "('sel, 'st) old_lib \<Rightarrow> seg_handle \<Rightarrow> 64 word \<Rightarrow> name \<Rightarrow> 64 word \<Rightarrow> seg_callback action" where
  "express_segment G s pid n k =
     ExpressInterest (segment_interest G (m_interestLifetime s) n k)
       (SegmentData pid) (Some (SegmentTimeout pid))"

section \<open>Starting a segmented fetch\<close>

lemma unat_next: "k < b \<Longrightarrow> unat (k + 1) = unat k + 1" for k b :: "64 word"
proof -
  assume "k < b"
  moreover have "unat b < 2 ^ 64" using unsigned_less [of b] by simp
  ultimately show ?thesis by (simp add: word_less_nat_alt unat_word_ariths)
qed

text \<open>The loop of \<open>segInit\<close>; the result has the segment the loop stopped at.\<close>

function seg_loop ::
  "('sel, 'st) old_lib \<Rightarrow> seg_handle \<Rightarrow> 64 word \<Rightarrow> name \<Rightarrow> 64 word \<Rightarrow> 64 word \<Rightarrow> seg_process
     \<Rightarrow> seg_process \<times> 64 word \<times> seg_callback action list" where
  "seg_loop G s pid n bound segment p =
     (if segment < bound then
        (let p' = p\<lparr>credit := credit p - 1, retryCounts := omap_store segment 0 (retryCounts p)\<rparr>;
             (q, k, as) = seg_loop G s pid n bound (segment + 1) p'
         in (q, k, express_segment G s pid n segment # as))
      else (p, segment, []))"
  by pat_completeness auto
termination
proof (relation "measure (\<lambda>(G, s, pid, n, bound, segment, p). unat bound - unat segment)")
  show "wf (measure (\<lambda>(G, s, pid, n, bound, segment, p). unat bound - unat segment))" by simp
next
  fix G :: "('sel, 'st) old_lib" and s pid n and bound segment :: "64 word" and p x
  assume "segment < bound" and "x = p\<lparr>credit := credit p - 1, retryCounts := omap_store segment 0 (retryCounts p)\<rparr>"
  then have "unat (segment + 1) = unat segment + 1" "unat segment < unat bound"
    by (simp_all add: unat_next word_less_nat_alt)
  then show "((G, s, pid, n, bound, segment + 1, x), G, s, pid, n, bound, segment, p)
     \<in> measure (\<lambda>(G, s, pid, n, bound, segment, p). unat bound - unat segment)"
    by simp
qed

declare seg_loop.simps [simp del]

definition segInit ::
  "('sel, 'st) old_lib \<Rightarrow> int \<Rightarrow> 64 word \<Rightarrow> 'sel command \<Rightarrow> seg_handle
     \<Rightarrow> (seg_handle \<times> seg_callback action list) result" where
  "segInit G now pid par s =
     (let p = process_at pid s in
      rbind (get_field (cmdStart par)) (\<lambda>begin_id.
        let (initialCredit, noEnd) =
              (case cmdEnd par of
                 Some e \<Rightarrow> (min (word_of_int (m_credit s)) (e - begin_id + 1), noEndTime p)
               | None \<Rightarrow> (word_of_int (m_credit s), now + m_noEndTimeout s));
            p1 = p\<lparr>credit := uint initialCredit, noEndTime := noEnd\<rparr>;
            (p2, segment, as) = seg_loop G s pid (cmdName par) (begin_id + initialCredit) begin_id p1;
            p3 = p2\<lparr>nextSegment := segment, nextSegmentQueue := nextSegmentQueue p2 @ [segment]\<rparr>
        in Inr (set_process pid p3 s, as)))"

text \<open>
  The report of a new process, as it is replied (status 100) and as it is kept (status 300).
\<close>

definition new_report :: "64 word \<Rightarrow> 64 word option \<Rightarrow> 64 word option \<Rightarrow> report \<Rightarrow> report" where
  "new_report pid b e r =
     (let r1 = r\<lparr>repStatus := Some 100, repProcessId := Some pid, repInsertNum := Some 0\<rparr>;
          r2 = (case b of None \<Rightarrow> r1 | Some k \<Rightarrow> r1\<lparr>repStart := Some k\<rparr>)
      in (case e of None \<Rightarrow> r2 | Some k \<Rightarrow> r2\<lparr>repEnd := Some k\<rparr>))"

definition start_process ::
  "64 word \<Rightarrow> 64 word option \<Rightarrow> 64 word option \<Rightarrow> seg_handle \<Rightarrow> report \<times> seg_handle" where
  "start_process pid b e s =
     (let p = process_at pid s;
          response = new_report pid b e (segResponse p)
      in (response, set_process pid (p\<lparr>segResponse := response\<lparr>repStatus := Some 300\<rparr>\<rparr>) s))"

definition processSegmentedInsertCommand ::
  "('sel, 'st) old_lib \<Rightarrow> int \<Rightarrow> 64 word \<Rightarrow> interest \<Rightarrow> 'sel command \<Rightarrow> seg_handle
     \<Rightarrow> (seg_handle \<times> seg_callback action list) result" where
  "processSegmentedInsertCommand G now pid i par s =
     (case cmdEnd par of
        Some end_id \<Rightarrow>
          (let begin_id = (case cmdStart par of None \<Rightarrow> 0 | Some k \<Rightarrow> k) in
           if begin_id > end_id then Inr (s, [old_negativeReply G i 403])
           else
             let (response, s1) = start_process pid (Some begin_id) (Some end_id) s
             in rbind (segInit G now pid (par\<lparr>cmdStart := Some begin_id\<rparr>) s1) (\<lambda>(s2, as).
                  Inr (s2, old_reply G i response # as)))
      | None \<Rightarrow>
          rbind (get_field (cmdStart par)) (\<lambda>begin_id.
            let (response, s1) = start_process pid (Some begin_id) None s
            in rbind (segInit G now pid par s1) (\<lambda>(s2, as).
                 Inr (s2, old_reply G i response # as))))"

definition seg_processSingleInsertCommand ::
  "('sel, 'st) old_lib \<Rightarrow> 64 word \<Rightarrow> interest \<Rightarrow> 'sel command \<Rightarrow> seg_handle
     \<Rightarrow> seg_handle \<times> seg_callback action list" where
  "seg_processSingleInsertCommand G pid i par s =
     (let (response, s1) = start_process pid None None s;
          j = (newInterest (oldNdn G) (cmdName par))\<lparr>lifetimeMs := Some (m_interestLifetime s)\<rparr>;
          j' = (case cmdSelectors par of None \<Rightarrow> j | Some sel \<Rightarrow> setSelectors G sel j)
      in (s1, [old_reply G i response,
               ExpressInterest j' (SingleData pid) (Some (SingleTimeout pid))]))"

section \<open>Insert commands\<close>

definition seg_onValidated ::
  "('sel, 'st) old_lib \<Rightarrow> int \<Rightarrow> 64 word \<Rightarrow> name \<Rightarrow> interest \<Rightarrow> seg_handle
     \<Rightarrow> (seg_handle \<times> seg_callback action list) result" where
  "seg_onValidated G now pid prefx i s =
     rbind (command_parameter G i prefx) (\<lambda>decoded.
       case decoded of
         None \<Rightarrow> Inr (s, [old_negativeReply G i 403])
       | Some par \<Rightarrow>
           if (cmdStart par \<noteq> None \<or> cmdEnd par \<noteq> None) \<and> cmdSelectors par \<noteq> None
           then Inr (s, [old_negativeReply G i 402])
           else
             rbind (if cmdStart par \<noteq> None \<or> cmdEnd par \<noteq> None
                    then processSegmentedInsertCommand G now pid i par s
                    else Inr (seg_processSingleInsertCommand G pid i par s)) (\<lambda>(s', as).
               Inr (case cmdLifetime par of
                      None \<Rightarrow> s' | Some t \<Rightarrow> s'\<lparr>m_interestLifetime := t\<rparr>, as)))"

text \<open>A command whose validation has ended, with the verdict.\<close>

definition seg_onValidationFailed :: "('sel, 'st) old_lib \<Rightarrow> interest \<Rightarrow> seg_callback action list" where
  "seg_onValidationFailed G i = [old_negativeReply G i 401]"

definition seg_onInterest ::
  "('sel, 'st) old_lib \<Rightarrow> bool \<Rightarrow> int \<Rightarrow> 64 word \<Rightarrow> name \<Rightarrow> interest \<Rightarrow> seg_handle
     \<Rightarrow> (seg_handle \<times> seg_callback action list) result" where
  "seg_onInterest G valid now pid prefx i s =
     (if valid then seg_onValidated G now pid prefx i s
      else Inr (s, seg_onValidationFailed G i))"

section \<open>Callbacks of a single fetch\<close>

definition seg_onDataValidated ::
  "('sel, 'st) old_lib \<Rightarrow> data \<Rightarrow> 64 word \<Rightarrow> seg_handle \<Rightarrow> 'st
     \<Rightarrow> (seg_handle \<times> 'st \<times> seg_callback action list) result" where
  "seg_onDataValidated G d pid s st =
     (case omap_find (segProcesses s) pid of
        None \<Rightarrow> Inr (s, st, [])
      | Some p \<Rightarrow>
          rbind (get_field (repInsertNum (segResponse p))) (\<lambda>num.
            if num = 0 then
              let (st', inserted) = insertData G st d
              in Inr (set_process pid (p\<lparr>segResponse := (segResponse p)\<lparr>repInsertNum := Some 1\<rparr>\<rparr>) s,
                      st', [deferredDeleteProcess pid])
            else Inr (s, st, [deferredDeleteProcess pid])))"

text \<open>
  What arrives for an interest is validated first, with the verdict an argument; a packet that
  fails is reported on the console and dropped.
\<close>

definition seg_onDataValidationFailed :: "seg_callback action list" where
  "seg_onDataValidationFailed = []"

definition seg_onData ::
  "('sel, 'st) old_lib \<Rightarrow> bool \<Rightarrow> data \<Rightarrow> 64 word \<Rightarrow> seg_handle \<Rightarrow> 'st
     \<Rightarrow> (seg_handle \<times> 'st \<times> seg_callback action list) result" where
  "seg_onData G valid d pid s st =
     (if valid then seg_onDataValidated G d pid s st else Inr (s, st, seg_onDataValidationFailed))"

definition seg_onTimeout :: "64 word \<Rightarrow> seg_handle \<Rightarrow> seg_handle" where
  "seg_onTimeout pid s = s\<lparr>segProcesses := omap_erase pid (segProcesses s)\<rparr>"

section \<open>Callbacks of a segmented fetch\<close>

text \<open>A final block id that is present, and what it does to the end of the range.\<close>

definition refresh_end :: "('sel, 'st) old_lib \<Rightarrow> data \<Rightarrow> report \<Rightarrow> report result" where
  "refresh_end G d r =
     (case finalBlockId (dMetaInfo d) of
        None \<Rightarrow> Inr r
      | Some c \<Rightarrow>
          if cvalue c = [] then Inr r
          else (case toSegment G c of
                  None \<Rightarrow> Inl (RuntimeError ''Component::toSegment'')
                | Some final \<Rightarrow>
                    Inr (case repEnd r of
                           Some e \<Rightarrow> if final < e then r\<lparr>repEnd := Some final\<rparr> else r
                         | None \<Rightarrow> r\<lparr>repEnd := Some final\<rparr>)))"

text \<open>Whether all segments of a range with a known end have been inserted.\<close>

definition range_complete :: "report \<Rightarrow> bool result" where
  "range_complete r =
     (case repEnd r of
        None \<Rightarrow> Inr False
      | Some e \<Rightarrow>
          rbind (get_field (repStart r)) (\<lambda>b.
          rbind (get_field (repInsertNum r)) (\<lambda>num. Inr (num \<ge> e - b + 1))))"

definition set_status :: "int \<Rightarrow> seg_process \<Rightarrow> seg_process" where
  "set_status code p = p\<lparr>segResponse := (segResponse p)\<lparr>repStatus := Some code\<rparr>\<rparr>"

text \<open>The last part of \<open>onSegmentDataControl\<close>, for a segment taken from the queue.\<close>

definition send_next ::
  "('sel, 'st) old_lib \<Rightarrow> 64 word \<Rightarrow> interest \<Rightarrow> 64 word \<Rightarrow> seg_process \<Rightarrow> seg_handle
     \<Rightarrow> (seg_handle \<times> seg_callback action list) result" where
  "send_next G pid i sendingSegment p s =
     rbind (segment_of G i) (\<lambda>fetchedSegment.
       if omap_find (retryCounts p) fetchedSegment = None then Inl (UndefinedBehaviour ''assertion'')
       else
         let p1 = p\<lparr>retryCounts := omap_erase fetchedSegment (retryCounts p)\<rparr>;
             count = (case omap_find (retryCounts p1) sendingSegment of None \<Rightarrow> 0 | Some k \<Rightarrow> k + 1);
             p2 = p1\<lparr>credit := credit p1 - 1,
                     retryCounts := omap_store sendingSegment count (retryCounts p1)\<rparr>;
             more = (case repEnd (segResponse p) of None \<Rightarrow> True | Some e \<Rightarrow> nextSegment p2 + 1 \<le> e);
             p3 = (if more then p2\<lparr>nextSegment := nextSegment p2 + 1,
                          nextSegmentQueue := nextSegmentQueue p2 @ [nextSegment p2 + 1]\<rparr>
                   else p2)
         in Inr (set_process pid p3 s,
                 [express_segment G s pid (butlast (iName i)) sendingSegment]))"

definition onSegmentDataControl ::
  "('sel, 'st) old_lib \<Rightarrow> int \<Rightarrow> 64 word \<Rightarrow> interest \<Rightarrow> seg_handle
     \<Rightarrow> (seg_handle \<times> seg_callback action list) result" where
  "onSegmentDataControl G now pid i s =
     (case omap_find (segProcesses s) pid of
        None \<Rightarrow> Inr (s, [])
      | Some p0 \<Rightarrow>
          let p = p0\<lparr>credit := credit p0 + 1\<rparr> in
          if repEnd (segResponse p) = None \<and> now > noEndTime p
          then Inr (set_process pid (set_status 405 p) s, [deferredDeleteProcess pid])
          else rbind (range_complete (segResponse p)) (\<lambda>complete.
            if complete then Inr (set_process pid (set_status 200 p) s, [deferredDeleteProcess pid])
            else if credit p = 0 then Inr (set_process pid p s, [])
            else (case nextSegmentQueue p of
                    [] \<Rightarrow> Inr (set_process pid p s, [])
                  | sendingSegment # queue \<Rightarrow>
                      let p1 = p\<lparr>nextSegmentQueue := queue\<rparr> in
                      (case repEnd (segResponse p) of
                         Some e \<Rightarrow> if sendingSegment > e then Inr (set_process pid p1 s, [])
                                   else send_next G pid i sendingSegment p1 s
                       | None \<Rightarrow> send_next G pid i sendingSegment p1 s))))"

definition onSegmentDataValidated ::
  "('sel, 'st) old_lib \<Rightarrow> int \<Rightarrow> interest \<Rightarrow> data \<Rightarrow> 64 word \<Rightarrow> seg_handle \<Rightarrow> 'st
     \<Rightarrow> (seg_handle \<times> 'st \<times> seg_callback action list) result" where
  "onSegmentDataValidated G now i d pid s st =
     (case omap_find (segProcesses s) pid of
        None \<Rightarrow> Inr (s, st, [])
      | Some p \<Rightarrow>
          rbind (refresh_end G d (segResponse p)) (\<lambda>r1.
            let (st', inserted) = insertData G st d in
            rbind (if inserted
                   then rbind (get_field (repInsertNum r1)) (\<lambda>num. Inr (r1\<lparr>repInsertNum := Some (num + 1)\<rparr>))
                   else Inr r1) (\<lambda>r2.
            rbind (onSegmentDataControl G now pid i (set_process pid (p\<lparr>segResponse := r2\<rparr>) s))
              (\<lambda>(s', as). Inr (s', st', as)))))"

definition onSegmentData ::
  "('sel, 'st) old_lib \<Rightarrow> bool \<Rightarrow> int \<Rightarrow> interest \<Rightarrow> data \<Rightarrow> 64 word \<Rightarrow> seg_handle \<Rightarrow> 'st
     \<Rightarrow> (seg_handle \<times> 'st \<times> seg_callback action list) result" where
  "onSegmentData G valid now i d pid s st =
     (if valid then onSegmentDataValidated G now i d pid s st
      else Inr (s, st, seg_onDataValidationFailed))"

definition onSegmentTimeoutControl ::
  "('sel, 'st) old_lib \<Rightarrow> 64 word \<Rightarrow> interest \<Rightarrow> seg_handle
     \<Rightarrow> (seg_handle \<times> seg_callback action list) result" where
  "onSegmentTimeoutControl G pid i s =
     (case omap_find (segProcesses s) pid of
        None \<Rightarrow> Inr (s, [])
      | Some p \<Rightarrow>
          rbind (segment_of G i) (\<lambda>timeoutSegment.
            case omap_find (retryCounts p) timeoutSegment of
              None \<Rightarrow> Inl (UndefinedBehaviour ''assertion'')
            | Some retryTime \<Rightarrow>
                if retryTime \<ge> m_retryTime s
                then Inr (s\<lparr>segProcesses := omap_erase pid (segProcesses s)\<rparr>, [])
                else Inr (set_process pid (p\<lparr>retryCounts :=
                            omap_store timeoutSegment (retryTime + 1) (retryCounts p)\<rparr>) s,
                     [ExpressInterest ((newInterest (oldNdn G) (iName i))\<lparr>lifetimeMs := Some (m_interestLifetime s)\<rparr>)
                        (SegmentData pid) (Some (SegmentTimeout pid))])))"

definition onSegmentTimeout ::
  "('sel, 'st) old_lib \<Rightarrow> 64 word \<Rightarrow> interest \<Rightarrow> seg_handle
     \<Rightarrow> (seg_handle \<times> seg_callback action list) result" where
  "onSegmentTimeout G pid i s = onSegmentTimeoutControl G pid i s"

section \<open>Insert checks\<close>

definition extendNoEndTime :: "seg_handle \<Rightarrow> int \<Rightarrow> seg_process \<Rightarrow> seg_process" where
  "extendNoEndTime s now p =
     (if now > noEndTime p then set_status 405 p
      else p\<lparr>noEndTime := now + m_noEndTimeout s\<rparr>)"

definition onCheckValidated ::
  "('sel, 'st) old_lib \<Rightarrow> int \<Rightarrow> name \<Rightarrow> interest \<Rightarrow> seg_handle
     \<Rightarrow> (seg_handle \<times> seg_callback action list) result" where
  "onCheckValidated G now prefx i s =
     rbind (command_parameter G i prefx) (\<lambda>decoded.
       case decoded of
         None \<Rightarrow> Inr (s, [old_negativeReply G i 403])
       | Some par \<Rightarrow>
           (case cmdProcessId par of
              None \<Rightarrow> Inr (s, [old_negativeReply G i 403])
            | Some pid \<Rightarrow>
                (case omap_find (segProcesses s) pid of
                   None \<Rightarrow> Inr (s, [old_negativeReply G i 404])
                 | Some p \<Rightarrow>
                     if repStart (segResponse p) = None \<and> repEnd (segResponse p) = None
                     then Inr (s, [old_reply G i (segResponse p)])
                     else if repEnd (segResponse p) = None
                     then let p' = extendNoEndTime s now p
                          in Inr (set_process pid p' s, [old_reply G i (segResponse p')])
                     else Inr (s, [old_reply G i (segResponse p)]))))"

definition onCheckValidationFailed :: "('sel, 'st) old_lib \<Rightarrow> interest \<Rightarrow> seg_callback action list" where
  "onCheckValidationFailed G i = [old_negativeReply G i 401]"

definition onCheckInterest ::
  "('sel, 'st) old_lib \<Rightarrow> bool \<Rightarrow> int \<Rightarrow> name \<Rightarrow> interest \<Rightarrow> seg_handle
     \<Rightarrow> (seg_handle \<times> seg_callback action list) result" where
  "onCheckInterest G valid now prefx i s =
     (if valid then onCheckValidated G now prefx i s
      else Inr (s, onCheckValidationFailed G i))"

end
