(* ===== verification/Segment_Run.thy ===== *)
theory Segment_Run
  imports Segment_Handle "HOL-Library.Multiset"
begin

text \<open>
  Runs of the segmented insert handler: the face delivers a packet or a timeout for each
  interest at most once, packets may fail validation, scheduled deletions fire. The invariant
  is about each process on its own: which segments it has asked for, which of them are
  outstanding, and how credits, queue and retry counts fit them.
\<close>

section \<open>The first requests\<close>

lemma unat_plus: "unat a + m < 2 ^ 64 \<Longrightarrow> unat (a + of_nat m) = unat a + m" for a :: "64 word"
proof -
  assume "unat a + m < 2 ^ 64"
  then have "m < 2 ^ 64" by simp
  then have "unat (of_nat m :: 64 word) = m" by (simp add: unat_of_nat)
  with \<open>unat a + m < 2 ^ 64\<close> show ?thesis by (simp add: unat_word_ariths)
qed

lemma unat_small: "unat (a :: 64 word) < 2 ^ 64"
  using unsigned_less [of a] by simp

fun segments_from :: "64 word \<Rightarrow> nat \<Rightarrow> 64 word list" where
  "segments_from a 0 = []"
| "segments_from a (Suc m) = a # segments_from (a + 1) m"

lemma segments_from_nth: "segments_from a m = map (\<lambda>j. a + of_nat j) [0..<m]"
proof (induction m arbitrary: a)
  case (Suc m)
  have "map (\<lambda>j. a + of_nat j) [0..<Suc m] = a # map (\<lambda>j. a + of_nat (Suc j)) [0..<m]"
    by (simp only: upt_conv_Cons [OF zero_less_Suc] map_Suc_upt [symmetric] map_map o_def list.map)
      simp
  with Suc.IH [of "a + 1"] show ?case by (simp add: add.assoc)
qed simp

fun zero_counts :: "64 word list \<Rightarrow> (64 word, int) omap \<Rightarrow> (64 word, int) omap" where
  "zero_counts [] m = m"
| "zero_counts (k # ks) m = zero_counts ks (omap_store k 0 m)"

lemma zero_counts_find:
  "omap_find (zero_counts ks m) k = (if k \<in> set ks then Some 0 else omap_find m k)"
  by (induction ks arbitrary: m) (auto simp: om.find_store)

text \<open>The loop counts up to its bound; when the bound has wrapped around, it does not start.\<close>

lemma seg_loop_counts:
  "unat a + m < 2 ^ 64 \<Longrightarrow>
     seg_loop G s pid n (a + of_nat m) a p =
       (p\<lparr>credit := credit p - int m, retryCounts := zero_counts (segments_from a m) (retryCounts p)\<rparr>,
        a + of_nat m, map (express_segment G s pid n) (segments_from a m))"
proof (induction m arbitrary: a p)
  case 0
  then show ?case by (simp add: seg_loop.simps)
next
  case (Suc m)
  have lt: "a < a + of_nat (Suc m)"
    using unat_plus [OF Suc.prems] by (simp add: word_less_nat_alt)
  then have "unat (a + 1) = unat a + 1" by (rule unat_next)
  then have "unat (a + 1) + m < 2 ^ 64" using Suc.prems by simp
  from Suc.IH [OF this] lt show ?case
    by (subst seg_loop.simps) (simp add: Let_def add.assoc)
qed

lemma seg_loop_wrapped:
  assumes "m \<le> 12" and "2 ^ 64 \<le> unat a + m"
  shows "seg_loop G s pid n (a + of_nat m) a p = (p, a, [])"
proof -
  have "unat (of_nat m :: 64 word) = m" using assms(1) by (simp add: unat_of_nat)
  then have "unat (a + of_nat m) = (unat a + m) mod 2 ^ 64" by (simp add: unat_word_ariths)
  also have "\<dots> = unat a + m - 2 ^ 64"
    using assms unat_small [of a] by (simp add: mod_if)
  finally have "\<not> a < a + of_nat m"
    using assms(1) by (simp add: word_less_nat_alt)
  then show ?thesis by (simp add: seg_loop.simps)
qed

text \<open>How many interests a fetch starts with, before and after the wrap-around of the bound.\<close>

definition initial_count :: "64 word \<Rightarrow> 64 word option \<Rightarrow> nat" where
  "initial_count b e = (case e of None \<Rightarrow> 12 | Some e \<Rightarrow> unat (min 12 (e - b + 1)))"

definition first_count :: "64 word \<Rightarrow> 64 word option \<Rightarrow> nat" where
  "first_count b e = (if unat b + initial_count b e < 2 ^ 64 then initial_count b e else 0)"

lemma initial_count_le: "initial_count b e \<le> 12"
proof (cases e)
  case (Some e')
  have "min 12 (e' - b + 1) \<le> 12" by simp
  then have "unat (min 12 (e' - b + 1)) \<le> unat (12 :: 64 word)"
    by (simp only: word_le_nat_alt)
  with Some show ?thesis by (simp add: initial_count_def)
qed (simp add: initial_count_def)

lemma first_count_le: "first_count b e \<le> initial_count b e" "first_count b e \<le> 12"
  "unat b + first_count b e < 2 ^ 64"
  using initial_count_le [of b e] unat_small [of b] by (simp_all add: first_count_def)

lemma seg_loop_first:
  "seg_loop G s pid n (b + of_nat (initial_count b e)) b p =
     (p\<lparr>credit := credit p - int (first_count b e),
        retryCounts := zero_counts (segments_from b (first_count b e)) (retryCounts p)\<rparr>,
      b + of_nat (first_count b e),
      map (express_segment G s pid n) (segments_from b (first_count b e)))"
proof (cases "unat b + initial_count b e < 2 ^ 64")
  case True
  then show ?thesis by (simp add: first_count_def seg_loop_counts)
next
  case False
  then have "seg_loop G s pid n (b + of_nat (initial_count b e)) b p = (p, b, [])"
    using initial_count_le by (intro seg_loop_wrapped) simp_all
  with False show ?thesis by (simp add: first_count_def)
qed

lemma segInit_spec:
  assumes "cmdStart par = Some b" and "m_credit s = 12"
  shows "\<exists>t. segInit G now pid par s =
    Inr (set_process pid ((process_at pid s)
      \<lparr>noEndTime := t, credit := int (initial_count b (cmdEnd par)) - int (first_count b (cmdEnd par)),
       retryCounts := zero_counts (segments_from b (first_count b (cmdEnd par))) (retryCounts (process_at pid s)),
       nextSegment := b + of_nat (first_count b (cmdEnd par)),
       nextSegmentQueue := nextSegmentQueue (process_at pid s) @ [b + of_nat (first_count b (cmdEnd par))]\<rparr>) s,
      map (express_segment G s pid (cmdName par)) (segments_from b (first_count b (cmdEnd par))))"
proof (cases "cmdEnd par")
  case None
  have "initial_count b None = 12" by (simp add: initial_count_def)
  with seg_loop_first [of G s pid "cmdName par" b None] assms None show ?thesis
    unfolding segInit_def by (intro exI [of _ "now + m_noEndTimeout s"]) (simp add: Let_def)
next
  case (Some e)
  let ?w = "min 12 (e - b + 1)"
  have w: "?w = of_nat (initial_count b (Some e))" "uint ?w = int (initial_count b (Some e))"
    by (simp_all add: initial_count_def)
  with assms Some show ?thesis
    unfolding segInit_def
    by (intro exI [of _ "noEndTime (process_at pid s)"]) (simp add: w seg_loop_first Let_def)
qed

section \<open>The invariant of a process\<close>

text \<open>
  Of a fetch that started at \<open>b\<close> and has asked for \<open>n\<close> segments so far: they are
  \<open>b, b + 1, \<dots>\<close>; the queue holds the next one or is empty; the outstanding segments \<open>S\<close> are
  distinct and have a retry count, between 0 and 3; and a credit is either held or in use.
\<close>

definition flow_ok :: "nat \<Rightarrow> 64 word \<Rightarrow> nat \<Rightarrow> seg_process \<Rightarrow> 64 word multiset \<Rightarrow> bool" where
  "flow_ok k b n p S \<longleftrightarrow> n \<le> 12 + k
   \<and> (nextSegmentQueue p = [] \<or>
      nextSegmentQueue p = [b + of_nat n] \<and> nextSegment p = b + of_nat n)
   \<and> dom (omap_find (retryCounts p)) \<subseteq> (\<lambda>j. b + of_nat j) ` {..<n}
   \<and> (\<forall>x. count S x \<le> 1) \<and> set_mset S \<subseteq> dom (omap_find (retryCounts p))
   \<and> (\<forall>x v. omap_find (retryCounts p) x = Some v \<longrightarrow> 0 \<le> v \<and> v \<le> 3)
   \<and> 0 \<le> credit p \<and> credit p + int (size S) \<le> 12"

text \<open>
  When no packet is lost to validation or storage, the segments inserted are those asked for
  less those outstanding, and the queue is empty only when the range has been asked for.
\<close>

definition live_ok :: "64 word \<Rightarrow> nat \<Rightarrow> 64 word \<Rightarrow> seg_process \<Rightarrow> 64 word multiset \<Rightarrow> bool" where
  "live_ok b n num p S \<longleftrightarrow> unat b < 2 ^ 63 \<and> size S \<le> n \<and> num = of_nat (n - size S)
   \<and> (\<forall>e. repEnd (segResponse p) = Some e \<longrightarrow> b \<le> e \<and> e < -1)
   \<and> (nextSegmentQueue p = [] \<longrightarrow>
        (\<exists>e. repEnd (segResponse p) = Some e \<and> unat e < unat b + n))"

definition seg_ok :: "bool \<Rightarrow> nat \<Rightarrow> seg_process \<Rightarrow> 64 word multiset \<Rightarrow> bool" where
  "seg_ok good k p S \<longleftrightarrow> (\<exists>b n num. repStart (segResponse p) = Some b
     \<and> repInsertNum (segResponse p) = Some num \<and> flow_ok k b n p S
     \<and> (good \<longrightarrow> live_ok b n num p S \<and> (repStatus (segResponse p) = Some 300 \<longrightarrow> S \<noteq> {#})))"

lemma offsets_distinct:
  assumes "(b :: 64 word) + of_nat i = b + of_nat j" and "i < 2 ^ 64" and "j < 2 ^ 64"
  shows "i = j"
proof -
  have "(of_nat i :: 64 word) = of_nat j" using assms(1) by simp
  then have "unat (of_nat i :: 64 word) = unat (of_nat j :: 64 word)" by (rule arg_cong)
  with assms(2,3) show ?thesis by (simp add: unat_of_nat)
qed

lemma next_is_new:
  assumes "flow_ok k b n p S" and "k < 2 ^ 64 - 12"
  shows "omap_find (retryCounts p) (b + of_nat n) = None"
proof (rule ccontr)
  assume "omap_find (retryCounts p) (b + of_nat n) \<noteq> None"
  then obtain j where j: "j < n" "b + of_nat n = b + of_nat j"
    using assms(1) unfolding flow_ok_def by blast
  have "n < 2 ^ 64" using assms by (simp add: flow_ok_def)
  with j offsets_distinct [of b n j] show False by simp
qed

lemma unat_max: "unat (-1 :: 64 word) = 2 ^ 64 - 1"
  by (simp add: unsigned_minus_1_eq_mask mask_eq_exp_minus_1)

lemma range_size:
  assumes "b \<le> e" and "e < -1"
  shows "unat (e - b + 1 :: 64 word) = unat e - unat b + 1"
proof -
  have "unat (e - b) = unat e - unat b"
    using assms(1) by (simp add: unat_sub)
  moreover have "unat e < 2 ^ 64 - 1"
    using assms(2) by (simp add: word_less_nat_alt unat_max)
  ultimately show ?thesis by (simp add: unat_word_ariths)
qed

text \<open>When the last outstanding segment of a range that has been asked for arrives, it is complete.\<close>

lemma complete_when_drained:
  assumes "live_ok b n num p {#}" and "repEnd (segResponse p) = Some e" and "unat e < unat b + n"
    and "n < 2 ^ 64"
  shows "e - b + 1 \<le> num"
proof -
  have be: "b \<le> e" "e < -1" and num: "num = of_nat n"
    using assms(1,2) by (simp_all add: live_ok_def)
  have "unat num = n" using num assms(4) by (simp add: unat_of_nat)
  moreover have "unat (e - b + 1) \<le> n"
    using range_size [OF be] assms(3) be(1) by (simp add: word_le_nat_alt)
  ultimately show ?thesis by (simp add: word_le_nat_alt)
qed

section \<open>The control of a fetch\<close>

text \<open>The pending interests with their data callback, and the segments pending for a process.\<close>

definition requests :: "seg_callback action list \<Rightarrow> (interest \<times> seg_callback) multiset" where
  "requests as = mset (map (\<lambda>(i, c, t). (i, c)) (expressed as))"

definition seg_no :: "('sel, 'st) old_lib \<Rightarrow> interest \<Rightarrow> 64 word" where
  "seg_no G i = (case segment_of G i of Inr k \<Rightarrow> k | Inl _ \<Rightarrow> 0)"

definition outstanding ::
  "('sel, 'st) old_lib \<Rightarrow> 64 word \<Rightarrow> (interest \<times> seg_callback) multiset \<Rightarrow> 64 word multiset" where
  "outstanding G pid P =
     image_mset (\<lambda>(i, c). seg_no G i) (filter_mset (\<lambda>(i, c). c = SegmentData pid) P)"

lemma requests_simps [simp]:
  "requests [] = {#}"
  "requests [deferredDeleteProcess pid] = {#}"
  "requests (old_reply G i r # as) = requests as"
  "requests (old_negativeReply G i code # as) = requests as"
  "requests (ExpressInterest i c t # as) = add_mset (i, c) (requests as)"
  "requests (express_segment G s pid n x # as)
     = add_mset (segment_interest G (m_interestLifetime s) n x, SegmentData pid) (requests as)"
  by (simp_all add: requests_def deferredDeleteProcess_def express_segment_def)

lemma outstanding_simps [simp]:
  "outstanding G pid {#} = {#}"
  "outstanding G pid (P + Q) = outstanding G pid P + outstanding G pid Q"
  "outstanding G pid (add_mset (i, c) P) =
     (if c = SegmentData pid then add_mset (seg_no G i) (outstanding G pid P) else outstanding G pid P)"
  by (simp_all add: outstanding_def)

lemma outstanding_minus:
  "(i, c) \<in># P \<Longrightarrow> outstanding G pid (P - {#(i, c)#}) =
     (if c = SegmentData pid then outstanding G pid P - {#seg_no G i#} else outstanding G pid P)"
  by (auto dest!: multi_member_split)

lemma flow_send:
  assumes flow: "flow_ok k b n p0 S" and "k < 2 ^ 64 - 12" and f: "f \<in># S"
    and q: "nextSegmentQueue p0 = [b + of_nat n]"
    and p': "retryCounts p' = omap_store (b + of_nat n) 0 (omap_erase f (retryCounts p0))"
      "credit p' = credit p0"
      "nextSegmentQueue p' = [] \<or> nextSegmentQueue p' = [b + of_nat (Suc n)] \<and> nextSegment p' = b + of_nat (Suc n)"
  shows "flow_ok (Suc k) b (Suc n) p' (add_mset (b + of_nat n) (S - {#f#}))"
proof -
  have new: "omap_find (retryCounts p0) (b + of_nat n) = None"
    using flow assms(2) by (rule next_is_new)
  have S: "set_mset S \<subseteq> dom (omap_find (retryCounts p0))" "\<forall>x. count S x \<le> 1"
    using flow by (simp_all add: flow_ok_def)
  with new have notin: "b + of_nat n \<notin># S" by auto
  have rest: "x \<noteq> f" "x \<in># S" if "x \<in># S - {#f#}" for x
  proof -
    show "x \<in># S" using that by (rule in_diffD)
    show "x \<noteq> f" using that spec [OF S(2), of f] by (auto simp: in_diff_count)
  qed
  have "count (add_mset (b + of_nat n) (S - {#f#})) x \<le> 1" for x
    using S(2) notin by (auto simp: not_in_iff le_diff_conv le_SucI)
  moreover have "set_mset (add_mset (b + of_nat n) (S - {#f#})) \<subseteq> dom (omap_find (retryCounts p'))"
    using rest S(1) by (auto simp: p' om.find_store om.find_erase)
  moreover have "dom (omap_find (retryCounts p')) \<subseteq> (\<lambda>j. b + of_nat j) ` {..<Suc n}"
  proof
    fix x assume "x \<in> dom (omap_find (retryCounts p'))"
    then have "x = b + of_nat n \<or> x \<in> dom (omap_find (retryCounts p0))"
      by (auto simp: p' om.find_store om.find_erase split: if_splits)
    moreover have "dom (omap_find (retryCounts p0)) \<subseteq> (\<lambda>j. b + of_nat j) ` {..<n}"
      using flow by (simp add: flow_ok_def)
    ultimately show "x \<in> (\<lambda>j. b + of_nat j) ` {..<Suc n}" by (auto simp: lessThan_Suc)
  qed
  moreover have "0 \<le> v \<and> v \<le> 3" if "omap_find (retryCounts p') x = Some v" for x v
    using that flow by (auto simp: p' flow_ok_def om.find_store om.find_erase split: if_splits)
  moreover have "size (add_mset (b + of_nat n) (S - {#f#})) = size S"
    using f by (metis insert_DiffM size_add_mset)
  ultimately show ?thesis
    using flow p' unfolding flow_ok_def by simp
qed

lemma flow_arrived:
  assumes "flow_ok k b n p0 S" and "f \<in># S"
    and "retryCounts p' = retryCounts p0" "credit p' = credit p0 + 1"
    "nextSegmentQueue p' = [] \<or> nextSegmentQueue p' = nextSegmentQueue p0 \<and> nextSegment p' = nextSegment p0"
  shows "flow_ok (Suc k) b n p' (S - {#f#})"
proof -
  have "size S = Suc (size (S - {#f#}))"
    using assms(2) by (metis insert_DiffM size_add_mset)
  moreover have "count (S - {#f#}) x \<le> 1" for x
    using assms(1) by (simp add: flow_ok_def le_diff_conv le_SucI)
  moreover have "set_mset (S - {#f#}) \<subseteq> set_mset S"
    using in_diffD by fastforce
  ultimately show ?thesis
    using assms(1,3,4,5) unfolding flow_ok_def by auto
qed

text \<open>
  A packet of an outstanding segment \<open>f\<close> has been inserted and counted. What the control does
  is one of four things; \<open>S'\<close> is what it asks for.
\<close>

lemma send_next_step:
  assumes "segment_of G i = Inr f" and flow: "flow_ok k b n p0 S" and k: "k < 2 ^ 64 - 12"
    and f: "f \<in># S" and q: "nextSegmentQueue p0 = [b + of_nat n]"
  obtains p' where "send_next G pid i (b + of_nat n) (p0\<lparr>credit := credit p0 + 1, nextSegmentQueue := []\<rparr>) s
      = Inr (set_process pid p' s, [express_segment G s pid (butlast (iName i)) (b + of_nat n)])"
    "flow_ok (Suc k) b (Suc n) p' (add_mset (b + of_nat n) (S - {#f#}))"
    "segResponse p' = segResponse p0"
    "nextSegmentQueue p' = [] \<longrightarrow> (\<exists>e. repEnd (segResponse p0) = Some e \<and> \<not> b + of_nat (Suc n) \<le> e)"
proof -
  have R: "f \<in> dom (omap_find (retryCounts p0))" using flow f by (auto simp: flow_ok_def)
  have new: "omap_find (retryCounts p0) (b + of_nat n) = None"
    using flow k by (rule next_is_new)
  have nxt: "nextSegment p0 = b + of_nat n" using flow q by (simp add: flow_ok_def)
  let ?more = "case repEnd (segResponse p0) of None \<Rightarrow> True | Some e \<Rightarrow> b + of_nat n + 1 \<le> e"
  let ?p1 = "p0\<lparr>nextSegmentQueue := [],
      retryCounts := omap_store (b + of_nat n) 0 (omap_erase f (retryCounts p0))\<rparr>"
  let ?p2 = "if ?more then ?p1\<lparr>nextSegment := b + of_nat n + 1, nextSegmentQueue := [b + of_nat n + 1]\<rparr>
      else ?p1"
  have "send_next G pid i (b + of_nat n) (p0\<lparr>credit := credit p0 + 1, nextSegmentQueue := []\<rparr>) s
      = Inr (set_process pid ?p2 s, [express_segment G s pid (butlast (iName i)) (b + of_nat n)])"
    using assms(1) R new nxt
    by (auto simp: send_next_def om.find_erase Let_def split: option.splits)
  moreover have "flow_ok (Suc k) b (Suc n) ?p2 (add_mset (b + of_nat n) (S - {#f#}))"
    by (rule flow_send [OF flow k f q]) (auto simp: add.assoc add.commute)
  moreover have "segResponse ?p2 = segResponse p0"
    by simp
  moreover have "nextSegmentQueue ?p2 = [] \<longrightarrow>
      (\<exists>e. repEnd (segResponse p0) = Some e \<and> \<not> b + of_nat (Suc n) \<le> e)"
    by (simp add: ac_simps split: option.splits)
  ultimately show thesis by (rule that)
qed

text \<open>The situation in which the control is called for a packet of segment \<open>f\<close>, and its outcome.\<close>

definition arrival ::
  "('sel, 'st) old_lib \<Rightarrow> bool \<Rightarrow> nat \<Rightarrow> 64 word \<Rightarrow> interest \<Rightarrow> 64 word \<Rightarrow> 64 word \<Rightarrow> nat \<Rightarrow> 64 word
     \<Rightarrow> seg_process \<Rightarrow> 64 word multiset \<Rightarrow> seg_handle \<Rightarrow> bool" where
  "arrival G good k pid i f b n num p0 S s \<longleftrightarrow>
     omap_find (segProcesses s) pid = Some p0 \<and> segment_laws G \<and> segment_of G i = Inr f \<and> f \<in># S
   \<and> repStart (segResponse p0) = Some b \<and> repInsertNum (segResponse p0) = Some num
   \<and> flow_ok k b n p0 S \<and> k < 2 ^ 64 - 12
   \<and> (good \<longrightarrow> live_ok b n num p0 (S - {#f#}) \<and> k < 2 ^ 62)"

definition advances ::
  "('sel, 'st) old_lib \<Rightarrow> bool \<Rightarrow> nat \<Rightarrow> 64 word \<Rightarrow> 64 word multiset \<Rightarrow> seg_handle
     \<Rightarrow> (seg_handle \<times> seg_callback action list) result \<Rightarrow> bool" where
  "advances G good k pid S s result \<longleftrightarrow> (\<exists>p' as. result = Inr (set_process pid p' s, as)
     \<and> seg_ok good k p' (S + outstanding G pid (requests as))
     \<and> (requests as = {#} \<or> (\<exists>j x. requests as = {#(j, SegmentData pid)#} \<and> segment_of G j = Inr x)))"

lemma arrival_ends:
  assumes "arrival G good k pid i f b n num p0 S s" and "code \<noteq> 300"
  shows "advances G good (Suc k) pid (S - {#f#}) s
    (Inr (set_process pid (set_status code (p0\<lparr>credit := credit p0 + 1\<rparr>)) s, [deferredDeleteProcess pid]))"
proof -
  let ?p = "set_status code (p0\<lparr>credit := credit p0 + 1\<rparr>)"
  have "flow_ok k b n p0 S" "f \<in># S" using assms(1) by (simp_all add: arrival_def)
  then have "flow_ok (Suc k) b n ?p (S - {#f#})"
    by (rule flow_arrived) (simp_all add: set_status_def)
  moreover have "good \<longrightarrow> live_ok b n num ?p (S - {#f#})"
    using assms(1) by (simp add: arrival_def live_ok_def set_status_def)
  ultimately have "seg_ok good (Suc k) ?p (S - {#f#})"
    using assms unfolding seg_ok_def arrival_def by (simp add: set_status_def) blast
  then show ?thesis by (auto simp: advances_def)
qed

lemma arrival_waits:
  assumes arr: "arrival G good k pid i f b n num p0 S s"
    and p': "nextSegmentQueue p' = []" "retryCounts p' = retryCounts p0"
      "credit p' = credit p0 + 1" "segResponse p' = segResponse p0"
    and e: "good \<Longrightarrow> \<exists>e. repEnd (segResponse p0) = Some e \<and> unat e < unat b + n \<and> num < e - b + 1"
  shows "advances G good (Suc k) pid (S - {#f#}) s (Inr (set_process pid p' s, []))"
proof -
  have flow: "flow_ok k b n p0 S" "f \<in># S" and k: "k < 2 ^ 64 - 12"
    and live: "good \<Longrightarrow> live_ok b n num p0 (S - {#f#})"
    using arr by (simp_all add: arrival_def)
  have n: "n < 2 ^ 64" using flow(1) k by (simp add: flow_ok_def)
  from flow have "flow_ok (Suc k) b n p' (S - {#f#})"
    by (rule flow_arrived) (simp_all add: p')
  moreover have "live_ok b n num p' (S - {#f#}) \<and> S - {#f#} \<noteq> {#}" if good
  proof
    obtain e where e: "repEnd (segResponse p0) = Some e" "unat e < unat b + n" "num < e - b + 1"
      using e \<open>good\<close> by blast
    with live [OF \<open>good\<close>] show "live_ok b n num p' (S - {#f#})"
      by (auto simp: live_ok_def p')
    with e complete_when_drained [of b n num p0 e] live [OF \<open>good\<close>] n
    show "S - {#f#} \<noteq> {#}" by (auto simp: not_le)
  qed
  ultimately have "seg_ok good (Suc k) p' (S - {#f#})"
    using arr p'(4) unfolding seg_ok_def arrival_def by auto
  then show ?thesis by (auto simp: advances_def)
qed

lemma arrival_sends:
  assumes arr: "arrival G good k pid i f b n num p0 S s"
    and q: "nextSegmentQueue p0 = [b + of_nat n]"
  shows "advances G good (Suc k) pid (S - {#f#}) s
    (send_next G pid i (b + of_nat n) (p0\<lparr>credit := credit p0 + 1, nextSegmentQueue := []\<rparr>) s)"
proof -
  let ?r = "segResponse p0" and ?S = "add_mset (b + of_nat n) (S - {#f#})"
  have laws: "segment_laws G" and i: "segment_of G i = Inr f" "flow_ok k b n p0 S" "k < 2 ^ 64 - 12" "f \<in># S"
    using arr by (simp_all add: arrival_def)
  obtain p' where sent: "send_next G pid i (b + of_nat n) (p0\<lparr>credit := credit p0 + 1, nextSegmentQueue := []\<rparr>) s
    = Inr (set_process pid p' s, [express_segment G s pid (butlast (iName i)) (b + of_nat n)])"
    and p': "flow_ok (Suc k) b (Suc n) p' ?S" "segResponse p' = ?r"
      "nextSegmentQueue p' = [] \<longrightarrow> (\<exists>e. repEnd ?r = Some e \<and> \<not> b + of_nat (Suc n) \<le> e)"
    using send_next_step [OF i q] by blast
  have "live_ok b (Suc n) num p' ?S" if good
  proof -
    have live: "live_ok b n num p0 (S - {#f#})" "k < 2 ^ 62" "n \<le> 12 + k"
      using arr that by (simp_all add: arrival_def flow_ok_def)
    then have "unat b + Suc n < 2 ^ 64" by (simp add: live_ok_def)
    then have "unat (b + of_nat (Suc n)) = unat b + Suc n" by (rule unat_plus)
    with live(1) p'(2,3) show ?thesis
      by (auto simp: live_ok_def not_le word_less_nat_alt)
  qed
  then have "seg_ok good (Suc k) p' ?S"
    using arr p' unfolding seg_ok_def arrival_def by auto
  with sent segment_of_interest(1) [OF laws] show ?thesis
    by (auto simp: advances_def seg_no_def)
qed

lemma control_step:
  assumes arr: "arrival G good k pid i f b n num p0 S s"
  shows "advances G good (Suc k) pid (S - {#f#}) s (onSegmentDataControl G now pid i s)"
proof -
  let ?p = "p0\<lparr>credit := credit p0 + 1\<rparr>" and ?r = "segResponse p0"
  have at: "omap_find (segProcesses s) pid = Some p0"
    and r: "repStart ?r = Some b" "repInsertNum ?r = Some num" and flow: "flow_ok k b n p0 S"
    and live: "good \<Longrightarrow> live_ok b n num p0 (S - {#f#}) \<and> k < 2 ^ 62"
    using arr by (simp_all add: arrival_def)
  have credit: "credit p0 + 1 \<noteq> 0" using flow by (simp add: flow_ok_def)
  have next_no: "unat (b + of_nat n) = unat b + n" if good
    using live [OF that] flow by (intro unat_plus) (simp add: live_ok_def flow_ok_def)
  note control = onSegmentDataControl_def at option.case Let_def
  have queue: "nextSegmentQueue p0 = [] \<or> nextSegmentQueue p0 = [b + of_nat n]"
    using flow by (auto simp: flow_ok_def)
  show ?thesis
  proof (cases "repEnd ?r")
    case None
    then have "range_complete ?r = Inr False" by (simp add: range_complete_def)
    moreover have "advances G good (Suc k) pid (S - {#f#}) s (Inr (set_process pid ?p s, []))"
      if "nextSegmentQueue p0 = []"
      using that live None by (intro arrival_waits [OF arr]) (auto simp: live_ok_def)
    ultimately show ?thesis
      using None credit queue arrival_ends [OF arr, of 405] arrival_sends [OF arr]
      by (auto simp: control)
  next
    case (Some e)
    show ?thesis
    proof (cases "e - b + 1 \<le> num")
      case True
      with Some r have "range_complete ?r = Inr True" by (simp add: range_complete_def)
      with Some arrival_ends [OF arr, of 200] show ?thesis by (simp add: control)
    next
      case False
      with Some r have "range_complete ?r = Inr False" by (simp add: range_complete_def)
      moreover have "advances G good (Suc k) pid (S - {#f#}) s (Inr (set_process pid ?p s, []))"
        if "nextSegmentQueue p0 = []"
        using that live Some False by (intro arrival_waits [OF arr]) (auto simp: live_ok_def)
      moreover have "advances G good (Suc k) pid (S - {#f#}) s
          (Inr (set_process pid (?p\<lparr>nextSegmentQueue := []\<rparr>) s, []))" if "b + of_nat n > e"
        using that next_no Some False
        by (intro arrival_waits [OF arr]) (auto simp: word_less_nat_alt word_le_nat_alt)
      ultimately show ?thesis
        using Some False credit queue arrival_sends [OF arr] by (auto simp: control)
    qed
  qed
qed

end
