(* ===== verification/Segment_Invariant.thy ===== *)
theory Segment_Invariant
  imports Segment_Run
begin

text \<open>
  The step relation of the segmented insert handler and the proof that its invariant, the one
  of each process and the one of the pending interests, holds in every run.
\<close>

section \<open>Runs\<close>

text \<open>A packet that validates and a timeout for a pending interest, by the callback it was expressed with.\<close>

definition seg_data ::
  "('sel, 'st) old_lib \<Rightarrow> int \<Rightarrow> interest \<Rightarrow> seg_callback \<Rightarrow> data \<Rightarrow> seg_handle \<Rightarrow> 'st
     \<Rightarrow> (seg_handle \<times> 'st \<times> seg_callback action list) result" where
  "seg_data G now i c d s st =
     (case c of
        SegmentData pid \<Rightarrow> onSegmentDataValidated G now i d pid s st
      | SingleData pid \<Rightarrow> seg_onDataValidated G d pid s st
      | _ \<Rightarrow> Inl (UndefinedBehaviour ''not a data callback''))"

text \<open>
  The event of a packet is that of the data callback when the packet validates; otherwise the
  interest is gone and nothing else happens.
\<close>

lemma seg_data_valid:
  "onSegmentData G True now i d pid s st = seg_data G now i (SegmentData pid) d s st"
  "seg_onData G True d pid s st = seg_data G now i (SingleData pid) d s st"
  by (simp_all add: onSegmentData_def seg_onData_def seg_data_def)

lemma seg_data_invalid:
  "onSegmentData G False now i d pid s st = Inr (s, st, [])" "seg_onData G False d pid s st = Inr (s, st, [])"
  by (simp_all add: onSegmentData_def seg_onData_def seg_onDataValidationFailed_def)

definition seg_timeout ::
  "('sel, 'st) old_lib \<Rightarrow> interest \<Rightarrow> seg_callback \<Rightarrow> seg_handle
     \<Rightarrow> (seg_handle \<times> seg_callback action list) result" where
  "seg_timeout G i c s =
     (case c of
        SegmentData pid \<Rightarrow> onSegmentTimeout G pid i s
      | SingleData pid \<Rightarrow> Inr (seg_onTimeout pid s, [])
      | _ \<Rightarrow> Inl (UndefinedBehaviour ''not a data callback''))"

text \<open>
  What a run must keep to for a fetch not to stall: ranges that start in the lower half of the
  numbers and end below the greatest, packets that are stored, and final block ids that are not
  before the start of the range.
\<close>

definition clean_command :: "'sel command option result \<Rightarrow> bool" where
  "clean_command r \<longleftrightarrow> (case r of Inr (Some par) \<Rightarrow>
       (case cmdStart par of None \<Rightarrow> True | Some b \<Rightarrow> b < 2 ^ 63)
     \<and> (case cmdEnd par of None \<Rightarrow> True | Some e \<Rightarrow> e < -1)
   | _ \<Rightarrow> True)"

definition final_segment :: "('sel, 'st) old_lib \<Rightarrow> data \<Rightarrow> 64 word option option" where
  "final_segment G d = (case finalBlockId (dMetaInfo d) of
       None \<Rightarrow> Some None
     | Some c \<Rightarrow> if cvalue c = [] then Some None
         else (case toSegment G c of None \<Rightarrow> None | Some x \<Rightarrow> Some (Some x)))"

definition clean_data ::
  "('sel, 'st) old_lib \<Rightarrow> seg_callback \<Rightarrow> data \<Rightarrow> seg_handle \<Rightarrow> 'st \<Rightarrow> bool" where
  "clean_data G c d s st \<longleftrightarrow> snd (insertData G st d) \<and>
     (case (c, final_segment G d) of
        (SegmentData pid, Some (Some x)) \<Rightarrow>
          (case omap_find (segProcesses s) pid of
             None \<Rightarrow> True
           | Some p \<Rightarrow> (case repStart (segResponse p) of None \<Rightarrow> True | Some b \<Rightarrow> b \<le> x \<and> x < -1))
      | _ \<Rightarrow> True)"

text \<open>
  The set holds the process ids used, which do not repeat, the number counts the events. A
  scheduled deletion may fire at any time.
\<close>

type_synonym seg_pending = "(interest \<times> seg_callback) multiset"

inductive seg_run ::
  "('sel, 'st) old_lib \<Rightarrow> bool \<Rightarrow> 'st \<Rightarrow> seg_handle \<Rightarrow> 'st \<Rightarrow> seg_pending \<Rightarrow> 64 word set \<Rightarrow> nat \<Rightarrow> bool"
  for G :: "('sel, 'st) old_lib" and good :: bool and st0 :: 'st where
  start: "seg_run G good st0 seg_new st0 {#} {} 0"
| command: "seg_run G good st0 s st P U k \<Longrightarrow> pid \<notin> U \<Longrightarrow>
    good \<longrightarrow> clean_command (command_parameter G i prefx) \<Longrightarrow>
    seg_onInterest G valid now pid prefx i s = Inr (s', as) \<Longrightarrow>
    seg_run G good st0 s' st (P + requests as) (insert pid U) (Suc k)"
| data: "seg_run G good st0 s st P U k \<Longrightarrow> (i, c) \<in># P \<Longrightarrow> good \<longrightarrow> clean_data G c d s st \<Longrightarrow>
    seg_data G now i c d s st = Inr (s', st', as) \<Longrightarrow>
    seg_run G good st0 s' st' (P - {#(i, c)#} + requests as) U (Suc k)"
| rejected: "seg_run G good st0 s st P U k \<Longrightarrow> \<not> good \<Longrightarrow> (i, c) \<in># P \<Longrightarrow>
    seg_run G good st0 s st (P - {#(i, c)#}) U (Suc k)"
| timeout: "seg_run G good st0 s st P U k \<Longrightarrow> (i, c) \<in># P \<Longrightarrow>
    seg_timeout G i c s = Inr (s', as) \<Longrightarrow>
    seg_run G good st0 s' st (P - {#(i, c)#} + requests as) U (Suc k)"
| deletion: "seg_run G good st0 s st P U k \<Longrightarrow>
    seg_run G good st0 (deleteProcess pid s) st P U (Suc k)"
| check: "seg_run G good st0 s st P U k \<Longrightarrow>
    onCheckInterest G valid now prefx i s = Inr (s', as) \<Longrightarrow>
    seg_run G good st0 s' st P U (Suc k)"

section \<open>The invariant\<close>

definition proc_ok ::
  "('sel, 'st) old_lib \<Rightarrow> bool \<Rightarrow> nat \<Rightarrow> seg_pending \<Rightarrow> 64 word \<Rightarrow> seg_process \<Rightarrow> bool" where
  "proc_ok G good k P pid p \<longleftrightarrow>
     (if repStart (segResponse p) = None
      then repEnd (segResponse p) = None \<and> repInsertNum (segResponse p) \<noteq> None \<and> outstanding G pid P = {#}
      else seg_ok good k p (outstanding G pid P) \<and> (\<forall>i. (i, SingleData pid) \<notin># P))"

definition pend_ok :: "('sel, 'st) old_lib \<Rightarrow> seg_pending \<Rightarrow> 64 word set \<Rightarrow> bool" where
  "pend_ok G P U \<longleftrightarrow> (\<forall>(i, c) \<in># P. \<exists>pid \<in> U.
     c = SegmentData pid \<and> segment_of G i = Inr (seg_no G i) \<or> c = SingleData pid)"

definition seg_inv ::
  "('sel, 'st) old_lib \<Rightarrow> bool \<Rightarrow> nat \<Rightarrow> seg_handle \<Rightarrow> seg_pending \<Rightarrow> 64 word set \<Rightarrow> bool" where
  "seg_inv G good k s P U \<longleftrightarrow> m_retryTime s = 3 \<and> m_credit s = 12 \<and> pend_ok G P U
   \<and> (\<forall>pid p. omap_find (segProcesses s) pid = Some p \<longrightarrow> pid \<in> U \<and> proc_ok G good k P pid p)"

lemma seg_ok_mono: "seg_ok good k p S \<Longrightarrow> seg_ok good (Suc k) p S"
proof -
  have "flow_ok k b n p S \<Longrightarrow> flow_ok (Suc k) b n p S" for b n
    unfolding flow_ok_def by (elim conjE, intro conjI) simp_all
  then show "seg_ok good k p S \<Longrightarrow> seg_ok good (Suc k) p S"
    unfolding seg_ok_def by blast
qed

lemma proc_ok_mono: "proc_ok G good k P pid p \<Longrightarrow> proc_ok G good (Suc k) P pid p"
  by (simp add: proc_ok_def seg_ok_mono)

text \<open>A step that concerns the process \<open>pid\<close> only.\<close>

definition only_about :: "('sel, 'st) old_lib \<Rightarrow> 64 word \<Rightarrow> seg_pending \<Rightarrow> seg_pending \<Rightarrow> bool" where
  "only_about G pid P P' \<longleftrightarrow> (\<forall>q. q \<noteq> pid \<longrightarrow> outstanding G q P' = outstanding G q P
     \<and> (\<forall>i. (i, SingleData q) \<in># P' \<longrightarrow> (i, SingleData q) \<in># P))"

lemma proc_ok_other:
  "proc_ok G good k P q p \<Longrightarrow> only_about G pid P P' \<Longrightarrow> q \<noteq> pid \<Longrightarrow> proc_ok G good (Suc k) P' q p"
  by (auto simp: proc_ok_def only_about_def seg_ok_mono split: if_splits)

lemma inv_set:
  assumes "seg_inv G good k s P U" and "only_about G pid P P'" and "pend_ok G P' U'"
    and "U \<subseteq> U'" and "pid \<in> U'" and "proc_ok G good (Suc k) P' pid p'"
  shows "seg_inv G good (Suc k) (set_process pid p' s) P' U'"
  using assms proc_ok_other [OF _ assms(2)]
  by (auto simp: seg_inv_def set_process_def om.find_store split: if_splits)

lemma inv_erase:
  assumes "seg_inv G good k s P U" and "only_about G pid P P'" and "pend_ok G P' U'" and "U \<subseteq> U'"
  shows "seg_inv G good (Suc k) (s\<lparr>segProcesses := omap_erase pid (segProcesses s)\<rparr>) P' U'"
  using assms proc_ok_other [OF _ assms(2)]
  by (auto simp: seg_inv_def om.find_erase split: if_splits)

lemma inv_keep:
  assumes "seg_inv G good k s P U" and "only_about G pid P P'" and "pend_ok G P' U'" and "U \<subseteq> U'"
    and "omap_find (segProcesses s) pid = None"
  shows "seg_inv G good (Suc k) s P' U'"
proof -
  have "\<forall>q p. omap_find (segProcesses s) q = Some p \<longrightarrow> q \<noteq> pid" using assms(5) by auto
  with assms(1,3,4) proc_ok_other [OF _ assms(2)] show ?thesis
    unfolding seg_inv_def by blast
qed

lemma inv_lifetime: "seg_inv G good k s P U \<Longrightarrow> seg_inv G good k (s\<lparr>m_interestLifetime := t\<rparr>) P U"
  by (simp add: seg_inv_def)

lemma only_about_simps:
  "only_about G pid P P"
  "(i, SegmentData pid) \<in># P \<Longrightarrow> only_about G pid P (P - {#(i, SegmentData pid)#})"
  "(i, SingleData pid) \<in># P \<Longrightarrow> only_about G pid P (P - {#(i, SingleData pid)#})"
  "only_about G pid P P' \<Longrightarrow> only_about G pid P (add_mset (j, SegmentData pid) P')"
  "only_about G pid P P' \<Longrightarrow> only_about G pid P (add_mset (j, SingleData pid) P')"
  by (auto simp: only_about_def outstanding_minus dest: in_diffD)

lemma pend_ok_minus: "pend_ok G P U \<Longrightarrow> pend_ok G (P - {#x#}) U"
  unfolding pend_ok_def by (meson in_diffD)

lemma pend_ok_add:
  "pend_ok G (add_mset (i, c) P) U \<longleftrightarrow> pend_ok G P U \<and> (\<exists>pid \<in> U.
     c = SegmentData pid \<and> segment_of G i = Inr (seg_no G i) \<or> c = SingleData pid)"
  by (auto simp: pend_ok_def)

lemma pend_ok_mono: "pend_ok G P U \<Longrightarrow> U \<subseteq> U' \<Longrightarrow> pend_ok G P U'"
  unfolding pend_ok_def by blast

section \<open>Commands\<close>

lemma inv_same: "seg_inv G good k s P U \<Longrightarrow> U \<subseteq> U' \<Longrightarrow> seg_inv G good (Suc k) s P U'"
  unfolding seg_inv_def by (meson pend_ok_mono proc_ok_mono subsetD)

lemma unused_id:
  assumes "seg_inv G good k s P U" and "pid \<notin> U"
  shows "omap_find (segProcesses s) pid = None" and "outstanding G pid P = {#}"
    and "(i, SingleData pid) \<notin># P"
proof -
  have P: "\<forall>(i, c) \<in># P. c \<noteq> SegmentData pid \<and> c \<noteq> SingleData pid"
    using assms unfolding seg_inv_def pend_ok_def by blast
  then have "filter_mset (\<lambda>(i, c). c = SegmentData pid) P = {#}"
    by auto
  with P show "outstanding G pid P = {#}" "(i, SingleData pid) \<notin># P"
    by (auto simp: outstanding_def)
  show "omap_find (segProcesses s) pid = None"
    using assms unfolding seg_inv_def by (meson not_Some_eq)
qed

lemma segment_requests:
  assumes "segment_laws G"
  shows "outstanding G pid (requests (map (express_segment G s pid n) xs)) = mset xs"
    and "pend_ok G P U \<Longrightarrow> pid \<in> U \<Longrightarrow> pend_ok G (P + requests (map (express_segment G s pid n) xs)) U"
    and "only_about G pid P P' \<Longrightarrow> only_about G pid P (P' + requests (map (express_segment G s pid n) xs))"
    and "(j, SingleData q) \<notin># requests (map (express_segment G s pid n) xs)"
  by (induction xs) (auto simp: segment_of_interest(1) [OF assms] seg_no_def pend_ok_add only_about_simps)

text \<open>The process a segmented command with a new id leaves in the table.\<close>

definition first_process :: "64 word \<Rightarrow> 64 word \<Rightarrow> 64 word option \<Rightarrow> int \<Rightarrow> seg_process" where
  "first_process pid b e t = \<lparr>segResponse = \<lparr>repStatus = Some 300, repProcessId = Some pid,
       repStart = Some b, repEnd = e, repInsertNum = Some 0, repDeleteNum = None\<rparr>,
     nextSegmentQueue = [b + of_nat (first_count b e)], nextSegment = b + of_nat (first_count b e),
     retryCounts = zero_counts (segments_from b (first_count b e)) omap_empty,
     credit = int (initial_count b e) - int (first_count b e), noEndTime = t\<rparr>"

lemma first_process_started:
  assumes "omap_find (segProcesses s) pid = None" and "m_credit s = 12" and "cmdStart par = Some b"
  shows "\<exists>t. segInit G now pid par (snd (start_process pid (Some b) (cmdEnd par) s))
    = Inr (set_process pid (first_process pid b (cmdEnd par) t) s,
           map (express_segment G s pid (cmdName par)) (segments_from b (first_count b (cmdEnd par))))"
proof -
  let ?s1 = "snd (start_process pid (Some b) (cmdEnd par) s)"
  let ?r = "(new_report pid (Some b) (cmdEnd par) report_new)\<lparr>repStatus := Some 300\<rparr>"
  have r: "?r = \<lparr>repStatus = Some 300, repProcessId = Some pid, repStart = Some b, repEnd = cmdEnd par,
      repInsertNum = Some 0, repDeleteNum = None\<rparr>"
    by (cases "cmdEnd par") (simp_all add: new_report_def report_new_def)
  have s1: "?s1 = set_process pid (seg_process_new\<lparr>segResponse := ?r\<rparr>) s"
    using assms(1) by (simp add: start_process_def process_at_def seg_process_new_def Let_def)
  then have "process_at pid ?s1 = seg_process_new\<lparr>segResponse := ?r\<rparr>" "m_credit ?s1 = 12"
    "m_interestLifetime ?s1 = m_interestLifetime s" "set_process pid p ?s1 = set_process pid p s" for p
    using assms(2) by (simp_all add: process_at_def set_process_def)
  with segInit_spec [OF assms(3), of ?s1 G now pid] show ?thesis
    by (auto simp: r seg_process_new_def first_process_def express_segment_def fun_eq_iff)
qed

lemma first_flow:
  assumes good: "good \<Longrightarrow> b < 2 ^ 63 \<and> (\<forall>x. e = Some x \<longrightarrow> b \<le> x \<and> x < -1)"
  shows "seg_ok good k (first_process pid b e t) (mset (segments_from b (first_count b e)))"
proof -
  let ?p = "first_process pid b e t"
  let ?m = "first_count b e" and ?S = "mset (segments_from b (first_count b e))"
  have m: "?m \<le> 12" "?m \<le> initial_count b e" "initial_count b e \<le> 12"
    using first_count_le initial_count_le by auto
  have "inj_on (\<lambda>j. b + of_nat j) {0..<?m}"
    using m(1) by (intro inj_onI offsets_distinct [of b]) auto
  then have "distinct (segments_from b ?m)"
    by (simp add: segments_from_nth distinct_map)
  then have "count ?S x \<le> 1" for x
    by (simp add: distinct_count_atmost_1 count_mset_0_iff)
  moreover have seg: "set (segments_from b ?m) = (\<lambda>j. b + of_nat j) ` {..<?m}"
    by (auto simp: segments_from_nth)
  moreover have size: "size ?S = ?m" by (simp add: segments_from_nth)
  ultimately have flow: "flow_ok k b ?m ?p ?S"
    using m unfolding flow_ok_def
    by (auto simp: first_process_def zero_counts_find dom_def split: if_splits)
  have "live_ok b ?m 0 ?p ?S \<and> ?S \<noteq> {#}" if good
  proof -
    from good [OF that] have b: "unat b < 2 ^ 63" by (simp add: word_less_nat_alt)
    with m have "?m = initial_count b e" by (simp add: first_count_def)
    moreover have "initial_count b e \<noteq> 0"
    proof (cases e)
      case (Some x)
      with good [OF that] range_size [of b x] have "x - b + 1 \<noteq> 0" by (metis add_is_0 unat_0 zero_neq_one)
      then have "min 12 (x - b + 1) \<noteq> 0" by (simp add: min_def)
      with Some show ?thesis by (simp add: initial_count_def unsigned_eq_0_iff)
    qed (simp add: initial_count_def)
    ultimately show ?thesis
      using b good [OF that] size by (auto simp: live_ok_def first_process_def)
  qed
  with flow show ?thesis unfolding seg_ok_def by (auto simp: first_process_def)
qed

lemma segments_started:
  assumes inv: "seg_inv G good k s P U" and laws: "segment_laws G" and new: "pid \<notin> U"
    and par: "cmdStart par = Some b"
    and good: "good \<Longrightarrow> b < 2 ^ 63 \<and> (\<forall>x. cmdEnd par = Some x \<longrightarrow> b \<le> x \<and> x < -1)"
    and run: "segInit G now pid par (snd (start_process pid (Some b) (cmdEnd par) s)) = Inr (s', as)"
  shows "seg_inv G good (Suc k) s' (P + requests as) (insert pid U)"
proof -
  note unused = unused_id [OF inv new]
  have "m_credit s = 12" using inv by (simp add: seg_inv_def)
  from first_process_started [OF unused(1) this par, of G now] run obtain t where
    s': "s' = set_process pid (first_process pid b (cmdEnd par) t) s"
    and as: "as = map (express_segment G s pid (cmdName par)) (segments_from b (first_count b (cmdEnd par)))"
    by auto
  show ?thesis unfolding s'
  proof (rule inv_set [OF inv])
    have P: "pend_ok G P (insert pid U)"
      using inv by (auto simp: seg_inv_def intro: pend_ok_mono)
    show "only_about G pid P (P + requests as)"
      unfolding as by (rule segment_requests(3) [OF laws only_about_simps(1)])
    show "pend_ok G (P + requests as) (insert pid U)"
      unfolding as by (rule segment_requests(2) [OF laws P]) simp
    have "(j, SingleData pid) \<notin># requests as" for j
      unfolding as by (rule segment_requests(4) [OF laws])
    then show "proc_ok G good (Suc k) (P + requests as) pid (first_process pid b (cmdEnd par) t)"
      using first_flow [OF good] unused segment_requests(1) [OF laws]
      by (auto simp: proc_ok_def as first_process_def)
  qed auto
qed

lemma segmented_inv:
  assumes inv: "seg_inv G good k s P U" and laws: "segment_laws G" and new: "pid \<notin> U"
    and seg: "cmdStart par \<noteq> None \<or> cmdEnd par \<noteq> None"
    and clean: "good \<longrightarrow> clean_command (Inr (Some par))"
    and cmd: "processSegmentedInsertCommand G now pid i par s = Inr (s', as)"
  shows "seg_inv G good (Suc k) s' (P + requests as) (insert pid U)"
proof (cases "cmdEnd par")
  case None
  with seg obtain b where b: "cmdStart par = Some b" by auto
  from cmd None b obtain cs where "as = old_reply G i (fst (start_process pid (Some b) None s)) # cs"
    "segInit G now pid par (snd (start_process pid (Some b) (cmdEnd par) s)) = Inr (s', cs)"
    by (auto simp: processSegmentedInsertCommand_def rbind_Inr Let_def split: prod.splits)
  moreover have "good \<Longrightarrow> b < 2 ^ 63 \<and> (\<forall>x. cmdEnd par = Some x \<longrightarrow> b \<le> x \<and> x < -1)"
    using clean b None by (simp add: clean_command_def)
  ultimately show ?thesis
    using segments_started [OF inv laws new b] by simp
next
  case (Some e)
  let ?b = "case cmdStart par of None \<Rightarrow> 0 | Some k \<Rightarrow> k" and ?par = "par\<lparr>cmdStart :=
    Some (case cmdStart par of None \<Rightarrow> 0 | Some k \<Rightarrow> k)\<rparr>"
  show ?thesis
  proof (cases "?b > e")
    case True
    with cmd Some inv_same [OF inv subset_insertI] show ?thesis
      by (auto simp: processSegmentedInsertCommand_def Let_def)
  next
    case False
    with cmd Some obtain cs where "as = old_reply G i (fst (start_process pid (Some ?b) (Some e) s)) # cs"
      "segInit G now pid ?par (snd (start_process pid (Some ?b) (cmdEnd ?par) s)) = Inr (s', cs)"
      by (auto simp: processSegmentedInsertCommand_def rbind_Inr Let_def split: prod.splits)
    moreover have "good \<Longrightarrow> ?b < 2 ^ 63 \<and> (\<forall>x. cmdEnd ?par = Some x \<longrightarrow> ?b \<le> x \<and> x < -1)"
      using clean Some False by (auto simp: clean_command_def split: option.splits)
    ultimately show ?thesis
      using segments_started [OF inv laws new, of ?par ?b] by simp
  qed
qed

lemma single_inv:
  assumes inv: "seg_inv G good k s P U" and new: "pid \<notin> U"
    and cmd: "seg_processSingleInsertCommand G pid i par s = (s', as)"
  shows "seg_inv G good (Suc k) s' (P + requests as) (insert pid U)"
proof -
  note unused = unused_id [OF inv new]
  obtain p' j where s': "s' = set_process pid p' s" and r: "requests as = {#(j, SingleData pid)#}"
    and p': "repStart (segResponse p') = None" "repEnd (segResponse p') = None"
      "repInsertNum (segResponse p') = Some 0"
    using cmd unused(1)
    by (force simp: seg_processSingleInsertCommand_def start_process_def new_report_def
        process_at_def seg_process_new_def report_new_def Let_def)
  show ?thesis unfolding s' r
  proof (rule inv_set [OF inv])
    show "only_about G pid P (P + {#(j, SingleData pid)#})"
      using only_about_simps(5) [OF only_about_simps(1)] by simp
    show "pend_ok G (P + {#(j, SingleData pid)#}) (insert pid U)"
      using inv pend_ok_mono [of G P U] by (auto simp: seg_inv_def pend_ok_add)
    show "proc_ok G good (Suc k) (P + {#(j, SingleData pid)#}) pid p'"
      using p' unused(2) by (simp add: proc_ok_def)
  qed auto
qed

lemma command_inv:
  assumes inv: "seg_inv G good k s P U" and laws: "segment_laws G" and new: "pid \<notin> U"
    and clean: "good \<longrightarrow> clean_command (command_parameter G i prefx)"
    and run: "seg_onInterest G valid now pid prefx i s = Inr (s', as)"
  shows "seg_inv G good (Suc k) s' (P + requests as) (insert pid U)"
proof -
  note same = inv_same [OF inv subset_insertI]
  have lifetime: "seg_inv G good (Suc k) (case t of None \<Rightarrow> s2 | Some t \<Rightarrow> s2\<lparr>m_interestLifetime := t\<rparr>) P' U'"
    if "seg_inv G good (Suc k) s2 P' U'" for t s2 P' U'
    using that by (auto split: option.split intro: inv_lifetime)
  show ?thesis
  proof (cases valid)
    case False
    with run same show ?thesis by (auto simp: seg_onInterest_def seg_onValidationFailed_def)
  next
    case True
    with run obtain decoded where d: "command_parameter G i prefx = Inr decoded"
      by (auto simp: seg_onInterest_def seg_onValidated_def rbind_Inr)
    show ?thesis
    proof (cases decoded)
      case None
      with True d run same show ?thesis by (auto simp: seg_onInterest_def seg_onValidated_def)
    next
      case (Some par)
      with True d run show ?thesis
        using same lifetime segmented_inv [OF inv laws new, of par] single_inv [OF inv new] clean
        by (auto simp: seg_onInterest_def seg_onValidated_def rbind_Inr split: if_splits)
    qed
  qed
qed

section \<open>Packets and timeouts\<close>

definition new_end :: "64 word option \<Rightarrow> report \<Rightarrow> report" where
  "new_end fin r = (case fin of None \<Rightarrow> r | Some x \<Rightarrow>
     (case repEnd r of Some e \<Rightarrow> if x < e then r\<lparr>repEnd := Some x\<rparr> else r
      | None \<Rightarrow> r\<lparr>repEnd := Some x\<rparr>))"

lemma refresh_end_final:
  "refresh_end G d r = (case final_segment G d of
     None \<Rightarrow> Inl (RuntimeError ''Component::toSegment'') | Some fin \<Rightarrow> Inr (new_end fin r))"
  by (auto simp: refresh_end_def final_segment_def new_end_def split: option.splits)

lemma new_end_sel [simp]:
  "repStart (new_end fin r) = repStart r" "repInsertNum (new_end fin r) = repInsertNum r"
  "repStatus (new_end fin r) = repStatus r"
  by (auto simp: new_end_def split: option.splits)

lemma flow_response [simp]: "flow_ok k b n (p\<lparr>segResponse := r\<rparr>) S = flow_ok k b n p S"
  by (simp add: flow_ok_def)

lemma set_process_twice [simp]: "set_process pid p (set_process pid q s) = set_process pid p s"
  by (simp add: set_process_def)

text \<open>The end of the range can only come closer, and one more segment has been inserted.\<close>

lemma live_inserted:
  assumes "live_ok b n num p S" and "f \<in># S" and "\<And>x. fin = Some x \<Longrightarrow> b \<le> x \<and> x < -1"
  shows "live_ok b n (num + 1)
    (p\<lparr>segResponse := (new_end fin (segResponse p))\<lparr>repInsertNum := Some (num + 1)\<rparr>\<rparr>) (S - {#f#})"
proof -
  have "size S = Suc (size (S - {#f#}))"
    using assms(2) by (metis insert_DiffM size_add_mset)
  moreover have "size S \<le> n" using assms(1) by (simp add: live_ok_def)
  ultimately have "n - size (S - {#f#}) = Suc (n - size S)" "size (S - {#f#}) \<le> n" by arith+
  moreover have "num = of_nat (n - size S)" using assms(1) by (simp add: live_ok_def)
  ultimately have num: "num + 1 = of_nat (n - size (S - {#f#}))" "size (S - {#f#}) \<le> n"
    by (simp_all only: of_nat_Suc add.commute)
  moreover have "b \<le> e \<and> e < -1" if "repEnd (new_end fin (segResponse p)) = Some e" for e
    using that assms(1,3) by (auto simp: new_end_def live_ok_def split: option.splits if_splits)
  moreover have "\<exists>e. repEnd (new_end fin (segResponse p)) = Some e \<and> unat e < unat b + n"
    if "nextSegmentQueue p = []"
  proof -
    obtain e where "repEnd (segResponse p) = Some e" "unat e < unat b + n"
      using \<open>nextSegmentQueue p = []\<close> assms(1) by (auto simp: live_ok_def)
    then show ?thesis by (auto simp: new_end_def word_less_nat_alt split: option.splits)
  qed
  ultimately show ?thesis
    using assms(1) by (simp add: live_ok_def)
qed

lemma pending_segment:
  assumes inv: "seg_inv G good k s P U" and i: "(i, SegmentData pid) \<in># P"
  shows "segment_of G i = Inr (seg_no G i)" and "pid \<in> U" and "seg_no G i \<in># outstanding G pid P"
    and "omap_find (segProcesses s) pid = Some p \<Longrightarrow> seg_ok good k p (outstanding G pid P)
      \<and> repStart (segResponse p) \<noteq> None \<and> (\<forall>j. (j, SingleData pid) \<notin># P)"
proof -
  show "segment_of G i = Inr (seg_no G i)" "pid \<in> U"
    using inv i by (auto simp: seg_inv_def pend_ok_def)
  show S: "seg_no G i \<in># outstanding G pid P"
    using i by (auto simp: outstanding_def intro!: image_eqI [of _ _ "(i, SegmentData pid)"])
  assume "omap_find (segProcesses s) pid = Some p"
  with inv have "proc_ok G good k P pid p" by (simp add: seg_inv_def)
  with S show "seg_ok good k p (outstanding G pid P)
      \<and> repStart (segResponse p) \<noteq> None \<and> (\<forall>j. (j, SingleData pid) \<notin># P)"
    by (auto simp: proc_ok_def split: if_splits)
qed

lemma arrival_of_data:
  assumes inv: "seg_inv G good k s P U" and laws: "segment_laws G" and i: "(i, SegmentData pid) \<in># P"
    and at: "omap_find (segProcesses s) pid = Some p" and k: "k < 2 ^ 64 - 12"
    and fin: "final_segment G d = Some fin" and ins: "insertData G st d = (st', inserted)"
    and good: "good \<Longrightarrow> clean_data G (SegmentData pid) d s st \<and> k < 2 ^ 62"
  shows "\<exists>b n num. repInsertNum (segResponse p) = Some num \<and>
    (let r = (if inserted then (new_end fin (segResponse p))\<lparr>repInsertNum := Some (num + 1)\<rparr>
              else new_end fin (segResponse p));
         num' = (if inserted then num + 1 else num)
     in arrival G good k pid i (seg_no G i) b n num' (p\<lparr>segResponse := r\<rparr>) (outstanding G pid P)
          (set_process pid (p\<lparr>segResponse := r\<rparr>) s))"
proof -
  note pend = pending_segment [OF inv i]
  obtain b n num where p: "repStart (segResponse p) = Some b" "repInsertNum (segResponse p) = Some num"
    "flow_ok k b n p (outstanding G pid P)" and live: "good \<Longrightarrow> live_ok b n num p (outstanding G pid P)"
    using pend(4) [OF at] unfolding seg_ok_def by blast
  have "inserted" "\<And>x. fin = Some x \<Longrightarrow> b \<le> x \<and> x < -1" if good
    using good [OF that] fin ins at p(1) by (auto simp: clean_data_def)
  with live live_inserted [OF _ pend(3)] good p pend k laws show ?thesis
    by (intro exI [of _ b] exI [of _ n] exI [of _ num])
      (auto simp: arrival_def set_process_def Let_def)
qed

lemma segment_data_inv:
  assumes inv: "seg_inv G good k s P U" and laws: "segment_laws G" and i: "(i, SegmentData pid) \<in># P"
    and k: "k < 2 ^ 64 - 12" and fin: "final_segment G d = Some fin"
    and good: "good \<Longrightarrow> clean_data G (SegmentData pid) d s st \<and> k < 2 ^ 62"
  shows "\<exists>s' st' as. onSegmentDataValidated G now i d pid s st = Inr (s', st', as)
     \<and> seg_inv G good (Suc k) s' (P - {#(i, SegmentData pid)#} + requests as) U"
proof (cases "omap_find (segProcesses s) pid")
  case None
  have "seg_inv G good (Suc k) s (P - {#(i, SegmentData pid)#}) U"
    using inv by (intro inv_keep [OF inv only_about_simps(2) [OF i] _ subset_refl None])
      (simp add: seg_inv_def pend_ok_minus)
  with None show ?thesis by (simp add: onSegmentDataValidated_def)
next
  case (Some p)
  note pend = pending_segment [OF inv i]
  obtain st' inserted where ins: "insertData G st d = (st', inserted)" by (cases "insertData G st d")
  obtain b n num where num: "repInsertNum (segResponse p) = Some num"
    and arr: "let r = (if inserted then (new_end fin (segResponse p))\<lparr>repInsertNum := Some (num + 1)\<rparr>
              else new_end fin (segResponse p));
         num' = (if inserted then num + 1 else num)
     in arrival G good k pid i (seg_no G i) b n num' (p\<lparr>segResponse := r\<rparr>) (outstanding G pid P)
          (set_process pid (p\<lparr>segResponse := r\<rparr>) s)"
    using arrival_of_data [OF inv laws i Some k fin ins good] by blast
  let ?r = "if inserted then (new_end fin (segResponse p))\<lparr>repInsertNum := Some (num + 1)\<rparr>
      else new_end fin (segResponse p)"
  let ?s = "set_process pid (p\<lparr>segResponse := ?r\<rparr>) s" and ?P = "P - {#(i, SegmentData pid)#}"
  have "advances G good (Suc k) pid (outstanding G pid ?P) ?s (onSegmentDataControl G now pid i ?s)"
    using control_step [OF arr [unfolded Let_def], of now] by (simp add: outstanding_minus [OF i])
  then obtain p' as where
    ctrl: "onSegmentDataControl G now pid i ?s = Inr (set_process pid p' s, as)"
    and ok: "seg_ok good (Suc k) p' (outstanding G pid (?P + requests as))"
    and req: "requests as = {#} \<or> (\<exists>j x. requests as = {#(j, SegmentData pid)#} \<and> segment_of G j = Inr x)"
    unfolding advances_def set_process_twice outstanding_simps(2) by blast
  have "seg_inv G good (Suc k) (set_process pid p' s) (?P + requests as) U"
  proof (rule inv_set [OF inv])
    have about: "only_about G pid P ?P" by (rule only_about_simps(2) [OF i])
    with req show "only_about G pid P (?P + requests as)"
      by (auto intro: only_about_simps(4))
    have "pend_ok G ?P U" using inv by (simp add: seg_inv_def pend_ok_minus)
    with req pend(2) show "pend_ok G (?P + requests as) U"
      by (auto simp: pend_ok_add seg_no_def)
    have "(j, SingleData pid) \<notin># ?P + requests as" for j
      using pend(4) [OF Some] req by (auto dest: in_diffD)
    moreover have "repStart (segResponse p') \<noteq> None" using ok by (auto simp: seg_ok_def)
    ultimately show "proc_ok G good (Suc k) (?P + requests as) pid p'"
      using ok by (auto simp: proc_ok_def)
  qed (use pend(2) in auto)
  moreover have "onSegmentDataValidated G now i d pid s st = Inr (set_process pid p' s, st', as)"
    using Some fin num ins ctrl by (auto simp: onSegmentDataValidated_def refresh_end_final Let_def)
  ultimately show ?thesis by blast
qed

lemma single_data_inv:
  assumes inv: "seg_inv G good k s P U" and i: "(i, SingleData pid) \<in># P"
  shows "\<exists>s' st' as. seg_onDataValidated G d pid s st = Inr (s', st', as)
     \<and> seg_inv G good (Suc k) s' (P - {#(i, SingleData pid)#} + requests as) U"
proof -
  let ?P = "P - {#(i, SingleData pid)#}"
  have about: "only_about G pid P ?P" by (rule only_about_simps(3) [OF i])
  have pend: "pend_ok G ?P U" using inv by (simp add: seg_inv_def pend_ok_minus)
  have U: "pid \<in> U" using inv i by (auto simp: seg_inv_def pend_ok_def)
  show ?thesis
  proof (cases "omap_find (segProcesses s) pid")
    case None
    with inv_keep [OF inv about pend] show ?thesis by (simp add: seg_onDataValidated_def)
  next
    case (Some p)
    with inv have "proc_ok G good k P pid p" by (simp add: seg_inv_def)
    with i have p: "repStart (segResponse p) = None" "repEnd (segResponse p) = None"
      "repInsertNum (segResponse p) \<noteq> None" "outstanding G pid P = {#}"
      by (auto simp: proc_ok_def split: if_splits)
    then obtain num where num: "repInsertNum (segResponse p) = Some num" by auto
    have set: "seg_inv G good (Suc k) (set_process pid p' s) ?P U"
      if "repStart (segResponse p') = None" "repEnd (segResponse p') = None"
        "repInsertNum (segResponse p') \<noteq> None" for p'
      using that p(4) by (intro inv_set [OF inv about pend _ U]) (simp_all add: proc_ok_def outstanding_minus [OF i])
    have "set_process pid p s = s"
      using Some by (simp add: set_process_def store_present)
    with set [of p] p have "seg_inv G good (Suc k) s ?P U" by simp
    moreover obtain st' inserted where "insertData G st d = (st', inserted)" by (cases "insertData G st d")
    ultimately show ?thesis
      using Some num p set by (cases "num = 0") (auto simp: seg_onDataValidated_def)
  qed
qed

lemma segment_timeout_inv:
  assumes inv: "seg_inv G good k s P U" and laws: "segment_laws G" and i: "(i, SegmentData pid) \<in># P"
  shows "\<exists>s' as. onSegmentTimeout G pid i s = Inr (s', as)
     \<and> seg_inv G good (Suc k) s' (P - {#(i, SegmentData pid)#} + requests as) U"
proof -
  let ?P = "P - {#(i, SegmentData pid)#}"
  have about: "only_about G pid P ?P" by (rule only_about_simps(2) [OF i])
  have pendP: "pend_ok G ?P U" using inv by (simp add: seg_inv_def pend_ok_minus)
  note pend = pending_segment [OF inv i]
  show ?thesis
  proof (cases "omap_find (segProcesses s) pid")
    case None
    with inv_keep [OF inv about pendP] show ?thesis
      by (simp add: onSegmentTimeout_def onSegmentTimeoutControl_def)
  next
    case (Some p)
    let ?f = "seg_no G i" and ?S = "outstanding G pid P"
    obtain b n num where p: "repStart (segResponse p) = Some b" "repInsertNum (segResponse p) = Some num"
      and flow: "flow_ok k b n p ?S"
      and live: "good \<longrightarrow> live_ok b n num p ?S \<and> (repStatus (segResponse p) = Some 300 \<longrightarrow> ?S \<noteq> {#})"
      using pend(4) [OF Some] unfolding seg_ok_def by blast
    obtain v where v: "omap_find (retryCounts p) ?f = Some v"
      using flow pend(3) by (auto simp: flow_ok_def)
    show ?thesis
    proof (cases "v \<ge> 3")
      case True
      with Some v pend(1) inv inv_erase [OF inv about pendP] show ?thesis
        by (simp add: onSegmentTimeout_def onSegmentTimeoutControl_def seg_inv_def)
    next
      case False
      let ?p = "p\<lparr>retryCounts := omap_store ?f (v + 1) (retryCounts p)\<rparr>"
      let ?j = "(newInterest (oldNdn G) (iName i))\<lparr>lifetimeMs := Some (m_interestLifetime s)\<rparr>"
      have j: "segment_of G ?j = Inr ?f" "seg_no G ?j = ?f"
        using laws pend(1) by (simp_all add: segment_of_def segment_laws_def seg_no_def)
      have "insert ?f (dom (omap_find (retryCounts p))) = dom (omap_find (retryCounts p))"
        using v by blast
      moreover have "0 \<le> v" using flow v by (auto simp: flow_ok_def)
      ultimately have "flow_ok k b n ?p ?S"
        using flow False unfolding flow_ok_def by (auto simp: om.find_store)
      moreover have "live_ok b n num ?p ?S = live_ok b n num p ?S" by (simp add: live_ok_def)
      ultimately have "seg_ok good k ?p ?S"
        using p live unfolding seg_ok_def by auto
      then have ok: "seg_ok good (Suc k) ?p ?S" by (rule seg_ok_mono)
      have "outstanding G pid (add_mset (?j, SegmentData pid) ?P) = ?S"
        using pend(3) by (simp add: outstanding_minus [OF i] j)
      moreover have "(x, SingleData pid) \<notin># add_mset (?j, SegmentData pid) ?P" for x
        using pend(4) [OF Some] by (auto dest: in_diffD)
      ultimately have "proc_ok G good (Suc k) (add_mset (?j, SegmentData pid) ?P) pid ?p"
        using ok p by (simp add: proc_ok_def)
      with about pendP pend(2) have "seg_inv G good (Suc k) (set_process pid ?p s) (add_mset (?j, SegmentData pid) ?P) U"
        by (intro inv_set [OF inv]) (auto simp: pend_ok_add j intro: only_about_simps)
      with Some v False pend(1) inv show ?thesis
        by (simp add: onSegmentTimeout_def onSegmentTimeoutControl_def seg_inv_def)
    qed
  qed
qed

section \<open>The invariant holds in every run\<close>

lemma check_inv:
  assumes inv: "seg_inv G good k s P U"
    and run: "onCheckInterest G valid now prefx i s = Inr (s', as)"
  shows "seg_inv G good (Suc k) s' P U"
proof -
  have same: "seg_inv G good (Suc k) s P U" using inv by (rule inv_same) simp
  have ext: "seg_inv G good (Suc k) (set_process pid (extendNoEndTime s now p) s) P U"
    if at: "omap_find (segProcesses s) pid = Some p"
      and b: "\<not> (repStart (segResponse p) = None \<and> repEnd (segResponse p) = None)" for pid p
  proof (rule inv_set [OF inv only_about_simps(1)])
    show "pend_ok G P U" "U \<subseteq> U" "pid \<in> U" using inv at by (simp_all add: seg_inv_def)
    have "proc_ok G good k P pid p" using inv at by (simp add: seg_inv_def)
    with b have p: "repStart (segResponse p) \<noteq> None" "seg_ok good k p (outstanding G pid P)"
      "\<forall>i. (i, SingleData pid) \<notin># P"
      by (auto simp: proc_ok_def split: if_splits)
    then have "seg_ok good k (extendNoEndTime s now p) (outstanding G pid P)"
      unfolding seg_ok_def by (auto simp: extendNoEndTime_def set_status_def flow_ok_def live_ok_def)
    with p(1,3) show "proc_ok G good (Suc k) P pid (extendNoEndTime s now p)"
      by (auto simp: proc_ok_def extendNoEndTime_def set_status_def dest: seg_ok_mono)
  qed
  note defs = onCheckInterest_def onCheckValidationFailed_def onCheckValidated_def
  show ?thesis
  proof (cases "valid \<and> (\<exists>par pid p. command_parameter G i prefx = Inr (Some par)
      \<and> cmdProcessId par = Some pid \<and> omap_find (segProcesses s) pid = Some p)")
    case True
    then obtain par pid p where "valid" "command_parameter G i prefx = Inr (Some par)"
      "cmdProcessId par = Some pid" and at: "omap_find (segProcesses s) pid = Some p" by blast
    with run have "s' = s \<or> s' = set_process pid (extendNoEndTime s now p) s
        \<and> \<not> (repStart (segResponse p) = None \<and> repEnd (segResponse p) = None)"
      by (auto simp: defs Let_def split: if_splits)
    with same ext [OF at] show ?thesis by auto
  next
    case False
    with run have "s' = s"
      by (cases "command_parameter G i prefx") (auto simp: defs split: option.splits if_splits)
    with same show ?thesis by simp
  qed
qed

lemma rejected_inv:
  assumes inv: "seg_inv G False k s P U" and i: "(i, c) \<in># P"
  shows "seg_inv G False (Suc k) s (P - {#(i, c)#}) U"
proof -
  have fewer: "seg_ok False k p S'" if "seg_ok False k p S" "S' \<subseteq># S" for p S S'
  proof -
    have "size S' \<le> size S" "set_mset S' \<subseteq> set_mset S" "\<And>x. count S' x \<le> count S x"
      using that(2) by (simp_all add: size_mset_mono set_mset_mono mset_subset_eq_count)
    note sub = this
    have "flow_ok k b n p S'" if flow: "flow_ok k b n p S" for b n
    proof -
      have "count S x \<le> 1" for x using flow by (simp add: flow_ok_def)
      with sub(3) have "count S' x \<le> 1" for x by (meson le_trans)
      with flow sub(1,2) show ?thesis unfolding flow_ok_def by auto
    qed
    with that(1) show ?thesis unfolding seg_ok_def by blast
  qed
  have sub: "outstanding G pid (P - {#(i, c)#}) \<subseteq># outstanding G pid P" for pid
    by (simp add: outstanding_minus [OF i])
  have "proc_ok G False (Suc k) (P - {#(i, c)#}) pid p" if "proc_ok G False k P pid p" for pid p
    using that fewer [OF _ sub] sub [of pid]
    by (auto simp: proc_ok_def dest: in_diffD intro!: seg_ok_mono split: if_splits)
  with inv show ?thesis by (auto simp: seg_inv_def pend_ok_minus)
qed

lemma data_final:
  assumes "seg_inv G good k s P U" and "(i, SegmentData pid) \<in># P"
    and "onSegmentDataValidated G now i d pid s st = Inr r" and "omap_find (segProcesses s) pid \<noteq> None"
  shows "\<exists>fin. final_segment G d = Some fin"
  using assms(3,4)
  by (auto simp: onSegmentDataValidated_def refresh_end_final rbind_Inr split: option.splits)

theorem seg_run_invariant:
  assumes "seg_run G good st0 s st P U k" and laws: "segment_laws G" and "k \<le> 2 ^ 62"
  shows "seg_inv G good k s P U"
  using assms(1,3)
proof (induction rule: seg_run.induct)
  case start
  then show ?case by (simp add: seg_inv_def seg_new_def pend_ok_def)
next
  case (command s st P U k pid i prefx valid now s' as)
  then show ?case using command_inv [OF _ laws] by simp
next
  case (data s st P U k i c d now s' st' as)
  then have inv: "seg_inv G good k s P U" and k: "k < 2 ^ 62" "k < 2 ^ 64 - 12" by simp_all
  from inv data(2) obtain pid where "c = SegmentData pid \<or> c = SingleData pid"
    by (auto simp: seg_inv_def pend_ok_def)
  then show ?case
  proof
    assume c: "c = SegmentData pid"
    with data(4) have run: "onSegmentDataValidated G now i d pid s st = Inr (s', st', as)"
      by (simp add: seg_data_def)
    show ?thesis
    proof (cases "omap_find (segProcesses s) pid")
      case None
      have "seg_inv G good (Suc k) s (P - {#(i, c)#}) U"
        by (rule inv_keep [OF inv _ _ subset_refl None])
          (use inv data(2) c in \<open>simp_all add: seg_inv_def pend_ok_minus only_about_simps\<close>)
      with None run show ?thesis by (simp add: onSegmentDataValidated_def)
    next
      case (Some p)
      with data_final [OF inv _ run] data(2) c obtain fin where "final_segment G d = Some fin" by auto
      from segment_data_inv [OF inv laws _ k(2) this, of i pid st now] data(2,3) c k(1) run
      show ?thesis by auto
    qed
  next
    assume c: "c = SingleData pid"
    with single_data_inv [OF inv, of i pid d st] data(2,4) show ?thesis
      by (auto simp: seg_data_def)
  qed
next
  case (rejected s st P U k i c)
  then show ?case using rejected_inv [of G k s P U i c] by simp
next
  case (timeout s st P U k i c s' as)
  then have inv: "seg_inv G good k s P U" by simp
  from inv timeout(2) obtain pid where "c = SegmentData pid \<or> c = SingleData pid"
    by (auto simp: seg_inv_def pend_ok_def)
  then show ?case
  proof
    assume c: "c = SegmentData pid"
    with segment_timeout_inv [OF inv laws, of i pid] timeout(2,3) show ?thesis
      by (auto simp: seg_timeout_def)
  next
    assume c: "c = SingleData pid"
    have "seg_inv G good (Suc k) (seg_onTimeout pid s) (P - {#(i, c)#}) U"
      unfolding seg_onTimeout_def
      by (rule inv_erase [OF inv]) (use inv timeout(2) c in \<open>simp_all add: seg_inv_def pend_ok_minus only_about_simps\<close>)
    with timeout(3) c show ?thesis by (simp add: seg_timeout_def)
  qed
next
  case (deletion s st P U k pid)
  then have inv: "seg_inv G good k s P U" by simp
  then show ?case
    unfolding deleteProcess_def by (intro inv_erase [OF inv only_about_simps(1)]) (simp_all add: seg_inv_def)
next
  case (check s st P U k valid now prefx i s' as)
  then show ?case using check_inv by simp
qed

end
