(* ===== verification/Reference_Old.thy ===== *)
theory Reference_Old
  imports Old_Protocol Reference_Engine
begin

text \<open>
  A concrete instance of the library of the old handlers, for the witnesses: the storage is the
  list of the stored names, a segment number is a component of a type of its own, and a command
  is a frame with a name, a first and a last segment and a number of interests.
\<close>

definition segment_component :: "64 word \<Rightarrow> component" where
  "segment_component k = Component 33 (word_field k)"

definition ref_decodeCommand :: "bytes \<Rightarrow> unit command option" where
  "ref_decodeCommand s = (case unframes s of
     Some [n, b, e, m] \<Rightarrow> Some \<lparr>cmdHasName = True, cmdName = [generic n], cmdSelectors = None,
       cmdStart = Some (field_word b), cmdEnd = Some (field_word e), cmdProcessId = Some 7,
       cmdMaxInterestNum = Some (uint (field_word m)), cmdWatchTimeout = None, cmdLifetime = None\<rparr>
   | _ \<Rightarrow> None)"

definition ref_old :: "(unit, name list) old_lib" where
  "ref_old = \<lparr>oldNdn = ref_lib, decodeCommand = ref_decodeCommand, encodeReport = (\<lambda>r. []),
     appendSegment = (\<lambda>n k. n @ [segment_component k]),
     toSegment = (\<lambda>c. if ctype c = 33 then Some (field_word (cvalue c)) else None),
     setSelectors = (\<lambda>_ i. i),
     insertData = (\<lambda>st d. (dName d # st, True)),
     deleteData = (\<lambda>st n. (removeAll n st, if n \<in> set st then 1 else 0)),
     deleteMatching = (\<lambda>st i. (removeAll (iName i) st, if iName i \<in> set st then 1 else 0))\<rparr>"

lemma ref_old_sel [simp]:
  "oldNdn ref_old = ref_lib" "decodeCommand ref_old = ref_decodeCommand"
  "appendSegment ref_old n k = n @ [segment_component k]"
  "insertData ref_old st d = (dName d # st, True)"
  "deleteData ref_old st n = (removeAll n st, if n \<in> set st then 1 else 0)"
  by (simp_all add: ref_old_def)

lemma ref_segment_laws: "segment_laws ref_old"
  using ref_packet_laws
  by (simp add: segment_laws_def packet_laws_def ref_old_def segment_component_def)

text \<open>A command sent below \<open>/r/go\<close>: the name \<open>/a\<close>, the segments from \<open>b\<close> to \<open>e\<close>.\<close>

definition ref_old_prefix :: name where
  "ref_old_prefix = [generic ''r'', generic ''go'']"

definition ref_old_interest :: "64 word \<Rightarrow> 64 word \<Rightarrow> 64 word \<Rightarrow> interest" where
  "ref_old_interest b e m =
     ref_interest [''r'', ''go'', frames [''a'', word_field b, word_field e, word_field m]] True"

definition ref_old_command :: "64 word \<Rightarrow> 64 word \<Rightarrow> 64 word \<Rightarrow> unit command" where
  "ref_old_command b e m = \<lparr>cmdHasName = True, cmdName = [generic ''a''], cmdSelectors = None,
     cmdStart = Some b, cmdEnd = Some e, cmdProcessId = Some 7, cmdMaxInterestNum = Some (uint m),
     cmdWatchTimeout = None, cmdLifetime = None\<rparr>"

lemma ref_old_parameter:
  "command_parameter ref_old (ref_old_interest b e m) ref_old_prefix = Inr (Some (ref_old_command b e m))"
  by (simp add: command_parameter_def ref_old_interest_def ref_old_prefix_def ref_interest_def
      ref_old_command_def ref_decodeCommand_def)

end
