(* ===== verification/Segment_Properties.thy ===== *)
theory Segment_Properties
  imports Segment_Invariant Reference_Old
begin

text \<open>
  What holds in the runs of the segmented insert handler: every callback is handled, at most
  twelve interests of a fetch are pending, and a fetch that loses no packet does not stall.
\<close>

section \<open>A run used by the witnesses\<close>

text \<open>A fetch of the segments 0 to 3, just started by a command.\<close>

lemma ref_first: "first_count 0 (Some 3) = 4" "initial_count 0 (Some 3) = 4"
  by (simp_all add: first_count_def initial_count_def min_def)

lemma ref_seg_command:
  "\<exists>t as. seg_onInterest ref_old True 0 7 ref_old_prefix (ref_old_interest 0 e 5) seg_new
       = Inr (set_process 7 (first_process 7 0 (Some e) t) seg_new, as)
     \<and> requests as = requests (map (express_segment ref_old seg_new 7 [generic ''a''])
         (segments_from 0 (first_count 0 (Some e))))"
proof -
  let ?par = "ref_old_command 0 e 5" and ?i = "ref_old_interest 0 e 5"
  have par: "cmdStart ?par = Some 0" "cmdEnd ?par = Some e" "cmdSelectors ?par = None"
    "cmdLifetime ?par = None" "cmdName ?par = [generic ''a'']"
    by (simp_all add: ref_old_command_def)
  have empty: "omap_find (segProcesses seg_new) 7 = None" "m_credit seg_new = 12"
    by (simp_all add: seg_new_def)
  obtain t where t: "segInit ref_old 0 7 ?par (snd (start_process 7 (Some 0) (cmdEnd ?par) seg_new))
    = Inr (set_process 7 (first_process 7 0 (cmdEnd ?par) t) seg_new,
        map (express_segment ref_old seg_new 7 (cmdName ?par)) (segments_from 0 (first_count 0 (cmdEnd ?par))))"
    using first_process_started [OF empty par(1), of ref_old 0] by blast
  obtain r s1 where s1: "start_process 7 (Some 0) (Some e) seg_new = (r, s1)"
    by (cases "start_process 7 (Some 0) (Some e) seg_new")
  have upd: "?par\<lparr>cmdStart := Some 0\<rparr> = ?par" by (simp add: ref_old_command_def)
  have "processSegmentedInsertCommand ref_old 0 7 ?i ?par seg_new
    = Inr (set_process 7 (first_process 7 0 (Some e) t) seg_new, old_reply ref_old ?i r #
        map (express_segment ref_old seg_new 7 [generic ''a'']) (segments_from 0 (first_count 0 (Some e))))"
    using t par s1 by (simp add: processSegmentedInsertCommand_def upd Let_def)
  then show ?thesis
    using par by (intro exI [of _ t]) (simp add: seg_onInterest_def seg_onValidated_def ref_old_parameter)
qed

lemma ref_seg_run:
  "\<exists>t. seg_run ref_old True [] (set_process 7 (first_process 7 0 (Some 3) t) seg_new) []
     (requests (map (express_segment ref_old seg_new 7 [generic ''a'']) [0, 1, 2, 3])) {7} 1"
proof -
  obtain t as where cmd: "seg_onInterest ref_old True 0 7 ref_old_prefix (ref_old_interest 0 3 5) seg_new
      = Inr (set_process 7 (first_process 7 0 (Some 3) t) seg_new, as)"
    and as: "requests as = requests (map (express_segment ref_old seg_new 7 [generic ''a'']) (segments_from 0 4))"
    using ref_seg_command [of 3] unfolding ref_first by blast
  have "segments_from 0 4 = [0, 1, 2, 3]" by code_simp
  with as seg_run.command [OF seg_run.start, of 7 True ref_old _ _ _ _ _ _ "[]", OF _ _ cmd]
  show ?thesis
    by (auto simp: ref_old_parameter clean_command_def ref_old_command_def)
qed

lemma ref_seg_process:
  "omap_find (segProcesses (set_process 7 (first_process 7 0 (Some 3) t) seg_new)) 7
     = Some (first_process 7 0 (Some 3) t)"
  "repStart (segResponse (first_process 7 0 (Some 3) t)) = Some 0"
  "repStatus (segResponse (first_process 7 0 (Some 3) t)) = Some 300"
  by (simp_all add: set_process_def first_process_def)

section \<open>Properties\<close>

lemma inv_weaken: "seg_inv G good k s P U \<Longrightarrow> seg_inv G False k s P U"
proof -
  have "seg_ok good k p S \<Longrightarrow> seg_ok False k p S" for p S
    unfolding seg_ok_def by blast
  then have "proc_ok G good k P pid p \<Longrightarrow> proc_ok G False k P pid p" for pid p
    by (simp add: proc_ok_def split: if_splits)
  then show "seg_inv G good k s P U \<Longrightarrow> seg_inv G False k s P U"
    unfolding seg_inv_def by blast
qed

lemma seg_run_step_bound:
  assumes "seg_run G good st0 s st P U k" and "segment_laws G" and "k < 2 ^ 62"
    and "omap_find (segProcesses s) pid = Some p" and "repStart (segResponse p) \<noteq> None"
  shows "seg_ok good k p (outstanding G pid P)"
proof -
  have "seg_inv G good k s P U"
    using assms(1-3) by (intro seg_run_invariant) simp_all
  with assms(4) have "proc_ok G good k P pid p" by (simp add: seg_inv_def)
  with assms(5) show ?thesis by (simp add: proc_ok_def)
qed

text \<open>
  C11: the handler does not fail on what the face may still deliver. In every run (of fewer than
  2^62 events, with process ids that do not repeat, and packets lost to validation or storage
  allowed) a pending interest may time out, and be answered by any packet whose final block id
  is a segment number, without an exception: no assertion on the retry counts fails, and no
  field of a response is read that is not set.
\<close>

theorem segment_callbacks_safe:
  assumes "seg_run G good st0 s st P U k" and "segment_laws G" and "k < 2 ^ 62"
    and "(i, c) \<in># P" and "final_segment G d \<noteq> None"
  shows "is_ok (seg_timeout G i c s) \<and> is_ok (seg_data G now i c d s st)"
proof -
  have inv: "seg_inv G good k s P U"
    using assms(1-3) by (intro seg_run_invariant) simp_all
  note weak = inv_weaken [OF inv]
  obtain fin where fin: "final_segment G d = Some fin" using assms(5) by blast
  from inv assms(4) obtain pid where "c = SegmentData pid \<or> c = SingleData pid"
    by (auto simp: seg_inv_def pend_ok_def)
  then show ?thesis
  proof
    assume c: "c = SegmentData pid"
    with segment_timeout_inv [OF inv assms(2), of i pid] assms(3,4)
      segment_data_inv [OF weak assms(2) _ _ fin, of i pid st now]
    show ?thesis by (auto simp: seg_timeout_def seg_data_def is_ok_iff)
  next
    assume c: "c = SingleData pid"
    with single_data_inv [OF inv, of i pid d st] assms(4) show ?thesis
      by (auto simp: seg_timeout_def seg_data_def is_ok_iff)
  qed
qed

theorem segment_callbacks_safe_witness:
  "\<exists>s. is_ok (seg_timeout ref_old (segment_interest ref_old 4000 [generic ''a''] 2) (SegmentData 7) s)
     \<and> is_ok (seg_data ref_old 5 (segment_interest ref_old 4000 [generic ''a''] 2) (SegmentData 7)
          (ref_packet [''a''] ''x'') s [])"
proof -
  obtain t where run: "seg_run ref_old True [] (set_process 7 (first_process 7 0 (Some 3) t) seg_new) []
     (requests (map (express_segment ref_old seg_new 7 [generic ''a'']) [0, 1, 2, 3])) {7} 1"
    using ref_seg_run by blast
  have "final_segment ref_old (ref_packet [''a''] ''x'') \<noteq> None"
    by (simp add: final_segment_def ref_packet_def)
  with segment_callbacks_safe [OF run ref_segment_laws, of "segment_interest ref_old 4000 [generic ''a''] 2"]
  show ?thesis by (force simp: seg_new_def)
qed


text \<open>
  C12: flow control. At every moment of a run a segmented fetch has at most twelve interests
  pending, the credit it holds and the interests pending together are at most twelve, no
  segment is pending twice, and each pending segment has been retried at most three times.
\<close>

theorem segment_flow_control:
  assumes "seg_run G good st0 s st P U k" and "segment_laws G" and "k < 2 ^ 62"
    and "omap_find (segProcesses s) pid = Some p" and "repStart (segResponse p) \<noteq> None"
  shows "0 \<le> credit p \<and> credit p + int (size (outstanding G pid P)) \<le> 12
    \<and> (\<forall>x. count (outstanding G pid P) x \<le> 1)
    \<and> (\<forall>x \<in># outstanding G pid P. \<exists>v. omap_find (retryCounts p) x = Some v \<and> 0 \<le> v \<and> v \<le> 3)"
  using seg_run_step_bound [OF assms] unfolding seg_ok_def flow_ok_def by blast

theorem segment_flow_control_witness:
  "\<exists>p :: seg_process. 0 \<le> credit p \<and> credit p + int (size (outstanding ref_old 7
      (requests (map (express_segment ref_old seg_new 7 [generic ''a'']) [0, 1, 2, 3])))) \<le> 12"
proof -
  obtain t where run: "seg_run ref_old True [] (set_process 7 (first_process 7 0 (Some 3) t) seg_new) []
     (requests (map (express_segment ref_old seg_new 7 [generic ''a'']) [0, 1, 2, 3])) {7} 1"
    using ref_seg_run by blast
  have "repStart (segResponse (first_process 7 0 (Some 3) t)) \<noteq> None" by (simp add: ref_seg_process)
  moreover have "(1 :: nat) < 2 ^ 62" by simp
  ultimately show ?thesis
    using segment_flow_control [OF run ref_segment_laws _ ref_seg_process(1)] by blast
qed


text \<open>
  C13: a fetch does not stall. When ranges start in the lower half of the segment numbers and
  end below the greatest, every packet is stored, and a final block id is not before the start
  of its range, then a process whose status is 300 (in progress) has an interest pending. So
  it goes on until its status is 200 or 405, or it is given up after three retries.
\<close>

theorem segment_fetch_live:
  assumes "seg_run G True st0 s st P U k" and "segment_laws G" and "k < 2 ^ 62"
    and "omap_find (segProcesses s) pid = Some p" and "repStart (segResponse p) \<noteq> None"
    and "repStatus (segResponse p) = Some 300"
  shows "\<exists>i. (i, SegmentData pid) \<in># P"
proof -
  have "outstanding G pid P \<noteq> {#}"
    using seg_run_step_bound [OF assms(1-5)] assms(6) unfolding seg_ok_def by blast
  then have "\<exists>(i, c) \<in># P. c = SegmentData pid" by (auto simp: outstanding_def)
  then show ?thesis by auto
qed

theorem segment_fetch_live_witness:
  "\<exists>i. (i, SegmentData 7) \<in>#
     requests (map (express_segment ref_old seg_new 7 [generic ''a'']) [0, 1, 2, 3])"
proof -
  obtain t where run: "seg_run ref_old True [] (set_process 7 (first_process 7 0 (Some 3) t) seg_new) []
     (requests (map (express_segment ref_old seg_new 7 [generic ''a'']) [0, 1, 2, 3])) {7} 1"
    using ref_seg_run by blast
  have "repStart (segResponse (first_process 7 0 (Some 3) t)) \<noteq> None" by (simp add: ref_seg_process)
  from segment_fetch_live [OF run ref_segment_laws _ ref_seg_process(1) this ref_seg_process(3)]
  show ?thesis by simp
qed


text \<open>
  C27: what a segmented command asks for first, in 64-bit arithmetic. A range from `b` to `e`
  is answered with status 100 and starts with its first twelve segments, or with all of them
  when there are fewer, in order. The exception are ranges that end at the greatest number and
  have all segments or at most twelve: the bound of the loop wraps around, and nothing is
  requested, now or later, because only packets and timeouts move a fetch on.
\<close>

theorem segmented_first_requests:
  assumes "m_credit s = 12" and "omap_find (segProcesses s) pid = None"
    and par: "cmdStart par = Some b" "cmdEnd par = Some e" and "b \<le> e"
  shows "\<exists>s' as. processSegmentedInsertCommand G now pid i par s = Inr (s', as)
    \<and> (\<exists>r. sent as = [old_answer G i r] \<and> repStatus r = Some 100)
    \<and> expressed as = map (\<lambda>x. (segment_interest G (m_interestLifetime s) (cmdName par) (of_nat x),
          SegmentData pid, Some (SegmentTimeout pid)))
        (if e = -1 \<and> (b = 0 \<or> 2 ^ 64 \<le> unat b + 12) then []
         else [unat b ..< unat b + min 12 (unat e - unat b + 1)])"
proof -
  have bounds: "unat b \<le> unat e" "unat e < 2 ^ 64" "unat b < 2 ^ 64"
    using assms(5) unat_small by (simp_all add: word_le_nat_alt)
  have e: "e = -1 \<longleftrightarrow> unat e = 2 ^ 64 - 1" using unat_max by (metis word_unat_eq_iff)
  have b: "b = 0 \<longleftrightarrow> unat b = 0" by (simp add: unsigned_eq_0_iff)
  have count: "first_count b (Some e) = (if e = -1 \<and> (b = 0 \<or> 2 ^ 64 \<le> unat b + 12) then 0
      else min 12 (unat e - unat b + 1))"
  proof (cases "e = -1 \<and> b = 0")
    case True
    then show ?thesis by (simp add: first_count_def initial_count_def)
  next
    case False
    have "unat (e - b + 1) = (unat e - unat b + 1) mod 2 ^ 64"
      using assms(5) by (simp add: unat_word_ariths unat_sub)
    also have "unat e - unat b + 1 < 2 ^ 64"
      using False bounds e b by (cases "unat e = 2 ^ 64 - 1") simp_all
    then have "(unat e - unat b + 1) mod 2 ^ 64 = unat e - unat b + 1" by (rule mod_less)
    finally have "initial_count b (Some e) = min 12 (unat e - unat b + 1)"
      by (simp add: initial_count_def min_def word_le_nat_alt)
    with False bounds e b show ?thesis by (auto simp: first_count_def)
  qed
  have list: "segments_from b m = map of_nat [unat b ..< unat b + m]" for m
  proof -
    have "map (\<lambda>j. b + of_nat j) [0..<m] = map (of_nat \<circ> (\<lambda>j. unat b + j)) [0..<m]" by simp
    also have "\<dots> = map of_nat [unat b ..< unat b + m]"
      using map_add_upt [of "unat b" m] by (metis (no_types, lifting) add.commute map_eq_conv map_map)
    finally show ?thesis by (simp add: segments_from_nth)
  qed
  have ex: "expressed (map (express_segment G s pid n) xs) = map (\<lambda>x. (segment_interest G
      (m_interestLifetime s) n x, SegmentData pid, Some (SegmentTimeout pid))) xs"
    "sent (map (express_segment G s pid n) xs) = []" for n xs
    by (induction xs) (simp_all add: express_segment_def)
  obtain t where t: "segInit G now pid par (snd (start_process pid (Some b) (cmdEnd par) s))
    = Inr (set_process pid (first_process pid b (cmdEnd par) t) s,
           map (express_segment G s pid (cmdName par)) (segments_from b (first_count b (cmdEnd par))))"
    using first_process_started [OF assms(2,1) par(1), of G now] by blast
  obtain r s1 where s1: "start_process pid (Some b) (Some e) s = (r, s1)"
    by (cases "start_process pid (Some b) (Some e) s")
  then have "repStatus r = Some 100"
    by (auto simp: start_process_def new_report_def Let_def)
  moreover have upd: "par\<lparr>cmdStart := Some b\<rparr> = par" using par(1) by simp
  have "processSegmentedInsertCommand G now pid i par s =
     Inr (set_process pid (first_process pid b (Some e) t) s, old_reply G i r #
       map (express_segment G s pid (cmdName par)) (segments_from b (first_count b (Some e))))"
    using t par s1 leD [OF assms(5)] by (simp add: processSegmentedInsertCommand_def upd Let_def)
  moreover have "expressed (map (express_segment G s pid (cmdName par)) (segments_from b (first_count b (Some e))))
    = map (\<lambda>x. (segment_interest G (m_interestLifetime s) (cmdName par) (of_nat x),
          SegmentData pid, Some (SegmentTimeout pid)))
        (if e = -1 \<and> (b = 0 \<or> 2 ^ 64 \<le> unat b + 12) then []
         else [unat b ..< unat b + min 12 (unat e - unat b + 1)])"
    unfolding ex list count by (cases "e = -1 \<and> (b = 0 \<or> 2 ^ 64 \<le> unat b + 12)")
      (simp_all only: if_P if_not_P simp_thms map_map comp_def add_0_right upt_conv_Nil list.map order_refl)
  ultimately show ?thesis
    using ex(2) by (intro exI conjI) (assumption | simp)+
qed

theorem segmented_first_requests_witness:
  "\<exists>s' as. processSegmentedInsertCommand ref_old 0 7 (ref_old_interest 0 (-1) 5) (ref_old_command 0 (-1) 5) seg_new
     = Inr (s', as) \<and> expressed as = []"
proof -
  have "m_credit seg_new = 12" "omap_find (segProcesses seg_new) 7 = None"
    "cmdStart (ref_old_command 0 (-1) 5) = Some 0" "cmdEnd (ref_old_command 0 (-1) 5) = Some (-1)"
    by (simp_all add: seg_new_def ref_old_command_def)
  from segmented_first_requests [OF this, of ref_old 0 "ref_old_interest 0 (-1) 5"] show ?thesis
    by auto
qed


end
