(* ===== verification/Delete_Handle.thy ===== *)
theory Delete_Handle
  imports Reference_Old
begin

text \<open>
  \<open>delete-handle.cpp\<close>, which is compiled out: the command that deletes one packet, the packets
  selectors choose, or a range of segments. The loop over a range counts with an unsigned
  64-bit variable and may run forever, so what it returns is an option: \<open>None\<close> stands for a
  command that never returns.
\<close>

section \<open>Commands\<close>

datatype delete_endpoint = DeleteCommand

definition delete_listen :: "name \<Rightarrow> (name \<times> delete_endpoint) list" where
  "delete_listen p = [(p @ [generic ''delete''], DeleteCommand)]"

definition positiveReply ::
  "('sel, 'st) old_lib \<Rightarrow> interest \<Rightarrow> 'sel command \<Rightarrow> int \<Rightarrow> 64 word \<Rightarrow> unit action" where
  "positiveReply G i par code n =
     old_reply G i (case cmdProcessId par of
       Some pid \<Rightarrow> report_new\<lparr>repProcessId := Some pid, repStatus := Some code, repDeleteNum := Some n\<rparr>
     | None \<Rightarrow> report_new\<lparr>repStatus := Some 403\<rparr>)"

definition delete_negativeReply :: "('sel, 'st) old_lib \<Rightarrow> interest \<Rightarrow> int \<Rightarrow> unit action" where
  "delete_negativeReply G i code = old_reply G i (report_new\<lparr>repStatus := Some code\<rparr>)"

lemma delete_negativeReply_old [simp]: "delete_negativeReply = old_negativeReply"
  by (simp add: fun_eq_iff delete_negativeReply_def old_negativeReply_def)

type_synonym 'st delete_outcome = "('st \<times> unit action list) option result"

text \<open>The storage returns the number of packets deleted, or -1.\<close>

definition deletion_reply ::
  "('sel, 'st) old_lib \<Rightarrow> interest \<Rightarrow> 'sel command \<Rightarrow> 'st \<times> int \<Rightarrow> 'st delete_outcome" where
  "deletion_reply G i par r = (case r of (st', n) \<Rightarrow>
     Inr (Some (st', [if n = -1 then delete_negativeReply G i 405
                      else positiveReply G i par 200 (word_of_int n)])))"

definition processSingleDeleteCommand ::
  "('sel, 'st) old_lib \<Rightarrow> interest \<Rightarrow> 'sel command \<Rightarrow> 'st \<Rightarrow> 'st delete_outcome" where
  "processSingleDeleteCommand G i par st = deletion_reply G i par (deleteData G st (cmdName par))"

definition processSelectorDeleteCommand ::
  "('sel, 'st) old_lib \<Rightarrow> interest \<Rightarrow> 'sel command \<Rightarrow> 'sel \<Rightarrow> 'st \<Rightarrow> 'st delete_outcome" where
  "processSelectorDeleteCommand G i par sel st = deletion_reply G i par
     (deleteMatching G st (setSelectors G sel (newInterest (oldNdn G) (cmdName par))))"

text \<open>
  The loop over the segments. The condition of the \<open>if\<close> in its body is the number the storage
  returns, so -1 counts as well.
\<close>

partial_function (option) delete_loop ::
  "('sel, 'st) old_lib \<Rightarrow> name \<Rightarrow> 64 word \<Rightarrow> 64 word \<Rightarrow> 'st \<Rightarrow> 64 word \<Rightarrow> ('st \<times> 64 word) option" where
  "delete_loop G n end_id i st num =
     (if i \<le> end_id then
        delete_loop G n end_id (i + 1) (fst (deleteData G st (appendSegment G n i)))
          (if snd (deleteData G st (appendSegment G n i)) \<noteq> 0 then num + 1 else num)
      else Some (st, num))"

definition processSegmentDeleteCommand ::
  "('sel, 'st) old_lib \<Rightarrow> interest \<Rightarrow> 'sel command \<Rightarrow> 'st \<Rightarrow> 'st delete_outcome" where
  "processSegmentDeleteCommand G i par st =
     (let begin_id = (case cmdStart par of None \<Rightarrow> 0 | Some k \<Rightarrow> k) in
      case cmdEnd par of
        Some end_id \<Rightarrow>
          if begin_id > end_id then Inr (Some (st, [delete_negativeReply G i 403]))
          else Inr (map_option
                 (\<lambda>(st', num). (st', [positiveReply G i (par\<lparr>cmdStart := Some begin_id\<rparr>) 200 num]))
                 (delete_loop G (cmdName par) end_id begin_id st 0))
      | None \<Rightarrow> Inl (UndefinedBehaviour ''assertion''))"

definition delete_onValidated ::
  "('sel, 'st) old_lib \<Rightarrow> name \<Rightarrow> interest \<Rightarrow> 'st \<Rightarrow> 'st delete_outcome" where
  "delete_onValidated G prefx i st =
     rbind (command_parameter G i prefx) (\<lambda>decoded.
       case decoded of
         None \<Rightarrow> Inr (Some (st, [delete_negativeReply G i 403]))
       | Some par \<Rightarrow>
           (case cmdSelectors par of
              Some sel \<Rightarrow>
                if cmdStart par \<noteq> None \<or> cmdEnd par \<noteq> None
                then Inr (Some (st, [delete_negativeReply G i 402]))
                else processSelectorDeleteCommand G i par sel st
            | None \<Rightarrow>
                if cmdStart par = None \<and> cmdEnd par = None
                then processSingleDeleteCommand G i par st
                else processSegmentDeleteCommand G i par st))"

text \<open>A command whose validation has ended, with the verdict.\<close>

definition delete_onValidationFailed :: "('sel, 'st) old_lib \<Rightarrow> interest \<Rightarrow> unit action list" where
  "delete_onValidationFailed G i = [delete_negativeReply G i 401]"

definition delete_onInterest ::
  "('sel, 'st) old_lib \<Rightarrow> bool \<Rightarrow> name \<Rightarrow> interest \<Rightarrow> 'st \<Rightarrow> 'st delete_outcome" where
  "delete_onInterest G valid prefx i st =
     (if valid then delete_onValidated G prefx i st
      else Inr (Some (st, delete_onValidationFailed G i)))"

section \<open>The loop against its specification\<close>

text \<open>Deleting a list of names one after the other, and how many deletions reported something.\<close>

fun delete_names :: "('sel, 'st) old_lib \<Rightarrow> name list \<Rightarrow> 'st \<Rightarrow> 'st \<times> nat" where
  "delete_names G [] st = (st, 0)"
| "delete_names G (n # ns) st =
     (let (st', k) = deleteData G st n; (st'', m) = delete_names G ns st'
      in (st'', if k \<noteq> 0 then Suc m else m))"

lemma delete_loop_not_greatest:
  assumes "delete_loop G n e i st num = Some r"
  shows "e \<noteq> -1"
proof (rule delete_loop.raw_induct [where P = "\<lambda>G n e i st num r. e \<noteq> -1", OF _ assms])
  fix f and G :: "('sel, 'st) old_lib" and n and e i :: "64 word" and st num r
  assume IH: "\<And>G n e i st num r. f G n e i st num = Some r \<Longrightarrow> e \<noteq> (-1 :: 64 word)"
    and eq: "(if i \<le> e then f G n e (i + 1) (fst (deleteData G st (appendSegment G n i)))
          (if snd (deleteData G st (appendSegment G n i)) \<noteq> 0 then num + 1 else num)
      else Some (st, num)) = Some r"
  show "e \<noteq> -1"
  proof (cases "i \<le> e")
    case True
    with eq show ?thesis by (intro IH) simp
  next
    case False
    then show ?thesis by auto
  qed
qed

lemma delete_loop_range:
  assumes hi: "hi = unat e + 1" "e \<noteq> -1"
  shows "unat i \<le> hi \<Longrightarrow>
     delete_loop G n e i st num = Some (map_prod id (\<lambda>m. num + of_nat m)
       (delete_names G (map (\<lambda>x. appendSegment G n (of_nat x)) [unat i ..< hi]) st))"
proof (induction "hi - unat i" arbitrary: i st num)
  case 0
  then have "\<not> i \<le> e" using hi by (simp add: word_le_nat_alt)
  with 0 show ?case by (simp add: delete_loop.simps)
next
  case (Suc k)
  then have le: "i \<le> e" and lt: "unat i < hi" using hi by (simp_all add: word_le_nat_alt)
  have "unat e \<noteq> unat (-1 :: 64 word)" using hi(2) word_unat_eq_iff [of e "-1"] by metis
  moreover have "unat (-1 :: 64 word) = 2 ^ 64 - 1"
    by (simp add: unsigned_minus_1_eq_mask mask_eq_exp_minus_1)
  moreover have "unat e < 2 ^ 64" using unsigned_less [of e] by simp
  ultimately have i1: "unat (i + 1) = unat i + 1"
    using le by (simp add: word_le_nat_alt unat_word_ariths)
  obtain st' c where d: "deleteData G st (appendSegment G n i) = (st', c)"
    by (cases "deleteData G st (appendSegment G n i)")
  obtain st'' m where rest: "delete_names G (map (\<lambda>x. appendSegment G n (of_nat x)) [unat i + 1 ..< hi]) st'
      = (st'', m)"
    by (cases "delete_names G (map (\<lambda>x. appendSegment G n (of_nat x)) [unat i + 1 ..< hi]) st'")
  have "delete_loop G n e (i + 1) st' num' = Some (st'', num' + of_nat m)" for num'
    using Suc(1) [of "i + 1" st' num'] Suc.hyps(2) i1 lt rest by simp
  with le d rest lt show ?case
    by (subst delete_loop.simps) (simp add: upt_conv_Cons Let_def add.assoc)
qed

section \<open>Properties\<close>

text \<open>
  C21: a segment deletion returns exactly when the range does not end at the greatest segment
  number. A range that ends there never does: the loop variable wraps around to 0 and is never
  greater than the end of the range.
\<close>

theorem segment_deletion_returns:
  assumes "cmdEnd par = Some e"
  shows "(\<exists>r. processSegmentDeleteCommand G i par st = Inr (Some r))
    \<longleftrightarrow> e < (case cmdStart par of None \<Rightarrow> 0 | Some b \<Rightarrow> b) \<or> e \<noteq> -1"
proof (cases "e < (case cmdStart par of None \<Rightarrow> 0 | Some b \<Rightarrow> b)")
  case True
  with assms show ?thesis by (simp add: processSegmentDeleteCommand_def Let_def)
next
  case False
  let ?b = "case cmdStart par of None \<Rightarrow> 0 | Some b \<Rightarrow> b"
  have "(\<exists>r. delete_loop G (cmdName par) e ?b st 0 = Some r) \<longleftrightarrow> e \<noteq> -1"
    using delete_loop_not_greatest [of G "cmdName par" e ?b st 0] False
      delete_loop_range [OF refl, of e ?b G "cmdName par" st 0]
    by (auto simp: word_less_nat_alt)
  with False assms show ?thesis
    by (auto simp: processSegmentDeleteCommand_def Let_def)
qed

theorem segment_deletion_returns_witness:
  "(\<nexists>r. processSegmentDeleteCommand ref_old (ref_old_interest 5 (-1) 0) (ref_old_command 5 (-1) 0) [] = Inr (Some r))
   \<and> (\<exists>r. processSegmentDeleteCommand ref_old (ref_old_interest 5 9 0) (ref_old_command 5 9 0) [] = Inr (Some r))"
proof -
  have "cmdEnd (ref_old_command b e 0) = Some e" "cmdStart (ref_old_command b e 0) = Some b" for b e
    by (simp_all add: ref_old_command_def)
  then show ?thesis
    using segment_deletion_returns [of "ref_old_command 5 (-1) 0" "-1" ref_old _ "[]"]
      segment_deletion_returns [of "ref_old_command 5 9 0" 9 ref_old _ "[]"] by simp
qed

text \<open>
  C20: what a segment deletion does when it returns is what deleting the segments of the range
  one after the other does; the reply reports how many of the deletions returned a number that
  is not 0 (so failures, reported as -1, count as deletions), or it is a refusal, when the
  command has no process id, although the segments have been deleted.
\<close>

theorem segment_deletion_equiv:
  assumes par: "cmdStart par = Some b" "cmdEnd par = Some e" and "b \<le> e" and "e \<noteq> -1"
  shows "\<exists>st' m r. delete_names G (map (\<lambda>x. appendSegment G (cmdName par) (of_nat x)) [unat b ..< unat e + 1]) st
        = (st', m)
    \<and> processSegmentDeleteCommand G i par st = Inr (Some (st', [old_reply G i r]))
    \<and> (case cmdProcessId par of
         None \<Rightarrow> r = report_new\<lparr>repStatus := Some 403\<rparr>
       | Some pid \<Rightarrow> repStatus r = Some 200 \<and> repDeleteNum r = Some (of_nat m) \<and> repProcessId r = Some pid)"
proof -
  obtain st' m where names: "delete_names G (map (\<lambda>x. appendSegment G (cmdName par) (of_nat x))
      [unat b ..< unat e + 1]) st = (st', m)" by fastforce
  have "unat b \<le> unat e + 1" using assms(3) by (simp add: word_le_nat_alt)
  from delete_loop_range [OF refl assms(4) this, of G "cmdName par" st 0] names
  have "delete_loop G (cmdName par) e b st 0 = Some (st', of_nat m)" by simp
  with par leD [OF assms(3)] names show ?thesis
    by (auto simp: processSegmentDeleteCommand_def positiveReply_def report_new_def Let_def
        split: option.split)
qed

theorem segment_deletion_equiv_witness:
  "\<exists>r. processSegmentDeleteCommand ref_old (ref_old_interest 1 2 0) (ref_old_command 1 2 0)
      [[generic ''a'', segment_component 1], [generic ''a'', segment_component 2], [generic ''a'', segment_component 3]]
    = Inr (Some ([[generic ''a'', segment_component 3]], [old_reply ref_old (ref_old_interest 1 2 0) r]))
    \<and> repDeleteNum r = Some 2"
proof -
  let ?st = "[[generic ''a'', segment_component 1], [generic ''a'', segment_component 2],
    [generic ''a'', segment_component 3]]"
  have par: "cmdStart (ref_old_command 1 2 0) = Some 1" "cmdEnd (ref_old_command 1 2 0) = Some 2"
    "cmdProcessId (ref_old_command 1 2 0) = Some 7" "cmdName (ref_old_command 1 2 0) = [generic ''a'']"
    by (simp_all add: ref_old_command_def)
  have "segment_component k = segment_component l \<longleftrightarrow> k = l" for k l
    using field_word_roundtrip by (metis component.inject segment_component_def)
  then have "delete_names ref_old (map (\<lambda>x. appendSegment ref_old [generic ''a''] (of_nat x))
      [unat (1 :: 64 word) ..< unat (2 :: 64 word) + 1]) ?st = ([[generic ''a'', segment_component 3]], 2)"
    by (simp add: upt_rec)
  with segment_deletion_equiv [OF par(1,2), of ref_old ?st "ref_old_interest 1 2 0"] par show ?thesis
    by auto
qed

end
