(* ===== verification/Watch_Handle.thy ===== *)
theory Watch_Handle
  imports Reference_Old "HOL-Library.Multiset"
begin

text \<open>
  \<open>watch-handle.hpp\<close> and \<open>watch-handle.cpp\<close>, which are compiled out: a watch keeps one
  interest for a prefix pending and updates its selectors with each packet, until it is stopped
  by a command, by a time limit or by a limit on the number of interests. The limits and the
  counters are members of the handler, shared by all watches. Times are milliseconds.
\<close>

section \<open>Selectors\<close>

text \<open>
  Selectors and exclude filters belong to the library. \<open>'sel\<close> is all selectors of an interest,
  the child selector, the suffix bound and the exclude filter included.
\<close>

record ('sel, 'ex) selector_lib =
  noSelectors :: 'sel
  setChildSelector :: "int \<Rightarrow> 'sel \<Rightarrow> 'sel"
  setMinSuffixComponents :: "int \<Rightarrow> 'sel \<Rightarrow> 'sel"
  getExclude :: "'sel \<Rightarrow> 'ex"
  setExclude :: "'ex \<Rightarrow> 'sel \<Rightarrow> 'sel"
  noExclude :: 'ex
  excludeEmpty :: "'ex \<Rightarrow> bool"
  excludeBefore :: "component \<Rightarrow> 'ex \<Rightarrow> 'ex"

record 'sel watch_interest =
  wName :: name
  wSelectors :: 'sel
  wLifetime :: int

section \<open>State\<close>

text \<open>
  Each callback of a watch carries the name of the watch. The counters are 64-bit in the code;
  they grow by one with each interest or packet and are kept unbounded here.
\<close>

datatype 'sel watch_action =
    WatchReply data
  | WatchExpress "'sel watch_interest" name
  | WatchDeleteLater name                      \<comment> \<open>the scheduled \<open>deleteProcess\<close>\<close>

record watch_handle =
  watches :: "(name, report \<times> bool) omap"
  w_interestNum :: int
  w_maxInterestNum :: int
  w_interestLifetime :: int
  w_watchTimeout :: int
  w_startTime :: int
  w_size :: int

definition watch_new :: "int \<Rightarrow> watch_handle" where
  "watch_new now = \<lparr>watches = omap_empty, w_interestNum = 0, w_maxInterestNum = 0,
     w_interestLifetime = 4000, w_watchTimeout = 0, w_startTime = now, w_size = 0\<rparr>"

datatype watch_endpoint = WatchStart | WatchCheck | WatchStop

definition watch_listen :: "name \<Rightarrow> (name \<times> watch_endpoint) list" where
  "watch_listen p =
     [((p @ [generic ''watch'']) @ [generic ''start''], WatchStart),
      ((p @ [generic ''watch'']) @ [generic ''check''], WatchCheck),
      ((p @ [generic ''watch'']) @ [generic ''stop''], WatchStop)]"

definition watch_deleteProcess :: "name \<Rightarrow> watch_handle \<Rightarrow> watch_handle" where
  "watch_deleteProcess n s = s\<lparr>watches := omap_erase n (watches s)\<rparr>"

definition watch_deferredDeleteProcess :: "name \<Rightarrow> 'sel watch_action" where
  "watch_deferredDeleteProcess n = WatchDeleteLater n"

text \<open>\<open>m_processes[name]\<close> creates an entry that is not running when there is none.\<close>

definition watch_at :: "name \<Rightarrow> watch_handle \<Rightarrow> report \<times> bool" where
  "watch_at n s = (case omap_find (watches s) n of None \<Rightarrow> (report_new, False) | Some w \<Rightarrow> w)"

definition touch :: "name \<Rightarrow> watch_handle \<Rightarrow> watch_handle" where
  "touch n s = s\<lparr>watches := omap_store n (watch_at n s) (watches s)\<rparr>"

definition watchStop :: "int \<Rightarrow> name \<Rightarrow> watch_handle \<Rightarrow> watch_handle" where
  "watchStop now n s = s\<lparr>watches := omap_store n (fst (watch_at n s), False) (watches s),
     w_maxInterestNum := 0, w_interestNum := 0, w_startTime := now, w_watchTimeout := 0,
     w_interestLifetime := 4000, w_size := 0\<rparr>"

definition onRunning ::
  "int \<Rightarrow> name \<Rightarrow> watch_handle \<Rightarrow> bool \<times> watch_handle \<times> 'sel watch_action list" where
  "onRunning now n s =
     (let isTimeout = w_watchTimeout s \<noteq> 0 \<and> now - w_startTime s > w_watchTimeout s;
          isMaxInterest = w_interestNum s \<ge> w_maxInterestNum s \<and> w_maxInterestNum s \<noteq> 0
      in if isTimeout \<or> isMaxInterest
         then (False, watchStop now n s, [watch_deferredDeleteProcess n])
         else (True, s, []))"

section \<open>The next interest\<close>

definition next_interest ::
  "('sel, 'ex) selector_lib \<Rightarrow> watch_handle \<Rightarrow> 'sel watch_interest \<Rightarrow> 'sel watch_interest" where
  "next_interest W s i = \<lparr>wName = wName i, wSelectors = setChildSelector W 1 (wSelectors i),
     wLifetime = w_interestLifetime s\<rparr>"

text \<open>The name of a packet shorter than the interest's has no component at the index asked for.\<close>

definition update_selectors ::
  "('sel, 'ex) selector_lib \<Rightarrow> 'sel watch_interest \<Rightarrow> data \<Rightarrow> 'sel watch_interest
     \<Rightarrow> 'sel watch_interest result" where
  "update_selectors W i d f =
     (if length (dName d) = length (wName i)
      then Inr (f\<lparr>wSelectors := setMinSuffixComponents W 2 (wSelectors f)\<rparr>)
      else if length (wName i) < length (dName d)
      then let ex = (if excludeEmpty W (getExclude W (wSelectors i)) then noExclude W
                     else getExclude W (wSelectors i));
               ex' = excludeBefore W (dName d ! length (wName i)) ex
           in Inr (f\<lparr>wSelectors := setExclude W ex' (wSelectors f)\<rparr>)
      else Inl (UndefinedBehaviour ''component index''))"

definition express_next :: "name \<Rightarrow> 'sel watch_interest \<Rightarrow> watch_handle
     \<Rightarrow> watch_handle \<times> 'sel watch_action list" where
  "express_next n f s = (s\<lparr>w_interestNum := w_interestNum s + 1\<rparr>, [WatchExpress f n])"

section \<open>Callbacks\<close>

definition set_insertNum :: "name \<Rightarrow> watch_handle \<Rightarrow> watch_handle" where
  "set_insertNum n s = (let (r, b) = watch_at n s in
     s\<lparr>watches := omap_store n (r\<lparr>repInsertNum := Some (word_of_int (w_size s))\<rparr>, b) (watches s)\<rparr>)"

definition watch_onDataValidated ::
  "('sel, 'st) old_lib \<Rightarrow> ('sel, 'ex) selector_lib \<Rightarrow> int \<Rightarrow> 'sel watch_interest \<Rightarrow> data \<Rightarrow> name
     \<Rightarrow> watch_handle \<Rightarrow> 'st \<Rightarrow> (watch_handle \<times> 'st \<times> 'sel watch_action list) result" where
  "watch_onDataValidated G W now i d n s0 st =
     (let s = touch n s0 in
      if \<not> snd (watch_at n s) then Inr (s, st, [])
      else
        let (st', inserted) = insertData G st d in
        if \<not> inserted then Inl (RuntimeError ''Insert into Repo Failed'')
        else
          let (running, s1, as) = onRunning now n (s\<lparr>w_size := w_size s + 1\<rparr>) in
          if \<not> running then Inr (s1, st', as)
          else rbind (update_selectors W i d (next_interest W s1 i)) (\<lambda>f.
            let (s2, bs) = express_next n f s1 in Inr (set_insertNum n s2, st', as @ bs)))"

definition watch_onDataValidationFailed ::
  "('sel, 'ex) selector_lib \<Rightarrow> int \<Rightarrow> 'sel watch_interest \<Rightarrow> data \<Rightarrow> name \<Rightarrow> watch_handle
     \<Rightarrow> (watch_handle \<times> 'sel watch_action list) result" where
  "watch_onDataValidationFailed W now i d n s0 =
     (let s = touch n s0 in
      if \<not> snd (watch_at n s) then Inr (s, [])
      else
        let (running, s1, as) = onRunning now n s in
        if \<not> running then Inr (s1, as)
        else rbind (update_selectors W i d (next_interest W s1 i)) (\<lambda>f.
          let (s2, bs) = express_next n f s1 in Inr (s2, as @ bs)))"

definition watch_onTimeout ::
  "('sel, 'ex) selector_lib \<Rightarrow> int \<Rightarrow> 'sel watch_interest \<Rightarrow> name \<Rightarrow> watch_handle
     \<Rightarrow> watch_handle \<times> 'sel watch_action list" where
  "watch_onTimeout W now i n s0 =
     (let s = touch n s0 in
      if \<not> snd (watch_at n s) then (s, [])
      else
        let (running, s1, as) = onRunning now n s in
        if \<not> running then (s1, as)
        else let (s2, bs) = express_next n (next_interest W s1 i) s1 in (s2, as @ bs))"

section \<open>Commands\<close>

definition processWatchCommand ::
  "('sel, 'st) old_lib \<Rightarrow> ('sel, 'ex) selector_lib \<Rightarrow> int \<Rightarrow> interest \<Rightarrow> 'sel command \<Rightarrow> watch_handle
     \<Rightarrow> watch_handle \<times> 'sel watch_action list" where
  "processWatchCommand G W now i par s =
     (let timeout = (case cmdWatchTimeout par of Some t \<Rightarrow> t | None \<Rightarrow> 0);
          maxNum = (case cmdMaxInterestNum par of Some m \<Rightarrow> m | None \<Rightarrow> 0);
          lifetime = (case cmdLifetime par of Some t \<Rightarrow> t | None \<Rightarrow> w_interestLifetime s);
          s1 = s\<lparr>watches := omap_store (cmdName par) (report_new\<lparr>repStatus := Some 300\<rparr>, True) (watches s),
                 w_watchTimeout := timeout, w_maxInterestNum := maxNum, w_interestLifetime := lifetime,
                 w_startTime := now, w_interestNum := w_interestNum s + 1\<rparr>;
          sel = (case cmdSelectors par of Some x \<Rightarrow> x | None \<Rightarrow> noSelectors W);
          f = \<lparr>wName = cmdName par, wSelectors = setChildSelector W 1 sel, wLifetime = lifetime\<rparr>
      in (s1, [WatchReply (old_answer G i (report_new\<lparr>repStatus := Some 100\<rparr>)),
               WatchExpress f (cmdName par)]))"

definition watch_refuse :: "('sel, 'st) old_lib \<Rightarrow> interest \<Rightarrow> int \<Rightarrow> 'sel watch_action" where
  "watch_refuse G i code = WatchReply (old_answer G i (report_new\<lparr>repStatus := Some code\<rparr>))"

definition watch_onValidated ::
  "('sel, 'st) old_lib \<Rightarrow> ('sel, 'ex) selector_lib \<Rightarrow> int \<Rightarrow> name \<Rightarrow> interest \<Rightarrow> watch_handle
     \<Rightarrow> (watch_handle \<times> 'sel watch_action list) result" where
  "watch_onValidated G W now prefx i s =
     rbind (command_parameter G i prefx) (\<lambda>decoded. case decoded of
         None \<Rightarrow> Inr (s, [watch_refuse G i 403])
       | Some par \<Rightarrow> Inr (processWatchCommand G W now i par s))"

definition onStopValidated ::
  "('sel, 'st) old_lib \<Rightarrow> int \<Rightarrow> name \<Rightarrow> interest \<Rightarrow> watch_handle
     \<Rightarrow> (watch_handle \<times> 'sel watch_action list) result" where
  "onStopValidated G now prefx i s =
     rbind (command_parameter G i prefx) (\<lambda>decoded. case decoded of
         None \<Rightarrow> Inr (s, [watch_refuse G i 403])
       | Some par \<Rightarrow> Inr (watchStop now (cmdName par) s, [watch_refuse G i 101]))"

definition watch_onCheckValidated ::
  "('sel, 'st) old_lib \<Rightarrow> name \<Rightarrow> interest \<Rightarrow> watch_handle
     \<Rightarrow> (watch_handle \<times> 'sel watch_action list) result" where
  "watch_onCheckValidated G prefx i s =
     rbind (command_parameter G i prefx) (\<lambda>decoded. case decoded of
         None \<Rightarrow> Inr (s, [watch_refuse G i 403])
       | Some par \<Rightarrow>
           if \<not> cmdHasName par then Inr (s, [watch_refuse G i 403])
           else (case omap_find (watches s) (cmdName par) of
                   None \<Rightarrow> Inr (s, [watch_refuse G i 404])
                 | Some (r, running) \<Rightarrow>
                     let r' = (if running then r else r\<lparr>repStatus := Some 101\<rparr>)
                     in Inr (s\<lparr>watches := omap_store (cmdName par) (r', running) (watches s)\<rparr>,
                             [WatchReply (old_answer G i r')])))"

text \<open>
  The three endpoints validate the command first. The validator is part of the library: its
  verdict is an argument. A refused command is only answered.
\<close>

definition watch_onValidationFailed :: "('sel, 'st) old_lib \<Rightarrow> interest \<Rightarrow> 'sel watch_action list" where
  "watch_onValidationFailed G i = [watch_refuse G i 401]"

definition onStopValidationFailed :: "('sel, 'st) old_lib \<Rightarrow> interest \<Rightarrow> 'sel watch_action list" where
  "onStopValidationFailed G i = [watch_refuse G i 401]"

definition watch_onCheckValidationFailed :: "('sel, 'st) old_lib \<Rightarrow> interest \<Rightarrow> 'sel watch_action list" where
  "watch_onCheckValidationFailed G i = [watch_refuse G i 401]"

definition watch_onInterest ::
  "('sel, 'st) old_lib \<Rightarrow> ('sel, 'ex) selector_lib \<Rightarrow> bool \<Rightarrow> int \<Rightarrow> name \<Rightarrow> interest
     \<Rightarrow> watch_handle \<Rightarrow> (watch_handle \<times> 'sel watch_action list) result" where
  "watch_onInterest G W valid now prefx i s =
     (if valid then watch_onValidated G W now prefx i s else Inr (s, watch_onValidationFailed G i))"

definition onStopInterest ::
  "('sel, 'st) old_lib \<Rightarrow> bool \<Rightarrow> int \<Rightarrow> name \<Rightarrow> interest
     \<Rightarrow> watch_handle \<Rightarrow> (watch_handle \<times> 'sel watch_action list) result" where
  "onStopInterest G valid now prefx i s =
     (if valid then onStopValidated G now prefx i s else Inr (s, onStopValidationFailed G i))"

definition watch_onCheckInterest ::
  "('sel, 'st) old_lib \<Rightarrow> bool \<Rightarrow> name \<Rightarrow> interest
     \<Rightarrow> watch_handle \<Rightarrow> (watch_handle \<times> 'sel watch_action list) result" where
  "watch_onCheckInterest G valid prefx i s =
     (if valid then watch_onCheckValidated G prefx i s else Inr (s, watch_onCheckValidationFailed G i))"

lemmas [handler_simps] =
  watch_onDataValidated_def watch_onDataValidationFailed_def watch_onTimeout_def
  onRunning_def express_next_def set_insertNum_def watch_deferredDeleteProcess_def

section \<open>Sessions of one watch\<close>

text \<open>
  A running watch has one interest pending, so what happens to it is a sequence of events for
  that interest, each at a time. The session ends when no further interest is expressed. It
  returns how many interests were, and the one that is pending.
\<close>

datatype watch_event = WPacket data | WInvalid data | WTimeout

definition watch_event_step ::
  "('sel, 'st) old_lib \<Rightarrow> ('sel, 'ex) selector_lib \<Rightarrow> int \<Rightarrow> name \<Rightarrow> 'sel watch_interest \<Rightarrow> watch_event
     \<Rightarrow> watch_handle \<Rightarrow> 'st \<Rightarrow> (watch_handle \<times> 'st \<times> 'sel watch_action list) result" where
  "watch_event_step G W now n i ev s st =
     (case ev of
        WPacket d \<Rightarrow> watch_onDataValidated G W now i d n s st
      | WInvalid d \<Rightarrow> rbind (watch_onDataValidationFailed W now i d n s) (\<lambda>(s', as). Inr (s', st, as))
      | WTimeout \<Rightarrow> (let (s', as) = watch_onTimeout W now i n s in Inr (s', st, as)))"

fun watch_expressed :: "'sel watch_action list \<Rightarrow> 'sel watch_interest list" where
  "watch_expressed [] = []"
| "watch_expressed (WatchExpress f n # as) = f # watch_expressed as"
| "watch_expressed (_ # as) = watch_expressed as"

fun watch_session ::
  "('sel, 'st) old_lib \<Rightarrow> ('sel, 'ex) selector_lib \<Rightarrow> name \<Rightarrow> 'sel watch_interest \<Rightarrow> (int \<times> watch_event) list
     \<Rightarrow> watch_handle \<Rightarrow> 'st \<Rightarrow> (watch_handle \<times> 'st \<times> nat \<times> 'sel watch_interest option) result" where
  "watch_session G W n i [] s st = Inr (s, st, 0, Some i)"
| "watch_session G W n i ((now, ev) # evs) s st =
     rbind (watch_event_step G W now n i ev s st) (\<lambda>(s', st', as).
       case watch_expressed as of
         [] \<Rightarrow> Inr (s', st', 0, None)
       | f # _ \<Rightarrow> rbind (watch_session G W n f evs s' st')
           (\<lambda>(s'', st'', k, j). Inr (s'', st'', Suc k, j)))"

text \<open>
  A running watch with a time limit, its start, the limit on interests and their number; and
  when the limits (0 for none) let it go on.
\<close>

definition watching :: "name \<Rightarrow> int \<Rightarrow> int \<Rightarrow> int \<Rightarrow> int \<Rightarrow> watch_handle \<Rightarrow> bool" where
  "watching n T t m c s \<longleftrightarrow> snd (watch_at n s) \<and> w_watchTimeout s = T \<and> w_startTime s = t
     \<and> w_maxInterestNum s = m \<and> w_interestNum s = c"

definition in_time :: "int \<Rightarrow> int \<Rightarrow> int \<Rightarrow> bool" where
  "in_time T t now \<longleftrightarrow> T = 0 \<or> now - t \<le> T"

lemma touch_sel [simp]:
  "watch_at n (touch n s) = watch_at n s"
  "w_interestNum (touch n s) = w_interestNum s" "w_maxInterestNum (touch n s) = w_maxInterestNum s"
  "w_watchTimeout (touch n s) = w_watchTimeout s" "w_startTime (touch n s) = w_startTime s" "w_size (touch n s) = w_size s"
  by (simp_all add: touch_def watch_at_def)

lemma watching_touch: "watching n T t m c (touch n s) = watching n T t m c s"
  by (simp add: watching_def)

lemma watching_size: "watching n T t m c (s\<lparr>w_size := x\<rparr>) = watching n T t m c s"
  by (simp add: watching_def watch_at_def)

lemma watching_next:
  "watching n T t m c s \<Longrightarrow> watching n T t m (c + 1) (s\<lparr>w_interestNum := w_interestNum s + 1\<rparr>)"
  by (simp add: watching_def watch_at_def)

lemma watching_insertNum: "watching n T t m c (set_insertNum n s) = watching n T t m c s"
  by (auto simp: watching_def watch_at_def set_insertNum_def split: prod.splits option.splits)

lemma onRunning_limit:
  assumes "watching n T t m c s"
  shows "onRunning now n s =
    (if in_time T t now \<and> (m = 0 \<or> c < m) then (True, s, [])
     else (False, watchStop now n s, [watch_deferredDeleteProcess n]))"
  using assms by (auto simp: watching_def onRunning_def in_time_def Let_def)

lemma event_effect:
  assumes run: "watch_event_step G W now n i ev s st = Inr (s', st', as)" and w: "watching n T t m c s"
  shows "if in_time T t now \<and> (m = 0 \<or> c < m)
    then \<exists>f. watch_expressed as = [f] \<and> watching n T t m (c + 1) s' else watch_expressed as = []"
proof -
  have w': "watching n T t m c (touch n s)" "watching n T t m c ((touch n s)\<lparr>w_size := w_size s + 1\<rparr>)"
    using w by (simp_all add: watching_touch watching_size)
  have running: "snd (watch_at n s)" using w by (simp add: watching_def)
  note defs = watch_event_step_def watch_onDataValidated_def watch_onDataValidationFailed_def
    watch_onTimeout_def express_next_def watch_deferredDeleteProcess_def Let_def rbind_Inr
  show ?thesis
  proof (cases "in_time T t now \<and> (m = 0 \<or> c < m)")
    case False
    with run running show ?thesis
      by (cases ev) (auto simp: defs onRunning_limit [OF w'(1)] onRunning_limit [OF w'(2)]
          split: prod.splits if_splits)
  next
    case True
    with run running show ?thesis
      using watching_next [OF w'(1)] watching_next [OF w'(2)]
      by (cases ev) (auto simp: defs onRunning_limit [OF w'(1)] onRunning_limit [OF w'(2)]
          watching_insertNum split: prod.splits if_splits)
  qed
qed

lemma session_length:
  assumes "watch_session G W n i evs s st = Inr (s', st', k, j)" and "watching n T t m c s"
    and "m = 0 \<or> c \<le> m" and L: "L = length (takeWhile (\<lambda>(now, ev). in_time T t now) evs)"
  shows "int k = (if m = 0 then int L else min (m - c) (int L))
    \<and> (j = None \<longleftrightarrow> k < length evs)"
  using assms(1-3) unfolding L
proof (induction evs arbitrary: i s st c k)
  case Nil
  then show ?case by auto
next
  case (Cons e evs)
  obtain now ev where e: "e = (now, ev)" by (cases e)
  with Cons.prems(1) obtain s1 st1 as where
    step: "watch_event_step G W now n i ev s st = Inr (s1, st1, as)"
    and rest: "(case watch_expressed as of
         [] \<Rightarrow> Inr (s1, st1, 0, None)
       | f # _ \<Rightarrow> rbind (watch_session G W n f evs s1 st1)
           (\<lambda>(s'', st'', k, j). Inr (s'', st'', Suc k, j))) = Inr (s', st', k, j)"
    by (auto simp: rbind_Inr)
  note effect = event_effect [OF step Cons.prems(2)]
  show ?case
  proof (cases "in_time T t now \<and> (m = 0 \<or> c < m)")
    case False
    with effect rest Cons.prems(3) e show ?thesis by (auto simp: min_def)
  next
    case True
    with effect obtain f where f: "watch_expressed as = [f]" "watching n T t m (c + 1) s1" by auto
    with rest obtain k1 where "watch_session G W n f evs s1 st1 = Inr (s', st', k1, j)" "k = Suc k1"
      by (auto simp: rbind_Inr)
    with Cons.IH [OF this(1) f(2)] True e show ?thesis by (auto simp: min_def)
  qed
qed

lemma in_time_always: "takeWhile (\<lambda>(now, ev). in_time 0 t now) evs = evs"
  by (induction evs) (auto simp: in_time_def)

section \<open>Properties\<close>

text \<open>
  C28: the two limits of a watch, the only one of its handler. Of the events for its interests
  (packets that are stored, packets that fail validation, timeouts) let `L` be the number of
  those before the first that is later than the time limit. The watch sends one interest for
  the command and one for each of these `L` events, but no more than the limit on interests; a
  limit of 0, or none, is no limit. At the first event after that it stops, and with no such
  event it has one interest pending.
\<close>

theorem watch_limits:
  assumes "m = (case cmdMaxInterestNum par of None \<Rightarrow> 0 | Some x \<Rightarrow> x)" and "0 \<le> m"
    and "T = (case cmdWatchTimeout par of None \<Rightarrow> 0 | Some x \<Rightarrow> x)"
    and "processWatchCommand G W now i par (watch_new t) = (s, as)"
    and "watch_expressed as = [f]"
    and "watch_session G W (cmdName par) f evs s st = Inr (s', st', k, j)"
  shows "(let L = length (takeWhile (\<lambda>(now', ev). T = 0 \<or> now' - now \<le> T) evs) in
    1 + int k = (if m = 0 then 1 + int L else min m (1 + int L))) \<and> (j = None \<longleftrightarrow> k < length evs)"
proof -
  have "watching (cmdName par) T now m 1 s"
    using assms(1,3,4) by (auto simp: processWatchCommand_def watching_def watch_new_def watch_at_def Let_def)
  from session_length [OF assms(6) this _ refl] assms(2) show ?thesis
    by (auto simp: min_def in_time_def Let_def)
qed

text \<open>
  With a limit of `m` interests and no time limit, exactly `m` of them are sent when at least
  `m` events happen to them, the first with the command; then the watch stops. With fewer
  events it sends one for the command and one for every event, and has one pending.
\<close>

theorem watch_sends_limit:
  assumes "cmdMaxInterestNum par = Some m" and "1 \<le> m" and "cmdWatchTimeout par = None"
    and "processWatchCommand G W now i par (watch_new t) = (s, as)"
    and "watch_expressed as = [f]"
    and "watch_session G W (cmdName par) f evs s st = Inr (s', st', k, j)"
  shows "1 + int k = min m (1 + int (length evs)) \<and> (j = None \<longleftrightarrow> m \<le> int (length evs))"
proof -
  have "watching (cmdName par) 0 now m 1 s"
    using assms(1,3,4) by (auto simp: processWatchCommand_def watching_def watch_new_def watch_at_def Let_def)
  from session_length [OF assms(6) this _ refl] assms(2) show ?thesis
    unfolding in_time_always by (auto simp: min_def split: if_splits)
qed

text \<open>
  C29: stopping one watch lifts the limits of all the others. The limits belong to the handler
  and are reset, so after a stop command for `b` another watch `a` that is running sends an
  interest for every event, whatever its limits were.
\<close>

theorem watch_stop_lifts_limits:
  assumes "a \<noteq> b" and "snd (watch_at a s)"
    and "watch_session G W a f evs (watchStop now b s) st = Inr (s', st', k, j)"
  shows "k = length evs \<and> j \<noteq> None"
proof -
  have "watching a 0 now 0 0 (watchStop now b s)"
    using assms(1,2) by (simp add: watching_def watchStop_def watch_at_def)
  from session_length [OF assms(3) this _ refl] show ?thesis unfolding in_time_always by simp
qed

section \<open>Witnesses\<close>

text \<open>Selectors without content are enough to run a watch.\<close>

definition ref_selectors :: "(unit, unit) selector_lib" where
  "ref_selectors = \<lparr>noSelectors = (), setChildSelector = (\<lambda>_ _. ()), setMinSuffixComponents = (\<lambda>_ _. ()),
     getExclude = (\<lambda>_. ()), setExclude = (\<lambda>_ _. ()), noExclude = (), excludeEmpty = (\<lambda>_. True),
     excludeBefore = (\<lambda>_ _. ())\<rparr>"

definition ref_watched :: "name \<Rightarrow> unit watch_interest" where
  "ref_watched n = \<lparr>wName = n, wSelectors = (), wLifetime = 4000\<rparr>"

lemma timeouts_session:
  assumes "watching n T t m c s" and "m = 0 \<or> c \<le> m"
  shows "\<exists>s' k j. watch_session ref_old ref_selectors n f (map (\<lambda>x. (x, WTimeout)) xs) s []
    = Inr (s', [], k, j)"
  using assms
proof (induction xs arbitrary: f s c)
  case Nil
  then show ?case by simp
next
  case (Cons x xs)
  obtain s1 as where step: "watch_event_step ref_old ref_selectors x n f WTimeout s [] = Inr (s1, [], as)"
    by (cases "watch_onTimeout ref_selectors x f n s") (simp add: watch_event_step_def)
  show ?case
  proof (cases "in_time T t x \<and> (m = 0 \<or> c < m)")
    case False
    with event_effect [OF step Cons.prems(1)] step show ?thesis by simp
  next
    case True
    with event_effect [OF step Cons.prems(1)] obtain g where
      g: "watch_expressed as = [g]" "watching n T t m (c + 1) s1" by auto
    from Cons.IH [OF g(2), of g] True Cons.prems(2) g step show ?thesis by auto
  qed
qed

theorem watch_limits_witness:
  "\<exists>s as s' k. processWatchCommand ref_old ref_selectors 0 (ref_old_interest 0 0 5)
       ((ref_old_command 0 0 5)\<lparr>cmdWatchTimeout := Some 10\<rparr>) (watch_new 0) = (s, as)
   \<and> watch_session ref_old ref_selectors [generic ''a''] (ref_watched [generic ''a''])
       (map (\<lambda>x. (x, WTimeout)) [4, 10, 11, 12]) s [] = Inr (s', [], k, None) \<and> k = 2"
proof -
  let ?par = "(ref_old_command 0 0 5)\<lparr>cmdWatchTimeout := Some 10\<rparr>" and ?n = "[generic ''a'']"
  have par: "5 = (case cmdMaxInterestNum ?par of None \<Rightarrow> 0 | Some x \<Rightarrow> x)"
    "10 = (case cmdWatchTimeout ?par of None \<Rightarrow> 0 | Some x \<Rightarrow> x)" "cmdName ?par = ?n"
    "cmdSelectors ?par = None" "cmdLifetime ?par = None"
    by (simp_all add: ref_old_command_def)
  obtain s as where s: "processWatchCommand ref_old ref_selectors 0 (ref_old_interest 0 0 5) ?par (watch_new 0)
      = (s, as)" by fastforce
  then have f: "watch_expressed as = [ref_watched ?n]" and w: "watching ?n 10 0 5 1 s"
    using par by (auto simp: processWatchCommand_def watch_new_def ref_watched_def watching_def
        watch_at_def Let_def)
  obtain s' k j where run: "watch_session ref_old ref_selectors ?n (ref_watched ?n)
      (map (\<lambda>x. (x, WTimeout)) [4, 10, 11, 12]) s [] = Inr (s', [], k, j)"
    using timeouts_session [OF w, of "ref_watched ?n" "[4, 10, 11, 12]"] by auto
  from watch_limits [OF par(1) _ par(2) s f, of "map (\<lambda>x. (x, WTimeout)) [4, 10, 11, 12]" "[]" s' "[]" k j]
    run par(3)
  have "k = 2 \<and> j = None" by simp
  with s run show ?thesis by blast
qed

theorem watch_sends_limit_witness:
  "\<exists>s as s' k. processWatchCommand ref_old ref_selectors 0 (ref_old_interest 0 0 2) (ref_old_command 0 0 2)
       (watch_new 0) = (s, as)
   \<and> watch_session ref_old ref_selectors [generic ''a''] (ref_watched [generic ''a''])
       (replicate 5 (0, WTimeout)) s [] = Inr (s', [], k, None) \<and> k = 1"
proof -
  let ?par = "ref_old_command 0 0 2" and ?n = "[generic ''a'']"
  have par: "cmdMaxInterestNum ?par = Some 2" "cmdWatchTimeout ?par = None" "cmdName ?par = ?n"
    "cmdSelectors ?par = None" "cmdLifetime ?par = None"
    by (simp_all add: ref_old_command_def)
  obtain s as where s: "processWatchCommand ref_old ref_selectors 0 (ref_old_interest 0 0 2) ?par (watch_new 0)
      = (s, as)" by fastforce
  then have f: "watch_expressed as = [ref_watched ?n]" and w: "watching ?n 0 0 2 1 s"
    using par by (auto simp: processWatchCommand_def watch_new_def ref_watched_def watching_def
        watch_at_def Let_def)
  obtain s' k j where run: "watch_session ref_old ref_selectors ?n (ref_watched ?n)
      (replicate 5 (0, WTimeout)) s [] = Inr (s', [], k, j)"
    using timeouts_session [OF w, of "ref_watched ?n" "replicate 5 0"] unfolding map_replicate by auto
  from watch_sends_limit [OF par(1) _ par(2) s f, of "replicate 5 (0, WTimeout)" "[]" s' "[]" k j] run par(3)
  have "k = 1 \<and> j = None" by simp
  with s run show ?thesis by blast
qed

theorem watch_stop_lifts_limits_witness:
  "\<exists>s s' k j. watch_session ref_old ref_selectors [generic ''a''] (ref_watched [generic ''a''])
     (replicate 9 (0, WTimeout)) (watchStop 0 [generic ''b''] s) [] = Inr (s', [], k, j)
   \<and> w_maxInterestNum s = 2 \<and> k = 9 \<and> j \<noteq> None"
proof -
  let ?n = "[generic ''a'']"
  let ?s = "(watch_new 0)\<lparr>watches := omap_store ?n (report_new, True) omap_empty, w_maxInterestNum := 2\<rparr>"
  have a: "snd (watch_at ?n ?s)" by (simp add: watch_at_def)
  have ab: "?n \<noteq> [generic ''b'']" by simp
  have "watching ?n 0 0 0 0 (watchStop 0 [generic ''b''] ?s)"
    by (simp add: watching_def watchStop_def watch_at_def)
  from timeouts_session [OF this, of "ref_watched ?n" "replicate 9 0"] obtain s' k j where
    run: "watch_session ref_old ref_selectors ?n (ref_watched ?n) (replicate 9 (0, WTimeout))
       (watchStop 0 [generic ''b''] ?s) [] = Inr (s', [], k, j)"
    unfolding map_replicate by blast
  from watch_stop_lifts_limits [OF ab a run] have "k = 9 \<and> j \<noteq> None" by simp
  moreover have "w_maxInterestNum ?s = 2" by simp
  ultimately show ?thesis using run by blast
qed

end
