(* ===== verification/Segment_Complete.thy ===== *)
theory Segment_Complete
  imports Segment_Properties
begin

text \<open>
  What status 200 of a segmented insert means: every segment of the range has been stored.
  The runs are those of \<open>Segment_Invariant\<close> with losses allowed, in which the names of the
  fetches are known and packets come from publishers that are consistent about the last segment
  of their content.
\<close>

section \<open>The storage\<close>

text \<open>
  What the handler relies on: an insertion that reports success has stored the packet's name,
  and no insertion removes one. \<open>ok\<close> is the invariant of the storage object. A name is held
  when a packet is stored under it or under an extension of it.
\<close>

definition held :: "('st \<Rightarrow> name \<Rightarrow> bool) \<Rightarrow> name \<Rightarrow> 'st \<Rightarrow> bool" where
  "held has n st \<longleftrightarrow> (\<exists>m. prefix n m \<and> has st m)"

locale segment_store =
  fixes insert_packet :: "'st \<Rightarrow> data \<Rightarrow> 'st \<times> bool"
    and ok :: "'st \<Rightarrow> bool"
    and has :: "'st \<Rightarrow> name \<Rightarrow> bool"
  assumes insert_ok: "ok st \<Longrightarrow> insert_packet st d = (st', b) \<Longrightarrow> ok st'"
    and insert_has: "ok st \<Longrightarrow> insert_packet st d = (st', True) \<Longrightarrow> has st' (dName d)"
    and insert_keeps: "ok st \<Longrightarrow> insert_packet st d = (st', b) \<Longrightarrow> has st n \<Longrightarrow> has st' n"
begin

lemma held_insert:
  assumes "ok st" and "insert_packet st d = (st', b)"
  shows "held has n st \<Longrightarrow> held has n st'" and "b \<Longrightarrow> prefix n (dName d) \<Longrightarrow> held has n st'"
proof -
  show "held has n st \<Longrightarrow> held has n st'"
    using insert_keeps [OF assms] unfolding held_def by blast
  show "b \<Longrightarrow> prefix n (dName d) \<Longrightarrow> held has n st'"
    using insert_has assms unfolding held_def by auto
qed

end

text \<open>The packet store of the repository is such a storage, with \<open>put\<close> for the insertion.\<close>

definition engine_insert :: "'db env \<Rightarrow> 'db engine \<Rightarrow> data \<Rightarrow> 'db engine \<times> bool" where
  "engine_insert E e d = (case se_put E e d of Inl ex \<Rightarrow> (e, False) | Inr (e', n, g) \<Rightarrow> (e', n \<noteq> []))"

definition engine_has :: "'db env \<Rightarrow> 'db engine \<Rightarrow> name \<Rightarrow> bool" where
  "engine_has E e n \<longleftrightarrow> (\<exists>d. dName d = n \<and> stored E e (dName (as_stored E e d)) \<noteq> None)"

interpretation engine_segments: segment_store "engine_insert E" "engine_ok E" "engine_has E"
  for E :: "'db env"
proof unfold_locales
  fix e e' :: "'db engine" and d :: data and b and n :: name
  assume ok: "engine_ok E e" and ins: "engine_insert E e d = (e', b)"
  obtain n' where put: "se_put E e d = Inr (e', n', dName d)" and b: "b \<longleftrightarrow> n' \<noteq> []"
    using se.put_returns [OF ok, of d] ins by (auto simp: engine_insert_def)
  show "engine_ok E e'" using ok put by (rule se.put_inv)
  have same: "as_stored E e' = as_stored E e" using ok put by (rule se.put_packet)
  show "engine_has E e n \<Longrightarrow> engine_has E e' n"
    using se.put_keeps [OF ok put] unfolding engine_has_def same by blast
next
  fix e e' :: "'db engine" and d :: data
  assume ok: "engine_ok E e" and ins: "engine_insert E e d = (e', True)"
  obtain n' where put: "se_put E e d = Inr (e', n', dName d)" and b: "n' \<noteq> []"
    using se.put_returns [OF ok, of d] ins by (auto simp: engine_insert_def)
  have "as_stored E e' = as_stored E e" using ok put by (rule se.put_packet)
  moreover have "stored E e' (dName (as_stored E e d)) \<noteq> None"
    using se.put_holds [OF ok put] b by auto
  ultimately show "engine_has E e' (dName d)" unfolding engine_has_def by metis
qed

section \<open>Runs with known contents\<close>

text \<open>
  The content each process fetches is \<open>names pid\<close>; \<open>last n\<close> is the number of the last segment
  of the content \<open>n\<close>, if it has one. A publisher is consistent: it has no segment after the last
  one, and where it names a final block it is the last one.
\<close>

definition consistent ::
  "('sel, 'st) old_lib \<Rightarrow> (64 word \<Rightarrow> name) \<Rightarrow> (name \<Rightarrow> 64 word option) \<Rightarrow> interest \<Rightarrow> seg_callback \<Rightarrow> data \<Rightarrow> bool" where
  "consistent G names final i c d \<longleftrightarrow> prefix (iName i) (dName d) \<and>
     (case c of
        SegmentData pid \<Rightarrow>
          (case final (names pid) of None \<Rightarrow> True | Some l \<Rightarrow> seg_no G i \<le> l)
        \<and> (case final_segment G d of Some (Some x) \<Rightarrow> final (names pid) = Some x \<and> x < -1 | _ \<Rightarrow> True)
      | _ \<Rightarrow> True)"

inductive fetch_run ::
  "('sel, 'st) old_lib \<Rightarrow> (64 word \<Rightarrow> name) \<Rightarrow> (name \<Rightarrow> 64 word option) \<Rightarrow> 'st
    \<Rightarrow> seg_handle \<Rightarrow> 'st \<Rightarrow> seg_pending \<Rightarrow> 64 word set \<Rightarrow> nat \<Rightarrow> bool"
  for G :: "('sel, 'st) old_lib" and names :: "64 word \<Rightarrow> name" and final :: "name \<Rightarrow> 64 word option"
    and st0 :: 'st where
  start: "fetch_run G names final st0 seg_new st0 {#} {} 0"
| command: "fetch_run G names final st0 s st P U k \<Longrightarrow> pid \<notin> U \<Longrightarrow>
    clean_command (command_parameter G i prefx) \<Longrightarrow>
    (\<And>par. command_parameter G i prefx = Inr (Some par) \<Longrightarrow> cmdName par = names pid) \<Longrightarrow>
    seg_onInterest G valid now pid prefx i s = Inr (s', as) \<Longrightarrow>
    fetch_run G names final st0 s' st (P + requests as) (insert pid U) (Suc k)"
| data: "fetch_run G names final st0 s st P U k \<Longrightarrow> (i, c) \<in># P \<Longrightarrow> consistent G names final i c d \<Longrightarrow>
    seg_data G now i c d s st = Inr (s', st', as) \<Longrightarrow>
    fetch_run G names final st0 s' st' (P - {#(i, c)#} + requests as) U (Suc k)"
| rejected: "fetch_run G names final st0 s st P U k \<Longrightarrow> (i, c) \<in># P \<Longrightarrow>
    fetch_run G names final st0 s st (P - {#(i, c)#}) U (Suc k)"
| timeout: "fetch_run G names final st0 s st P U k \<Longrightarrow> (i, c) \<in># P \<Longrightarrow>
    seg_timeout G i c s = Inr (s', as) \<Longrightarrow>
    fetch_run G names final st0 s' st (P - {#(i, c)#} + requests as) U (Suc k)"
| deletion: "fetch_run G names final st0 s st P U k \<Longrightarrow>
    fetch_run G names final st0 (deleteProcess pid s) st P U (Suc k)"
| check: "fetch_run G names final st0 s st P U k \<Longrightarrow>
    onCheckInterest G valid now prefx i s = Inr (s', as) \<Longrightarrow>
    fetch_run G names final st0 s' st P U (Suc k)"

lemma fetch_run_seg: "fetch_run G names final st0 s st P U k \<Longrightarrow> seg_run G False st0 s st P U k"
  by (induction rule: fetch_run.induct) (blast intro: seg_run.intros)+

section \<open>What a fetch has stored\<close>

text \<open>
  Of a fetch with outstanding segments \<open>S\<close>: the segments \<open>D\<close> have been stored and counted; none
  of them is outstanding; the queue holds a segment after all of them; none is beyond the end of
  the content or, unless the range was cut to that, beyond the end of the range.
\<close>

definition fetched ::
  "('sel, 'st) old_lib \<Rightarrow> ('st \<Rightarrow> name \<Rightarrow> bool) \<Rightarrow> name \<Rightarrow> 64 word option \<Rightarrow> 'st \<Rightarrow> nat
     \<Rightarrow> 64 word \<Rightarrow> seg_process \<Rightarrow> 64 word multiset \<Rightarrow> 64 word set \<Rightarrow> bool" where
  "fetched G has n l st k b p S D \<longleftrightarrow> unat b < 2 ^ 63
   \<and> repInsertNum (segResponse p) = Some (of_nat (card D)) \<and> D \<inter> set_mset S = {}
   \<and> (\<forall>x \<in> D \<union> set_mset S. b \<le> x)
   \<and> (\<forall>q \<in> set (nextSegmentQueue p). b \<le> q \<and> unat q \<le> unat b + 12 + k \<and> (\<forall>x \<in> D \<union> set_mset S. x < q))
   \<and> (\<forall>x \<in> D. held has (appendSegment G n x) st) \<and> (\<forall>m. l = Some m \<longrightarrow> D \<subseteq> {..m})
   \<and> (\<forall>e. repEnd (segResponse p) = Some e \<longrightarrow> e < -1 \<and> (l = Some e \<or> D \<union> set_mset S \<subseteq> {..e}))
   \<and> (repStatus (segResponse p) = Some 200 \<longrightarrow> (\<exists>e. repEnd (segResponse p) = Some e \<and> {b..e} \<subseteq> D))"

lemma fetchedI:
  assumes "unat b < 2 ^ 63" and "repInsertNum (segResponse p) = Some (of_nat (card D))"
    and "D \<inter> set_mset S = {}" and "\<And>x. x \<in> D \<union> set_mset S \<Longrightarrow> b \<le> x"
    and "\<And>q. q \<in> set (nextSegmentQueue p) \<Longrightarrow> b \<le> q \<and> unat q \<le> unat b + 12 + k"
    and "\<And>q x. q \<in> set (nextSegmentQueue p) \<Longrightarrow> x \<in> D \<union> set_mset S \<Longrightarrow> x < q"
    and "\<And>x. x \<in> D \<Longrightarrow> held has (appendSegment G n x) st" and "\<And>m. l = Some m \<Longrightarrow> D \<subseteq> {..m}"
    and "\<And>e. repEnd (segResponse p) = Some e \<Longrightarrow> e < -1 \<and> (l = Some e \<or> D \<union> set_mset S \<subseteq> {..e})"
    and "repStatus (segResponse p) = Some 200 \<Longrightarrow> \<exists>e. repEnd (segResponse p) = Some e \<and> {b..e} \<subseteq> D"
  shows "fetched G has n l st k b p S D"
  unfolding fetched_def using assms by (intro conjI ballI allI impI) simp_all

lemma fetchedD:
  assumes "fetched G has n l st k b p S D"
  shows "unat b < 2 ^ 63" and "repInsertNum (segResponse p) = Some (of_nat (card D))"
    and "D \<inter> set_mset S = {}" and "x \<in> D \<union> set_mset S \<Longrightarrow> b \<le> x"
    and "q \<in> set (nextSegmentQueue p) \<Longrightarrow> b \<le> q \<and> unat q \<le> unat b + 12 + k"
    and "q \<in> set (nextSegmentQueue p) \<Longrightarrow> x \<in> D \<union> set_mset S \<Longrightarrow> x < q"
    and "x \<in> D \<Longrightarrow> held has (appendSegment G n x) st" and "l = Some m \<Longrightarrow> D \<subseteq> {..m}"
    and "repEnd (segResponse p) = Some e \<Longrightarrow> e < -1 \<and> (l = Some e \<or> D \<union> set_mset S \<subseteq> {..e})"
    and "repStatus (segResponse p) = Some 200 \<Longrightarrow> \<exists>e. repEnd (segResponse p) = Some e \<and> {b..e} \<subseteq> D"
  using assms unfolding fetched_def by simp_all

definition fetches_ok ::
  "('sel, 'st) old_lib \<Rightarrow> ('st \<Rightarrow> name \<Rightarrow> bool) \<Rightarrow> (64 word \<Rightarrow> name) \<Rightarrow> (name \<Rightarrow> 64 word option)
     \<Rightarrow> nat \<Rightarrow> seg_handle \<Rightarrow> 'st \<Rightarrow> seg_pending \<Rightarrow> bool" where
  "fetches_ok G has names final k s st P \<longleftrightarrow>
     (\<forall>i pid. (i, SegmentData pid) \<in># P \<longrightarrow> iName i = appendSegment G (names pid) (seg_no G i))
   \<and> (\<forall>pid p b. omap_find (segProcesses s) pid = Some p \<and> repStart (segResponse p) = Some b \<longrightarrow>
        (\<exists>D. fetched G has (names pid) (final (names pid)) st k b p (outstanding G pid P) D))"

lemma range_card: "card {b..e :: 64 word} = Suc (unat e) - unat b"
proof -
  have "unat ` {b..e} = {unat b..unat e}"
  proof
    show "unat ` {b..e} \<subseteq> {unat b..unat e}" by (auto simp: word_le_nat_alt)
    show "{unat b..unat e} \<subseteq> unat ` {b..e}"
    proof
      fix x assume x: "x \<in> {unat b..unat e}"
      then have "x < 2 ^ 64" using unat_small [of e] by simp
      then have "unat (of_nat x :: 64 word) = x" by (simp add: unat_of_nat)
      with x show "x \<in> unat ` {b..e}"
        by (intro image_eqI [of _ _ "of_nat x"]) (simp_all add: word_le_nat_alt)
    qed
  qed
  moreover have "inj_on unat {b..e}" by (rule inj_onI) (simp add: word_unat_eq_iff)
  ultimately show ?thesis by (metis card_atLeastAtMost card_image)
qed

lemma fetched_complete:
  assumes "fetched G has n l st k b p S D" and "repStart (segResponse p) = Some b"
    and "range_complete (segResponse p) = Inr True"
  shows "\<exists>e. repEnd (segResponse p) = Some e \<and> {b..e} \<subseteq> D"
proof -
  obtain e where e: "repEnd (segResponse p) = Some e" "e - b + 1 \<le> of_nat (card D)"
    using assms by (auto simp: range_complete_def fetched_def split: option.splits)
  have D: "e < -1" "D \<subseteq> {b..e}"
    using assms(1) e(1) unfolding fetched_def by force+
  have "{b..e} \<subseteq> D"
  proof (cases "b \<le> e")
    case True
    have "card {b..e} = unat (e - b + 1)"
      using range_card [of b e] range_size [OF True D(1)] True by (simp add: word_le_nat_alt)
    also have "\<dots> \<le> unat (of_nat (card D) :: 64 word)"
      using e(2) by (simp add: word_le_nat_alt)
    also have "\<dots> \<le> card D" by (simp add: unat_of_nat)
    finally have "D = {b..e}"
      using D(2) by (intro card_seteq) simp_all
    then show ?thesis by simp
  qed simp
  with e show ?thesis by blast
qed

section \<open>The control\<close>

text \<open>
  What the control does to the process whose segment has arrived: it ends the process, leaves it
  waiting, or asks for the segment at the head of the queue.
\<close>

datatype control_effect = Ended int | Waits | Sends "64 word"

definition control_to ::
  "('sel, 'st) old_lib \<Rightarrow> interest \<Rightarrow> seg_process \<Rightarrow> control_effect \<Rightarrow> seg_process
     \<Rightarrow> seg_pending \<Rightarrow> 64 word \<Rightarrow> bool" where
  "control_to G i p eff p' R pid \<longleftrightarrow>
     (case eff of
        Ended code \<Rightarrow> R = {#} \<and> segResponse p' = (segResponse p)\<lparr>repStatus := Some code\<rparr>
          \<and> nextSegmentQueue p' = nextSegmentQueue p
          \<and> (code = 405 \<and> repEnd (segResponse p) = None \<or> code = 200 \<and> range_complete (segResponse p) = Inr True)
      | Waits \<Rightarrow> R = {#} \<and> segResponse p' = segResponse p
          \<and> set (nextSegmentQueue p') \<subseteq> set (nextSegmentQueue p)
      | Sends q \<Rightarrow> (\<exists>t. R = {#(segment_interest G t (butlast (iName i)) q, SegmentData pid)#})
          \<and> segResponse p' = segResponse p \<and> q \<in> set (nextSegmentQueue p)
          \<and> (case repEnd (segResponse p) of None \<Rightarrow> True | Some e \<Rightarrow> q \<le> e)
          \<and> set (nextSegmentQueue p') \<subseteq> set (tl (nextSegmentQueue p)) \<union> {nextSegment p + 1})"

lemma control_cases:
  assumes "omap_find (segProcesses s) pid = Some p"
    and "onSegmentDataControl G now pid i s = Inr (s', as)"
  obtains p' eff where "s' = set_process pid p' s" "control_to G i p eff p' (requests as) pid"
proof -
  let ?p = "p\<lparr>credit := credit p + 1\<rparr>"
  have send: "\<exists>p' eff. s' = set_process pid p' s \<and> control_to G i p eff p' (requests as) pid"
    if "send_next G pid i q (?p\<lparr>nextSegmentQueue := qs\<rparr>) s = Inr (s', as)"
      "nextSegmentQueue p = q # qs" "\<And>e. repEnd (segResponse p) = Some e \<Longrightarrow> q \<le> e" for q qs
  proof -
    from that(1) obtain f where f: "segment_of G i = Inr f"
      by (auto simp: send_next_def rbind_Inr)
    let ?p' = "the (omap_find (segProcesses s') pid)"
    have "s' = set_process pid ?p' s \<and> control_to G i p (Sends q) ?p' (requests as) pid"
      using that f
      by (auto simp: send_next_def control_to_def set_process_def Let_def split: if_splits option.splits)
    then show ?thesis by blast
  qed
  have "\<exists>p' eff. s' = set_process pid p' s \<and> control_to G i p eff p' (requests as) pid"
  proof (cases "repEnd (segResponse p) = None \<and> now > noEndTime p")
    case True
    with assms show ?thesis
      by (intro exI [of _ "set_status 405 ?p"] exI [of _ "Ended 405"])
        (auto simp: onSegmentDataControl_def control_to_def set_status_def Let_def)
  next
    case False
    note early = this
    obtain complete where rc: "range_complete (segResponse p) = Inr complete"
      using assms False by (auto simp: onSegmentDataControl_def Let_def rbind_Inr)
    show ?thesis
    proof (cases complete)
      case True
      with assms early rc show ?thesis
        by (intro exI [of _ "set_status 200 ?p"] exI [of _ "Ended 200"])
          (auto simp: onSegmentDataControl_def control_to_def set_status_def Let_def)
    next
      case False
      note go = assms(2) [unfolded onSegmentDataControl_def assms(1) option.case Let_def]
      show ?thesis
      proof (cases "credit ?p = 0 \<or> nextSegmentQueue p = []")
        case True
        with go early rc False show ?thesis
          by (intro exI [of _ ?p] exI [of _ Waits]) (auto simp: control_to_def split: list.splits)
      next
        case more: False
        then obtain q qs where q: "nextSegmentQueue p = q # qs" by (cases "nextSegmentQueue p") auto
        show ?thesis
        proof (cases "\<exists>e. repEnd (segResponse p) = Some e \<and> q > e")
          case True
          with go early rc False more q show ?thesis
            by (intro exI [of _ "?p\<lparr>nextSegmentQueue := qs\<rparr>"] exI [of _ Waits])
              (auto simp: control_to_def)
        next
          case between: False
          with go early rc False more q
          have "send_next G pid i q (?p\<lparr>nextSegmentQueue := qs\<rparr>) s = Inr (s', as)"
            by (auto split: option.splits if_splits)
          then show ?thesis by (rule send) (use q between in \<open>auto simp: not_less\<close>)
        qed
      qed
    qed
  qed
  then show thesis using that by blast
qed

text \<open>Time passes, requests are given up, packets are stored, the queue is emptied.\<close>

lemma fetched_weaken:
  assumes f: "fetched G has n l st k b p S D"
    and p': "segResponse p' = segResponse p" "set (nextSegmentQueue p') \<subseteq> set (nextSegmentQueue p)"
    and S: "S' \<subseteq># S" and k: "k \<le> k'" and st: "\<And>m. held has m st \<Longrightarrow> held has m st'"
  shows "fetched G has n l st' k' b p' S' D"
proof -
  have S': "D \<union> set_mset S' \<subseteq> D \<union> set_mset S" using S by (auto dest: mset_subset_eqD)
  note D = fetchedD [OF f]
  show ?thesis
  proof (rule fetchedI)
    show "b \<le> q \<and> unat q \<le> unat b + 12 + k'" if "q \<in> set (nextSegmentQueue p')" for q
      using D(5) [OF subsetD [OF p'(2) that]] k by linarith
    show "x < q" if "q \<in> set (nextSegmentQueue p')" "x \<in> D \<union> set_mset S'" for q x
      using D(6) subsetD [OF p'(2) that(1)] subsetD [OF S' that(2)] by blast
    show "e < -1 \<and> (l = Some e \<or> D \<union> set_mset S' \<subseteq> {..e})" if "repEnd (segResponse p') = Some e" for e
      using D(9) [of e] that S' unfolding p'(1) by blast
    show "b \<le> x" if "x \<in> D \<union> set_mset S'" for x using D(4) S' that by blast
    show "D \<inter> set_mset S' = {}" using D(3) S by (auto dest: mset_subset_eqD)
  qed (use D(1,2,7,8,10) st p'(1) in simp_all)
qed

lemma fetched_sent:
  assumes f: "fetched G has n l st k b p S D" and k: "k < 2 ^ 62" and q: "q \<in> set (nextSegmentQueue p)"
    and e: "\<And>e. repEnd (segResponse p) = Some e \<Longrightarrow> q \<le> e"
    and p': "segResponse p' = segResponse p" "set (nextSegmentQueue p') \<subseteq> {q + 1}"
  shows "fetched G has n l st (Suc k) b p' (add_mset q S) D"
proof -
  have b: "b \<le> q" "unat b < 2 ^ 63" "unat q \<le> unat b + 12 + k" and less: "\<forall>x \<in> D \<union> set_mset S. x < q"
    using f q by (simp_all add: fetched_def)
  then have "unat q + 1 < 2 ^ 64" using k by simp
  then have next_no: "unat (q + 1) = unat q + 1" by (simp add: unat_word_ariths)
  then have "b \<le> q + 1" "\<forall>x \<in> D \<union> set_mset S. x < q + 1" "q < q + 1" "unat (q + 1) \<le> unat b + 12 + Suc k"
    using b less by (auto simp: word_le_nat_alt word_less_nat_alt less_Suc_eq)
  moreover have "q \<notin> D" using less by blast
  ultimately show ?thesis
    using f e p' b(1) unfolding fetched_def by (auto simp del: of_nat_Suc)
qed

lemma fetched_control:
  assumes f: "fetched G has n l st k b p S D" and b: "repStart (segResponse p) = Some b"
    and eff: "control_to G i p eff p' R pid" and laws: "segment_laws G" and k: "k < 2 ^ 62"
    and queue: "nextSegmentQueue p = [] \<or> nextSegmentQueue p = [nextSegment p]"
  shows "fetched G has n l st (Suc k) b p' (S + outstanding G pid R) D"
proof (cases eff)
  case (Ended code)
  with eff f fetched_complete [OF f b] show ?thesis
    by (auto simp: control_to_def fetched_def)
next
  case Waits
  with eff have "R = {#}" "segResponse p' = segResponse p" "set (nextSegmentQueue p') \<subseteq> set (nextSegmentQueue p)"
    by (auto simp: control_to_def)
  with fetched_weaken [OF f this(2,3) subset_mset.order_refl, of "Suc k" st] show ?thesis by simp
next
  case (Sends q)
  with eff obtain t where R: "R = {#(segment_interest G t (butlast (iName i)) q, SegmentData pid)#}"
    and p': "segResponse p' = segResponse p" "q \<in> set (nextSegmentQueue p)"
      "case repEnd (segResponse p) of None \<Rightarrow> True | Some e \<Rightarrow> q \<le> e"
      "set (nextSegmentQueue p') \<subseteq> set (tl (nextSegmentQueue p)) \<union> {nextSegment p + 1}"
    by (auto simp: control_to_def)
  have "outstanding G pid R = {#q#}"
    using segment_of_interest(1) [OF laws] by (simp add: R seg_no_def)
  moreover have "fetched G has n l st (Suc k) b p' (add_mset q S) D"
    using f k p'(2) by (rule fetched_sent) (use p' queue in auto)
  ultimately show ?thesis by simp
qed

text \<open>The arrival of a segment, before the control.\<close>

definition report_arrived :: "64 word option \<Rightarrow> bool \<Rightarrow> report \<Rightarrow> report" where
  "report_arrived fin inserted r = (if inserted
     then (new_end fin r)\<lparr>repInsertNum := map_option (\<lambda>num. num + 1) (repInsertNum r)\<rparr> else new_end fin r)"

lemma fetched_arrived:
  assumes f: "fetched G has n l st k b p S D" and x: "x \<in># S" "count S x \<le> 1"
    and fin: "\<And>y. fin = Some y \<Longrightarrow> l = Some y \<and> y < -1" and last: "\<And>m. l = Some m \<Longrightarrow> x \<le> m"
    and st: "\<And>m. held has m st \<Longrightarrow> held has m st'" "inserted \<Longrightarrow> held has (appendSegment G n x) st'"
    and p': "segResponse p' = report_arrived fin inserted (segResponse p)"
      "nextSegmentQueue p' = nextSegmentQueue p"
  shows "fetched G has n l st' k b p' (S - {#x#}) (if inserted then insert x D else D)"
proof -
  let ?D = "if inserted then insert x D else D" and ?r = "segResponse p"
  have D: "x \<notin> D" "D \<inter> set_mset S = {}" "repInsertNum ?r = Some (of_nat (card D))" "finite D"
    using f x(1) by (auto simp: fetched_def)
  obtain T where T: "S = add_mset x T" using x(1) by (meson multi_member_split)
  with x(2) have "x \<notin># T" by (simp add: not_in_iff)
  with T have S: "set_mset (S - {#x#}) = set_mset S - {x}" by auto
  have sub: "?D \<union> set_mset (S - {#x#}) \<subseteq> D \<union> set_mset S" using x(1) S by auto
  have num: "repInsertNum (report_arrived fin inserted ?r) = Some (of_nat (card ?D))"
    using D by (simp add: report_arrived_def)
  have end_some: "repEnd (report_arrived fin inserted ?r) = Some e \<Longrightarrow>
      l = Some e \<and> e < -1 \<and> (\<forall>e'. repEnd ?r = Some e' \<longrightarrow> e \<le> e') \<or> repEnd ?r = Some e" for e
    using fin by (auto simp: report_arrived_def new_end_def split: option.splits if_splits)
  have end_none: "repEnd (report_arrived fin inserted ?r) = None \<Longrightarrow> repEnd ?r = None"
    by (auto simp: report_arrived_def new_end_def split: option.splits if_splits)
  have status: "repStatus (report_arrived fin inserted ?r) = repStatus ?r"
    by (simp add: report_arrived_def)
  have complete: "\<exists>e. repEnd (report_arrived fin inserted ?r) = Some e \<and> {b..e} \<subseteq> ?D"
    if "repStatus ?r = Some 200"
  proof -
    from fetchedD(10) [OF f that] obtain e where e: "repEnd ?r = Some e" "{b..e} \<subseteq> D" by blast
    with end_none obtain e' where e': "repEnd (report_arrived fin inserted ?r) = Some e'" by fastforce
    with end_some [OF e'] e(1) have "e' \<le> e" by auto
    then have "{b..e'} \<subseteq> {b..e}" by simp
    from this e(2) have "{b..e'} \<subseteq> D" by (rule subset_trans)
    also have "D \<subseteq> ?D" by auto
    finally show ?thesis using e' by blast
  qed
  note F = fetchedD [OF f]
  show ?thesis
  proof (rule fetchedI)
    show "e < -1 \<and> (l = Some e \<or> ?D \<union> set_mset (S - {#x#}) \<subseteq> {..e})"
      if "repEnd (segResponse p') = Some e" for e
      using end_some [OF that [unfolded p'(1)]] F(9) [of e] sub by blast
    show "held has (appendSegment G n y) st'" if "y \<in> ?D" for y
      using that F(7) st by (auto split: if_splits)
    show "?D \<subseteq> {..m}" if "l = Some m" for m
      using that F(8) last by auto
    show "b \<le> y" if "y \<in> ?D \<union> set_mset (S - {#x#})" for y
      using F(4) subsetD [OF sub that] by blast
    show "y < q" if "q \<in> set (nextSegmentQueue p')" "y \<in> ?D \<union> set_mset (S - {#x#})" for q y
      using F(6) that(1) subsetD [OF sub that(2)] unfolding p'(2) by blast
    show "?D \<inter> set_mset (S - {#x#}) = {}" using D(2) S by auto
  qed (use F(1,5) num complete status p' in simp_all)
qed

section \<open>The invariant of all fetches\<close>

lemma fetches_step:
  assumes inv: "fetches_ok G has names final k s st P" and about: "only_about G pid P P'"
    and st: "\<And>m. held has m st \<Longrightarrow> held has m st'"
    and named: "\<And>j q. (j, SegmentData q) \<in># P' \<Longrightarrow>
      (j, SegmentData q) \<in># P \<or> iName j = appendSegment G (names q) (seg_no G j)"
    and other: "\<And>q p. q \<noteq> pid \<Longrightarrow> omap_find (segProcesses s') q = Some p \<Longrightarrow> omap_find (segProcesses s) q = Some p"
    and own: "\<And>p b. omap_find (segProcesses s') pid = Some p \<Longrightarrow> repStart (segResponse p) = Some b \<Longrightarrow>
      \<exists>D. fetched G has (names pid) (final (names pid)) st' (Suc k) b p (outstanding G pid P') D"
  shows "fetches_ok G has names final (Suc k) s' st' P'"
  unfolding fetches_ok_def
proof (intro conjI allI impI)
  fix j q assume "(j, SegmentData q) \<in># P'"
  with named inv show "iName j = appendSegment G (names q) (seg_no G j)"
    unfolding fetches_ok_def by blast
next
  fix q p b assume at: "omap_find (segProcesses s') q = Some p \<and> repStart (segResponse p) = Some b"
  show "\<exists>D. fetched G has (names q) (final (names q)) st' (Suc k) b p (outstanding G q P') D"
  proof (cases "q = pid")
    case True
    with own at show ?thesis by blast
  next
    case False
    with other at have "omap_find (segProcesses s) q = Some p" by blast
    with inv at obtain D where "fetched G has (names q) (final (names q)) st k b p (outstanding G q P) D"
      unfolding fetches_ok_def by blast
    then have "fetched G has (names q) (final (names q)) st' (Suc k) b p (outstanding G q P) D"
      by (rule fetched_weaken) (simp_all add: st)
    moreover have "outstanding G q P' = outstanding G q P"
      using about False by (simp add: only_about_def)
    ultimately show ?thesis by auto
  qed
qed

text \<open>What one process had fetched, when nothing arrives for it.\<close>

lemma fetches_own:
  assumes "fetches_ok G has names final k s st P" and "omap_find (segProcesses s) pid = Some p"
    and "repStart (segResponse p) = Some b"
    and "segResponse p' = segResponse p" and "nextSegmentQueue p' = nextSegmentQueue p"
    and "S' \<subseteq># outstanding G pid P" and st: "\<And>m. held has m st \<Longrightarrow> held has m st'"
  shows "\<exists>D. fetched G has (names pid) (final (names pid)) st' (Suc k) b p' S' D"
proof -
  from assms(1-3) obtain D where
    "fetched G has (names pid) (final (names pid)) st k b p (outstanding G pid P) D"
    unfolding fetches_ok_def by blast
  then have "fetched G has (names pid) (final (names pid)) st' (Suc k) b p' S' D"
    by (rule fetched_weaken) (simp_all add: assms)
  then show ?thesis ..
qed

subsection \<open>Commands\<close>

text \<open>What a command with a new process id does: nothing, a single fetch, or a segmented one.\<close>

lemma seg_command_cases [consumes 4]:
  assumes inv: "seg_inv G good k s P U" and new: "pid \<notin> U"
    and clean: "clean_command (command_parameter G i prefx)"
    and run: "seg_onInterest G valid now pid prefx i s = Inr (s', as)"
  obtains (Nothing) "segProcesses s' = segProcesses s" "requests as = {#}"
  | (Single) p j where "segProcesses s' = omap_store pid p (segProcesses s)" "repStart (segResponse p) = None"
      "requests as = {#(j, SingleData pid)#}"
  | (Segmented) par b e t where "command_parameter G i prefx = Inr (Some par)"
      "b < 2 ^ 63" "\<And>x. e = Some x \<Longrightarrow> b \<le> x \<and> x < -1"
      "segProcesses s' = omap_store pid (first_process pid b e t) (segProcesses s)"
      "requests as = requests (map (express_segment G s pid (cmdName par)) (segments_from b (first_count b e)))"
proof -
  note unused = unused_id [OF inv new]
  have credit: "m_credit s = 12" using inv by (simp add: seg_inv_def)
  show thesis
  proof (cases "valid \<and> (\<exists>par. command_parameter G i prefx = Inr (Some par)
      \<and> \<not> ((cmdStart par \<noteq> None \<or> cmdEnd par \<noteq> None) \<and> cmdSelectors par \<noteq> None))")
    case False
    with run have "s' = s" "requests as = {#}"
      by (auto simp: seg_onInterest_def seg_onValidated_def seg_onValidationFailed_def rbind_Inr
          split: option.splits if_splits)
    then show thesis using Nothing by simp
  next
    case True
    then obtain par where valid: valid and par: "command_parameter G i prefx = Inr (Some par)"
      and sel: "\<not> ((cmdStart par \<noteq> None \<or> cmdEnd par \<noteq> None) \<and> cmdSelectors par \<noteq> None)" by blast
    let ?seg = "cmdStart par \<noteq> None \<or> cmdEnd par \<noteq> None"
    show thesis
    proof (cases ?seg)
      case False
      let ?s1 = "fst (seg_processSingleInsertCommand G pid i par s)"
      have s': "segProcesses s' = segProcesses ?s1" "as = snd (seg_processSingleInsertCommand G pid i par s)"
        using run valid par False
        by (auto simp: seg_onInterest_def seg_onValidated_def split: option.splits prod.splits)
      show thesis
        by (rule Single [of "the (omap_find (segProcesses s') pid)"])
          (use s' unused(1) in \<open>auto simp: seg_processSingleInsertCommand_def start_process_def Let_def
            process_at_def seg_process_new_def new_report_def report_new_def set_process_def om.find_store\<close>)
    next
      case True
      let ?b = "case cmdStart par of None \<Rightarrow> 0 | Some b \<Rightarrow> b"
      let ?par = "par\<lparr>cmdStart := Some ?b\<rparr>"
      from True sel have "cmdSelectors par = None" by simp
      with run valid par True obtain s1 where cmd: "processSegmentedInsertCommand G now pid i par s = Inr (s1, as)"
        and s': "segProcesses s' = segProcesses s1"
        by (auto simp: seg_onInterest_def seg_onValidated_def rbind_Inr split: option.splits)
      have b: "?b < 2 ^ 63" "\<And>x. cmdEnd par = Some x \<Longrightarrow> x < -1"
        using clean par by (auto simp: clean_command_def split: option.splits)
      show thesis
      proof (cases "\<exists>e. cmdEnd par = Some e \<and> ?b > e")
        case True
        with cmd have "s1 = s" "requests as = {#}"
          by (auto simp: processSegmentedInsertCommand_def Let_def)
        with s' show thesis using Nothing by simp
      next
        case False
        have "cmdStart par = None \<Longrightarrow> cmdEnd par \<noteq> None" using True by auto
        moreover have "cmdStart par = Some a \<Longrightarrow> par\<lparr>cmdStart := Some a\<rparr> = par" for a
          by (cases par) simp
        ultimately have "\<exists>cs. requests as = requests cs \<and>
            segInit G now pid ?par (snd (start_process pid (Some ?b) (cmdEnd ?par) s)) = Inr (s1, cs)"
          using cmd False
          by (cases "cmdEnd par"; cases "cmdStart par")
            (fastforce simp: processSegmentedInsertCommand_def rbind_Inr Let_def split: prod.splits)+
        moreover obtain t where "segInit G now pid ?par (snd (start_process pid (Some ?b) (cmdEnd ?par) s))
            = Inr (set_process pid (first_process pid ?b (cmdEnd par) t) s,
                   map (express_segment G s pid (cmdName par)) (segments_from ?b (first_count ?b (cmdEnd par))))"
          using first_process_started [OF unused(1) credit, of ?par ?b G now] by auto
        ultimately have "s1 = set_process pid (first_process pid ?b (cmdEnd par) t) s"
          "requests as = requests (map (express_segment G s pid (cmdName par)) (segments_from ?b (first_count ?b (cmdEnd par))))"
          by auto
        then show thesis
          using s' par b False by (intro Segmented [of par ?b "cmdEnd par" t]) (auto simp: set_process_def)
      qed
    qed
  qed
qed

lemma fetched_first:
  assumes b: "b < 2 ^ 63" and e: "\<And>x. e = Some x \<Longrightarrow> b \<le> x \<and> x < -1"
  shows "fetched G has n l st k b (first_process pid b e t) (mset (segments_from b (first_count b e))) {}"
proof -
  let ?m = "first_count b e"
  have no: "unat (b + of_nat j) = unat b + j" if "j \<le> ?m" for j
    using first_count_le(3) [of b e] that by (intro unat_plus) linarith
  have segs: "\<exists>j < ?m. x = b + of_nat j" if "x \<in> set (segments_from b ?m)" for x
    using that by (auto simp: segments_from_nth)
  have in_range: "x \<le> y" if e: "e = Some y" and x: "x \<in> set (segments_from b ?m)" for x y
  proof -
    obtain j where j: "j < ?m" "x = b + of_nat j" using segs x by blast
    have "min 12 (y - b + 1) \<le> y - b + 1" by simp
    then have "initial_count b e \<le> unat (y - b + 1)"
      using e by (simp add: initial_count_def word_le_nat_alt)
    moreover have "unat b \<le> unat y" "unat (y - b + 1) = unat y - unat b + 1"
      using range_size [of b y] assms(2) [OF e] by (simp_all add: word_le_nat_alt)
    ultimately have "unat b + j \<le> unat y"
      using first_count_le(1) [of b e] j(1) by linarith
    with no [of j] j show ?thesis by (simp add: word_le_nat_alt)
  qed
  show ?thesis
  proof (rule fetchedI)
    show "unat b < 2 ^ 63" using b by (simp add: word_less_nat_alt)
    show "b \<le> x" if "x \<in> {} \<union> set_mset (mset (segments_from b ?m))" for x
      using that segs no by (fastforce simp: word_le_nat_alt)
    show "b \<le> q \<and> unat q \<le> unat b + 12 + k" if "q \<in> set (nextSegmentQueue (first_process pid b e t))" for q
      using that no [of ?m] first_count_le(2) [of b e] by (simp add: first_process_def word_le_nat_alt)
    show "x < q" if "q \<in> set (nextSegmentQueue (first_process pid b e t))"
      "x \<in> {} \<union> set_mset (mset (segments_from b ?m))" for q x
      using that segs no no [of ?m] by (fastforce simp: first_process_def word_less_nat_alt)
    show "x < -1 \<and> (l = Some x \<or> {} \<union> set_mset (mset (segments_from b ?m)) \<subseteq> {..x})"
      if "repEnd (segResponse (first_process pid b e t)) = Some x" for x
      using that e [of x] in_range by (auto simp: first_process_def)
  qed (simp_all add: first_process_def)
qed

lemma segment_interest_name:
  assumes "segment_laws G"
  shows "iName (segment_interest G t n x) = appendSegment G n x" "seg_no G (segment_interest G t n x) = x"
  using segment_of_interest(1) [OF assms, of t n x] assms
  by (simp_all add: seg_no_def segment_interest_def segment_laws_def)

lemma segment_names:
  assumes "segment_laws G"
  shows "(j, SegmentData q) \<in># requests (map (express_segment G s pid n) xs) \<Longrightarrow>
    q = pid \<and> iName j = appendSegment G n (seg_no G j)"
  by (induction xs) (auto simp: segment_interest_name [OF assms])

lemma command_fetches:
  assumes inv: "seg_inv G good k s P U" and ok: "fetches_ok G has names final k s st P"
    and laws: "segment_laws G" and new: "pid \<notin> U"
    and clean: "clean_command (command_parameter G i prefx)"
    and names: "\<And>par. command_parameter G i prefx = Inr (Some par) \<Longrightarrow> cmdName par = names pid"
    and run: "seg_onInterest G valid now pid prefx i s = Inr (s', as)"
  shows "fetches_ok G has names final (Suc k) s' st (P + requests as)"
proof -
  note unused = unused_id [OF inv new]
  show ?thesis
    using inv new clean run
  proof (cases rule: seg_command_cases)
    case Nothing
    then have same: "P + requests as = P" by simp
    show ?thesis
      unfolding same
      by (rule fetches_step [OF ok only_about_simps(1) [of G pid]]) (use Nothing unused(1) in simp_all)
  next
    case (Single p j)
    show ?thesis
      unfolding Single(3)
      by (rule fetches_step [where pid = pid, OF ok])
        (use Single unused only_about_simps(5) [OF only_about_simps(1)] in \<open>auto simp: om.find_store\<close>)
  next
    case (Segmented par b e t)
    let ?R = "requests (map (express_segment G s pid (cmdName par)) (segments_from b (first_count b e)))"
    have n: "cmdName par = names pid" using names Segmented(1) .
    have out: "outstanding G pid (P + ?R) = mset (segments_from b (first_count b e))"
      using unused(2) segment_requests(1) [OF laws] by simp
    show ?thesis
      unfolding Segmented(5)
    proof (rule fetches_step [OF ok])
      show "only_about G pid P (P + ?R)"
        by (rule segment_requests(3) [OF laws only_about_simps(1)])
      show "(j, SegmentData q) \<in># P \<or> iName j = appendSegment G (names q) (seg_no G j)"
        if "(j, SegmentData q) \<in># P + ?R" for j q
        using that segment_names [OF laws] n by fastforce
      show "\<exists>D. fetched G has (names pid) (final (names pid)) st (Suc k) b' p (outstanding G pid (P + ?R)) D"
        if "omap_find (segProcesses s') pid = Some p" "repStart (segResponse p) = Some b'" for p b'
      proof -
        have "p = first_process pid b e t" "b' = b"
          using that Segmented(4) by (auto simp: om.find_store first_process_def)
        with fetched_first [OF Segmented(2,3)] out show ?thesis by metis
      qed
    qed (use Segmented(4) in \<open>auto simp: om.find_store\<close>)
  qed
qed

subsection \<open>Packets and timeouts\<close>

lemma control_requests:
  assumes "control_to G i p eff p' R pid" and laws: "segment_laws G"
    and "iName i = appendSegment G (names pid) (seg_no G i)"
  shows "only_about G pid P (P' + R) \<longleftrightarrow> only_about G pid P P'"
    and "(j, SegmentData q) \<in># R \<Longrightarrow> iName j = appendSegment G (names q) (seg_no G j)"
proof -
  have "butlast (iName i) = names pid"
    using assms(3) laws unfolding segment_laws_def by (metis butlast_snoc)
  then consider "R = {#}"
    | t q where "R = {#(segment_interest G t (names pid) q, SegmentData pid)#}"
    using assms(1) by (auto simp: control_to_def split: control_effect.splits)
  note R = this
  then show "only_about G pid P (P' + R) \<longleftrightarrow> only_about G pid P P'"
    by cases (auto simp: only_about_def)
  show "(j, SegmentData q) \<in># R \<Longrightarrow> iName j = appendSegment G (names q) (seg_no G j)"
    using R by cases (auto simp: segment_interest_name [OF laws])
qed

lemma segment_data_fetches:
  assumes inv: "seg_inv G False k s P U" and fok: "fetches_ok G has names final k s st P"
    and laws: "segment_laws G" and i: "(i, SegmentData pid) \<in># P" and k: "k < 2 ^ 62"
    and con: "consistent G names final i (SegmentData pid) d"
    and store: "segment_store (insertData G) ok has" "ok st"
    and run: "onSegmentDataValidated G now i d pid s st = Inr (s', st', as)"
  shows "fetches_ok G has names final (Suc k) s' st' (P - {#(i, SegmentData pid)#} + requests as)"
proof (cases "omap_find (segProcesses s) pid")
  case None
  with run have "s' = s" "st' = st" "P - {#(i, SegmentData pid)#} + requests as = P - {#(i, SegmentData pid)#}"
    by (auto simp: onSegmentDataValidated_def)
  then show ?thesis
    using fetches_step [OF fok only_about_simps(2) [OF i], of st s] None by (auto dest: in_diffD)
next
  case (Some p)
  let ?x = "seg_no G i" and ?S = "outstanding G pid P" and ?P = "P - {#(i, SegmentData pid)#}"
  note pend = pending_segment [OF inv i]
  have name: "iName i = appendSegment G (names pid) ?x"
    using fok i unfolding fetches_ok_def by blast
  obtain b n where b: "repStart (segResponse p) = Some b" and flow: "flow_ok k b n p ?S"
    using pend(4) [OF Some] unfolding seg_ok_def by blast
  then obtain D where f: "fetched G has (names pid) (final (names pid)) st k b p ?S D"
    using fok Some unfolding fetches_ok_def by blast
  obtain fin where fin: "final_segment G d = Some fin"
    using data_final [OF inv i run] Some by auto
  obtain inserted where ins: "insertData G st d = (st', inserted)"
    and ctrl: "onSegmentDataControl G now pid i
      (set_process pid (p\<lparr>segResponse := report_arrived fin inserted (segResponse p)\<rparr>) s) = Inr (s', as)"
    using run Some fetchedD(2) [OF f]
    by (auto simp: onSegmentDataValidated_def refresh_end_final fin report_arrived_def rbind_Inr
        split: prod.splits if_splits)
  let ?p = "p\<lparr>segResponse := report_arrived fin inserted (segResponse p)\<rparr>"
  have "omap_find (segProcesses (set_process pid ?p s)) pid = Some ?p"
    by (simp add: set_process_def om.find_store)
  from this ctrl obtain p' eff where s': "s' = set_process pid p' s"
    and eff: "control_to G i ?p eff p' (requests as) pid"
    by (rule control_cases) simp
  note kept = segment_store.held_insert [OF store(1) store(2) ins]
  have start: "repStart (segResponse ?p) = Some b"
    using b by (simp add: report_arrived_def)
  have "fetched G has (names pid) (final (names pid)) st' k b ?p (?S - {#?x#}) (if inserted then insert ?x D else D)"
  proof (rule fetched_arrived [OF f pend(3)])
    show "count ?S ?x \<le> 1" using flow by (simp add: flow_ok_def)
    show "final (names pid) = Some y \<and> y < -1" if "fin = Some y" for y
      using con fin that by (simp add: consistent_def)
    show "?x \<le> m" if "final (names pid) = Some m" for m
      using con that by (simp add: consistent_def)
    show "held has (appendSegment G (names pid) ?x) st'" if inserted
      using kept(2) that con name by (auto simp: consistent_def)
  qed (simp_all add: kept(1))
  then have "fetched G has (names pid) (final (names pid)) st' (Suc k) b p'
      (?S - {#?x#} + outstanding G pid (requests as)) (if inserted then insert ?x D else D)"
    using start eff laws k
    by (rule fetched_control) (use flow in \<open>auto simp: flow_ok_def\<close>)
  then have own: "\<exists>D. fetched G has (names pid) (final (names pid)) st' (Suc k) b p' (outstanding G pid (?P + requests as)) D"
    by (auto simp: outstanding_minus [OF i])
  have "repStart (segResponse p') = Some b"
    using eff start by (auto simp: control_to_def split: control_effect.splits)
  then show ?thesis
    using own only_about_simps(2) [OF i] kept(1) control_requests [where names = names, OF eff laws name]
    by (intro fetches_step [where pid = pid, OF fok]) (auto simp: s' set_process_def om.find_store dest: in_diffD)
qed

lemma single_data_fetches:
  assumes inv: "seg_inv G False k s P U" and fok: "fetches_ok G has names final k s st P"
    and i: "(i, SingleData pid) \<in># P"
    and store: "segment_store (insertData G) ok has" "ok st"
    and run: "seg_onDataValidated G d pid s st = Inr (s', st', as)"
  shows "fetches_ok G has names final (Suc k) s' st' (P - {#(i, SingleData pid)#} + requests as)"
proof -
  have req: "P - {#(i, SingleData pid)#} + requests as = P - {#(i, SingleData pid)#}"
    using run by (auto simp: seg_onDataValidated_def rbind_Inr split: option.splits if_splits prod.splits)
  have kept: "held has m st'" if "held has m st" for m
    using segment_store.held_insert(1) [OF store] run that
    by (fastforce simp: seg_onDataValidated_def rbind_Inr split: option.splits if_splits prod.splits)
  have other: "omap_find (segProcesses s) q = Some p"
    if "q \<noteq> pid" "omap_find (segProcesses s') q = Some p" for q p
    using run that
    by (auto simp: seg_onDataValidated_def rbind_Inr set_process_def om.find_store
        split: option.splits if_splits prod.splits)
  have own: "repStart (segResponse p) = None" if "omap_find (segProcesses s') pid = Some p" for p
  proof -
    from that obtain p0 where p0: "omap_find (segProcesses s) pid = Some p0"
      "repStart (segResponse p) = repStart (segResponse p0)"
      using run
      by (auto simp: seg_onDataValidated_def rbind_Inr set_process_def om.find_store
          split: option.splits if_splits prod.splits)
    with inv i show ?thesis by (auto simp: seg_inv_def proc_ok_def split: if_splits)
  qed
  show ?thesis unfolding req
    by (rule fetches_step [OF fok only_about_simps(3) [OF i] kept]) (use other own in \<open>auto dest: in_diffD\<close>)
qed

text \<open>A timeout gives the process up or asks for the same segment again.\<close>

lemma timeout_cases:
  assumes "onSegmentTimeout G pid i s = Inr (s', as)"
  obtains "requests as = {#}"
      "\<And>q p. omap_find (segProcesses s') q = Some p \<Longrightarrow> q \<noteq> pid \<and> omap_find (segProcesses s) q = Some p"
  | p m where "omap_find (segProcesses s) pid = Some p" "s' = set_process pid (p\<lparr>retryCounts := m\<rparr>) s"
      "requests as = {#((newInterest (oldNdn G) (iName i))\<lparr>lifetimeMs := Some (m_interestLifetime s)\<rparr>, SegmentData pid)#}"
proof (cases "omap_find (segProcesses s) pid")
  case None
  with assms have "s' = s" "as = []"
    by (simp_all add: onSegmentTimeout_def onSegmentTimeoutControl_def)
  with None show thesis by (intro that(1)) auto
next
  case (Some p)
  with assms obtain x where x: "segment_of G i = Inr x"
    by (auto simp: onSegmentTimeout_def onSegmentTimeoutControl_def rbind_Inr)
  with assms Some obtain v where v: "omap_find (retryCounts p) x = Some v"
    by (auto simp: onSegmentTimeout_def onSegmentTimeoutControl_def split: option.splits)
  note run = assms [unfolded onSegmentTimeout_def onSegmentTimeoutControl_def Some option.case x rbind_simps v]
  show thesis
  proof (cases "v \<ge> m_retryTime s")
    case True
    with run have "as = []" "s' = s\<lparr>segProcesses := omap_erase pid (segProcesses s)\<rparr>" by auto
    then show thesis by (intro that(1)) (auto simp: om.find_erase split: if_splits)
  next
    case False
    with run that(2) [OF Some] show thesis by auto
  qed
qed

lemma timeout_fetches:
  assumes inv: "seg_inv G False k s P U" and fok: "fetches_ok G has names final k s st P"
    and laws: "segment_laws G" and i: "(i, SegmentData pid) \<in># P"
    and run: "onSegmentTimeout G pid i s = Inr (s', as)"
  shows "fetches_ok G has names final (Suc k) s' st (P - {#(i, SegmentData pid)#} + requests as)"
proof -
  let ?P = "P - {#(i, SegmentData pid)#}" and ?j = "(newInterest (oldNdn G) (iName i))\<lparr>lifetimeMs := Some (m_interestLifetime s)\<rparr>"
  have name: "iName i = appendSegment G (names pid) (seg_no G i)"
    using fok i unfolding fetches_ok_def by blast
  have j: "iName ?j = iName i" "seg_no G ?j = seg_no G i"
    using laws by (simp_all add: segment_laws_def seg_no_def segment_of_def)
  note about = only_about_simps(2) [OF i]
  have "requests as = {#} \<or> requests as = {#(?j, SegmentData pid)#}"
    using run by (cases rule: timeout_cases) simp_all
  then have P': "only_about G pid P (?P + requests as)"
    "outstanding G pid (?P + requests as) \<subseteq># outstanding G pid P"
    "\<And>x q. (x, SegmentData q) \<in># ?P + requests as \<Longrightarrow>
      (x, SegmentData q) \<in># P \<or> iName x = appendSegment G (names q) (seg_no G x)"
    using about only_about_simps(4) [OF about] pending_segment(3) [OF inv i] name j
    by (auto simp: outstanding_minus [OF i] dest: in_diffD)
  have other: "omap_find (segProcesses s) q = Some p"
    if "q \<noteq> pid" "omap_find (segProcesses s') q = Some p" for q p
    using run that by (cases rule: timeout_cases) (auto simp: set_process_def om.find_store)
  have own: "\<exists>p0. omap_find (segProcesses s) pid = Some p0 \<and> segResponse p = segResponse p0
      \<and> nextSegmentQueue p = nextSegmentQueue p0" if "omap_find (segProcesses s') pid = Some p" for p
    using run that by (cases rule: timeout_cases) (auto simp: set_process_def om.find_store)
  show ?thesis
  proof (rule fetches_step [OF fok P'(1) _ P'(3) other])
    fix p b assume p: "omap_find (segProcesses s') pid = Some p" "repStart (segResponse p) = Some b"
    from own [OF p(1)] obtain p0 where p0: "omap_find (segProcesses s) pid = Some p0"
      "segResponse p = segResponse p0" "nextSegmentQueue p = nextSegmentQueue p0" by blast
    then show "\<exists>D. fetched G has (names pid) (final (names pid)) st (Suc k) b p (outstanding G pid (?P + requests as)) D"
      using p(2) by (intro fetches_own [OF fok p0(1) _ _ _ P'(2)]) simp_all
  qed simp_all
qed

text \<open>Events that only take interests or processes away.\<close>

lemma fewer_fetches:
  assumes fok: "fetches_ok G has names final k s st P" and about: "only_about G pid P P'" and sub: "P' \<subseteq># P"
    and s': "\<And>q p. omap_find (segProcesses s') q = Some p \<Longrightarrow> omap_find (segProcesses s) q = Some p"
  shows "fetches_ok G has names final (Suc k) s' st P'"
proof (rule fetches_step [OF fok about])
  fix p b assume p: "omap_find (segProcesses s') pid = Some p" "repStart (segResponse p) = Some b"
  have "outstanding G pid P' \<subseteq># outstanding G pid P"
    unfolding outstanding_def by (intro image_mset_subseteq_mono multiset_filter_mono sub)
  then show "\<exists>D. fetched G has (names pid) (final (names pid)) st (Suc k) b p (outstanding G pid P') D"
    using p s' by (intro fetches_own [OF fok]) simp_all
qed (use sub s' in \<open>auto dest: mset_subset_eqD\<close>)

lemma check_fetches:
  assumes fok: "fetches_ok G has names final k s st P"
    and run: "onCheckInterest G valid now prefx i s = Inr (s', as)"
  shows "fetches_ok G has names final (Suc k) s' st P"
proof -
  have "s' = s \<or> (\<exists>pid p0. omap_find (segProcesses s) pid = Some p0 \<and> repEnd (segResponse p0) = None
      \<and> s' = set_process pid (extendNoEndTime s now p0) s)"
  proof (cases "valid \<and> (\<exists>par pid p. command_parameter G i prefx = Inr (Some par)
      \<and> cmdProcessId par = Some pid \<and> omap_find (segProcesses s) pid = Some p)")
    case True
    then obtain par pid p where "valid" "command_parameter G i prefx = Inr (Some par)"
      "cmdProcessId par = Some pid" and at: "omap_find (segProcesses s) pid = Some p" by blast
    with run have "s' = s \<or> s' = set_process pid (extendNoEndTime s now p) s \<and> repEnd (segResponse p) = None"
      by (auto simp: onCheckInterest_def onCheckValidated_def Let_def split: if_splits)
    with at show ?thesis by blast
  next
    case False
    with run show ?thesis
      by (cases "command_parameter G i prefx")
        (auto simp: onCheckInterest_def onCheckValidated_def split: option.splits if_splits)
  qed
  then have "\<exists>pid. \<forall>q p. omap_find (segProcesses s') q = Some p \<longrightarrow> omap_find (segProcesses s) q = Some p \<or>
      q = pid \<and> (\<exists>p0. omap_find (segProcesses s) q = Some p0 \<and> repEnd (segResponse p0) = None
        \<and> p = extendNoEndTime s now p0)"
    by (auto simp: set_process_def om.find_store split: if_splits)
  then obtain pid where s': "\<And>q p. omap_find (segProcesses s') q = Some p \<Longrightarrow>
      omap_find (segProcesses s) q = Some p \<or>
      q = pid \<and> (\<exists>p0. omap_find (segProcesses s) q = Some p0 \<and> repEnd (segResponse p0) = None
        \<and> p = extendNoEndTime s now p0)"
    by blast
  show ?thesis
  proof (rule fetches_step [OF fok only_about_simps(1)])
    show "omap_find (segProcesses s) q = Some p" if "q \<noteq> pid" "omap_find (segProcesses s') q = Some p" for q p
      using s' that by blast
    show "\<exists>D. fetched G has (names pid) (final (names pid)) st (Suc k) b p (outstanding G pid P) D"
      if p: "omap_find (segProcesses s') pid = Some p" "repStart (segResponse p) = Some b" for p b
      using s' [OF p(1)]
    proof
      assume "omap_find (segProcesses s) pid = Some p"
      then show ?thesis using p(2) by (intro fetches_own [OF fok]) simp_all
    next
      assume "pid = pid \<and> (\<exists>p0. omap_find (segProcesses s) pid = Some p0 \<and> repEnd (segResponse p0) = None
        \<and> p = extendNoEndTime s now p0)"
      then obtain p0 where p0: "omap_find (segProcesses s) pid = Some p0" "repEnd (segResponse p0) = None"
        and ext: "p = extendNoEndTime s now p0" by blast
      then have "repStart (segResponse p0) = Some b"
        using p(2) by (simp add: extendNoEndTime_def set_status_def split: if_splits)
      from fetches_own [OF fok p0(1) this refl refl subset_mset.order_refl]
      obtain D where D: "fetched G has (names pid) (final (names pid)) st (Suc k) b p0 (outstanding G pid P) D"
        by blast
      have "fetched G has (names pid) (final (names pid)) st (Suc k) b p (outstanding G pid P) D"
        using D p0(2) unfolding ext by (auto simp: fetched_def extendNoEndTime_def set_status_def)
      then show ?thesis ..
    qed
  qed simp_all
qed

subsection \<open>All events\<close>

lemma seg_data_store:
  assumes "seg_data G now i c d s st = Inr (s', st', as)"
  shows "st' = st \<or> st' = fst (insertData G st d)"
proof (cases "insertData G st d")
  case (Pair x b)
  with assms show ?thesis
    by (cases b) (auto simp: seg_data_def onSegmentDataValidated_def seg_onDataValidated_def rbind_Inr
        split: seg_callback.splits option.splits if_splits)
qed

lemma fetch_run_ok:
  assumes "fetch_run G names final st0 s st P U k" and laws: "segment_laws G"
    and store: "segment_store (insertData G) ok has" and ok: "ok st0" and "k \<le> 2 ^ 62"
  shows "fetches_ok G has names final k s st P \<and> ok st"
  using assms(1,5)
proof (induction rule: fetch_run.induct)
  case start
  with ok show ?case by (simp add: fetches_ok_def seg_new_def)
next
  case (command s st P U k pid i prefx valid now s' as)
  have "seg_inv G False k s P U"
    using seg_run_invariant [OF fetch_run_seg [OF command(1)] laws] command(7) by simp
  moreover have "fetches_ok G has names final k s st P" "ok st" using command(6,7) by simp_all
  ultimately show ?case
    using command_fetches [where names = names, OF _ _ laws command(2,3,4,5)] by blast
next
  case (data s st P U k i c d now s' st' as)
  have inv: "seg_inv G False k s P U"
    using seg_run_invariant [OF fetch_run_seg [OF data(1)] laws] data(6) by simp
  have IH: "fetches_ok G has names final k s st P" "ok st" and k: "k < 2 ^ 62"
    using data(5,6) by simp_all
  have "ok st'"
    using seg_data_store [OF data(4)] IH(2) segment_store.insert_ok [OF store IH(2)]
    by (cases "insertData G st d") auto
  moreover from inv data(2) obtain pid where "c = SegmentData pid \<or> c = SingleData pid"
    by (auto simp: seg_inv_def pend_ok_def)
  then have "fetches_ok G has names final (Suc k) s' st' (P - {#(i, c)#} + requests as)"
    using data(2-4) segment_data_fetches [OF inv IH(1) laws _ k _ store IH(2)]
      single_data_fetches [OF inv IH(1) _ store IH(2)]
    by (auto simp: seg_data_def)
  ultimately show ?case by simp
next
  case (rejected s st P U k i c)
  have inv: "seg_inv G False k s P U"
    using seg_run_invariant [OF fetch_run_seg [OF rejected(1)] laws] rejected(4) by simp
  with rejected(2) obtain pid where "c = SegmentData pid \<or> c = SingleData pid"
    by (auto simp: seg_inv_def pend_ok_def)
  with rejected have "only_about G pid P (P - {#(i, c)#})" by (auto intro: only_about_simps)
  with rejected show ?case by (auto intro: fewer_fetches)
next
  case (timeout s st P U k i c s' as)
  have inv: "seg_inv G False k s P U"
    using seg_run_invariant [OF fetch_run_seg [OF timeout(1)] laws] timeout(5) by simp
  have IH: "fetches_ok G has names final k s st P" "ok st" using timeout(4,5) by simp_all
  from inv timeout(2) obtain pid where "c = SegmentData pid \<or> c = SingleData pid"
    by (auto simp: seg_inv_def pend_ok_def)
  then show ?case
  proof
    assume "c = SegmentData pid"
    with timeout timeout_fetches [OF inv IH(1) laws] IH(2) show ?thesis
      by (simp add: seg_timeout_def)
  next
    assume c: "c = SingleData pid"
    with timeout have "s' = seg_onTimeout pid s" "as = []" by (simp_all add: seg_timeout_def)
    moreover have "fetches_ok G has names final (Suc k) (seg_onTimeout pid s) st (P - {#(i, c)#})"
      using timeout(2) unfolding c
      by (intro fewer_fetches [OF IH(1) only_about_simps(3)])
        (auto simp: seg_onTimeout_def om.find_erase split: if_splits)
    ultimately show ?thesis using IH(2) by simp
  qed
next
  case (deletion s st P U k pid)
  then have "fetches_ok G has names final (Suc k) (deleteProcess pid s) st P"
    by (intro fewer_fetches [OF _ only_about_simps(1)])
      (auto simp: deleteProcess_def om.find_erase split: if_splits)
  with deletion show ?case by simp
next
  case (check s st P U k valid now prefx i s' as)
  then show ?case by (auto intro: check_fetches)
qed

section \<open>Property\<close>

text \<open>The list storage of the reference library is such a storage.\<close>

interpretation ref_segments: segment_store "insertData ref_old" "\<lambda>_. True" "\<lambda>st n. n \<in> set st"
  by unfold_locales auto

text \<open>
  C14: status 200 means the whole range has been stored. In every run, with packets lost,
  rejected or refused by the storage, with timeouts, deletions and concurrent fetches: when the
  report of a segmented fetch says 200, the end of the range is known and the storage has a
  packet of every segment from the start to the end of it, also when the end was found out, or
  came closer, during the fetch. It rests on ranges that start in the lower half of the numbers
  and end below the greatest, and on publishers that have no segment after the one they name as
  the last.
\<close>

theorem segment_complete:
  assumes "fetch_run G names final st0 s st P U k" and "segment_laws G"
    and "segment_store (insertData G) ok has" and "ok st0" and "k < 2 ^ 62"
    and "omap_find (segProcesses s) pid = Some p" and "repStart (segResponse p) = Some b"
    and "repStatus (segResponse p) = Some 200"
  shows "\<exists>e. repEnd (segResponse p) = Some e \<and>
    (\<forall>x \<in> {b..e}. held has (appendSegment G (names pid) x) st)"
proof -
  obtain D where D: "fetched G has (names pid) (final (names pid)) st k b p (outstanding G pid P) D"
    using fetch_run_ok [OF assms(1-4)] assms(5-7) unfolding fetches_ok_def by fastforce
  from fetchedD(10) [OF D assms(8)] show ?thesis
    using fetchedD(7) [OF D] by blast
qed

text \<open>One fetch of the segment 0 alone: the command, and the packet.\<close>

lemma ref_one_segment:
  "\<exists>s p P. fetch_run ref_old (\<lambda>_. [generic ''a'']) (\<lambda>_. Some 0) [] s
      [[generic ''a'', segment_component 0]] P {7} 2
    \<and> omap_find (segProcesses s) 7 = Some p \<and> repStart (segResponse p) = Some 0
    \<and> repEnd (segResponse p) = Some 0 \<and> repStatus (segResponse p) = Some 200"
proof -
  let ?j = "segment_interest ref_old 4000 [generic ''a''] 0"
  let ?d = "(ref_packet [''a''] ''x'')\<lparr>dName := [generic ''a'', segment_component 0]\<rparr>"
  have "first_count 0 (Some 0) = 1"
    by (simp add: first_count_def initial_count_def min_def word_le_nat_alt)
  with ref_seg_command [of 0] obtain t as where
    cmd: "seg_onInterest ref_old True 0 7 ref_old_prefix (ref_old_interest 0 0 5) seg_new
      = Inr (set_process 7 (first_process 7 0 (Some 0) t) seg_new, as)"
    and as: "requests as = {#(?j, SegmentData 7)#}"
    by (auto simp: seg_new_def)
  let ?s = "set_process 7 (first_process 7 0 (Some 0) t) seg_new"
  have "(0 :: 64 word) < -1" by (simp add: word_less_nat_alt unat_max)
  then have run: "fetch_run ref_old (\<lambda>_. [generic ''a'']) (\<lambda>_. Some 0) [] ?s [] {#(?j, SegmentData 7)#} {7} 1"
    using fetch_run.command [OF fetch_run.start _ _ _ cmd, of "\<lambda>_. [generic ''a'']" "\<lambda>_. Some 0" "[]"] as
    by (auto simp: ref_old_parameter clean_command_def ref_old_command_def)
  have "\<exists>s' p as. seg_data ref_old 5 ?j (SegmentData 7) ?d ?s []
      = Inr (s', [[generic ''a'', segment_component 0]], as) \<and> omap_find (segProcesses s') 7 = Some p
    \<and> repStart (segResponse p) = Some 0 \<and> repEnd (segResponse p) = Some 0 \<and> repStatus (segResponse p) = Some 200"
    by (simp add: seg_data_def onSegmentDataValidated_def set_process_def first_process_def om.find_store
        refresh_end_def ref_packet_def onSegmentDataControl_def range_complete_def set_status_def)
  then obtain s' p as' where data: "seg_data ref_old 5 ?j (SegmentData 7) ?d ?s []
      = Inr (s', [[generic ''a'', segment_component 0]], as')" and p: "omap_find (segProcesses s') 7 = Some p" "repStart (segResponse p) = Some 0" "repEnd (segResponse p) = Some 0" "repStatus (segResponse p) = Some 200"
    by blast
  have "consistent ref_old (\<lambda>_. [generic ''a'']) (\<lambda>_. Some 0) ?j (SegmentData 7) ?d"
    using segment_interest_name [OF ref_segment_laws, of 4000 "[generic ''a'']" 0]
    by (simp add: consistent_def final_segment_def ref_packet_def)
  from fetch_run.data [OF run _ this data] p show ?thesis
    by (force simp: numeral_2_eq_2)
qed

theorem segment_complete_witness:
  "held (\<lambda>st n. n \<in> set st) [generic ''a'', segment_component 0] [[generic ''a'', segment_component 0]]"
proof -
  obtain s p P where run: "fetch_run ref_old (\<lambda>_. [generic ''a'']) (\<lambda>_. Some 0) [] s
      [[generic ''a'', segment_component 0]] P {7} 2"
    and p: "omap_find (segProcesses s) 7 = Some p" "repStart (segResponse p) = Some 0"
      "repEnd (segResponse p) = Some 0" "repStatus (segResponse p) = Some 200"
    using ref_one_segment by blast
  have "(2 :: nat) < 2 ^ 62" by simp
  from segment_complete [OF run ref_segment_laws ref_segments.segment_store_axioms _ this p(1,2,4)] p(3)
  show ?thesis by simp
qed

end
