(* ===== verification/Restart.thy ===== *)
theory Restart
  imports Repo_Properties
begin

text \<open>
  Two sessions of the repository over one database: what the first has stored is there for the
  second.
\<close>

section \<open>The database between the sessions\<close>

text \<open>The libraries of a second session: opening finds the database \<open>b\<close> that was left.\<close>

definition reopened :: "'db env \<Rightarrow> 'db \<Rightarrow> 'db env" where
  "reopened E b = E\<lparr>kv := (kv E)\<lparr>kvOpen := (\<lambda>_ _. Inr b)\<rparr>\<rparr>"

lemma reopened_sel [simp]:
  "lib (reopened E b) = lib E" "kvPut (kv (reopened E b)) = kvPut (kv E)"
  "kvGet (kv (reopened E b)) = kvGet (kv E)" "kvSeek (kv (reopened E b)) = kvSeek (kv E)"
  "kvSeekToFirst (kv (reopened E b)) = kvSeekToFirst (kv E)" "kvOpen (kv (reopened E b)) ro p = Inr b"
  by (simp_all add: reopened_def)

lemma reopened_engine [simp]:
  "engine_ok (reopened E b) e = engine_ok E e" "stored (reopened E b) e = stored E e"
  by (auto simp: engine_ok_def env_ok_def kv_laws_def stored_def fun_eq_iff split: option.split)

lemma reopened_opens:
  "\<exists>e. storageEngine (reopened E b) path ro ren = Inr e \<and> db e = Some b \<and> keysTrie e = new_node"
  by (simp add: storageEngine_def impl_open_def impl_new_def)

lemma same_db:
  "db e = db e' \<Longrightarrow> engine_ok E e = engine_ok E e' \<and> stored E e = stored E e'"
  by (simp add: engine_ok_def stored_def fun_eq_iff)

section \<open>The second start\<close>

lemma start_succeeds:
  assumes "main_config C (lib E) a = Inr cfg"
    and "storageEngine E (confDbPath cfg) (readOnly cfg) (confRenamePrefix cfg) = Inr e" and "engine_ok E e"
  shows "\<exists>r T. main_start E X C a = Inr (r, T)"
proof -
  obtain r0 where r0: "fastRepo E X cfg = Inr r0" "repoStorage r0 = e"
    using assms(2) by (auto simp: fastRepo_def)
  obtain r1 as where r1: "(r1, as) = (if readOnly cfg then (r0, []) else enableListening r0)"
    by (metis surj_pair)
  then have "repoStorage r1 = e"
    using r0 listen_all_effect [of "repoPrefixes (repoConfig r0)" r0 r1 as]
    by (auto simp: enableListening_def split: if_splits)
  then obtain r2 bs where "initializeStorage E r1 = Inr (r2, bs)"
    using scan_returns [OF assms(3)] by (auto simp: initializeStorage_def onScanCompleted_def Let_def)
  then show ?thesis
    unfolding main_start_def assms(1) rbind_simps r0(1) r1 [symmetric]
    by (simp add: enableValidation_def)
qed

text \<open>
  C4: a restart. After any run of a first session, a second start that finds the database the
  first has left succeeds, whatever its own configuration. Its storage is sound and holds
  exactly the packets the first session held; every interest for exactly the name of one of
  them is answered with it; and if all names are made of generic components, a prefix is
  registered for each of them that no other stored name extends.
\<close>

theorem restart_serves:
  assumes "main_start E X C a = Inr (r0, T0)" and "engine_ok E (repoStorage r0)"
    and run: "repo_run E X r0 T0 r T P" and left: "db (repoStorage r) = Some b"
    and cfg: "main_config C' (lib E) a' = Inr cfg"
  shows "\<exists>r1 T1. main_start (reopened E b) X' C' a' = Inr (r1, T1)
    \<and> engine_ok (reopened E b) (repoStorage r1) \<and> stored (reopened E b) (repoStorage r1) = stored E (repoStorage r)
    \<and> (\<forall>j d p rnd. stored E (repoStorage r) (iName j) = Some d \<and> \<not> canBePrefix j \<and> \<not> mustBeFresh j \<longrightarrow>
        repo_step (reopened E b) X' (InterestAt ReadInterest p j rnd) r1 = Inr (r1, [PutData d]))
    \<and> ((\<forall>n. stored E (repoStorage r) n \<noteq> None \<longrightarrow> generic_name n) \<longrightarrow>
        (\<forall>n. stored E (repoStorage r) n \<noteq> None \<and> n \<noteq> [] \<and>
          (\<forall>m. stored E (repoStorage r) m \<noteq> None \<longrightarrow> \<not> strict_prefix n m) \<longrightarrow>
          (\<exists>p. RegisterPrefix p ReadInterest ReadRegisterFailed \<in> set T1 \<and> prefix p n)))"
proof -
  let ?E = "reopened E b"
  have "repo_inv E UNIV r T P"
    using run start_inv [OF assms(1,2)] env_packet [OF engine_env [OF assms(2)]]
    by (rule repo_run_invariant)
  then have eng: "engine_ok E (repoStorage r)" by (rule repo_invD(1))
  obtain e where e: "storageEngine ?E (confDbPath cfg) (readOnly cfg) (confRenamePrefix cfg) = Inr e"
    "db e = Some b"
    using reopened_opens by metis
  with left have same: "db e = db (repoStorage r)" by simp
  with eng have "engine_ok ?E e" by (simp add: same_db [OF same])
  with cfg e(1) obtain r1 T1 where start: "main_start ?E X' C' a' = Inr (r1, T1)"
    using start_succeeds [of C' ?E a' cfg e X'] by auto
  then have "db (repoStorage r1) = Some b"
    using cfg e by (cases rule: start_storage) auto
  then have s: "engine_ok ?E (repoStorage r1)" "stored ?E (repoStorage r1) = stored E (repoStorage r)"
    using same_db [of "repoStorage r1" "repoStorage r" E] left eng by simp_all
  have read: "repo_step ?E X' (InterestAt ReadInterest p j rnd) r1 = Inr (r1, [PutData d])"
    if "stored E (repoStorage r) (iName j) = Some d" "\<not> canBePrefix j" "\<not> mustBeFresh j" for j d p rnd
    using that by (simp add: repo_step_def interest_step_def read_exact [OF s(1)] s(2) del: reopened_engine)
  note outer = start_registers_outer [OF start s(1), unfolded s(2)]
  show ?thesis
    using start s read outer by (intro exI [of _ r1] exI [of _ T1] conjI) (simp_all only:, blast+)
qed

theorem restart_serves_witness:
  "\<exists>r0 T0 (r :: ((string, bytes) omap, ptree) repo) T P b r1 T1. repo_run ref_env ref_platform r0 T0 r T P \<and> db (repoStorage r) = Some b
    \<and> main_start (reopened ref_env b) ref_platform (ref_conf sample_files) (ref_args True) = Inr (r1, T1)
    \<and> repo_step (reopened ref_env b) ref_platform
        (InterestAt ReadInterest [] (ref_interest [''a''] False) []) r1
      = Inr (r1, [PutData (ref_packet [''a''] ''x'')])
    \<and> (\<exists>p. RegisterPrefix p ReadInterest ReadRegisterFailed \<in> set T1 \<and> prefix p [generic ''a''])"
proof -
  obtain r0 T0 r T P where st: "main_start ref_env ref_platform (ref_conf sample_files) (ref_args False) = Inr (r0, T0)"
     "engine_ok ref_env (repoStorage r0)"
    and run: "repo_run ref_env ref_platform r0 T0 r T P"
    and s: "stored ref_env (repoStorage r) = [[generic ''a''] \<mapsto> ref_packet [''a''] ''x'']"
    using ref_repo_stored by blast
  have "db (repoStorage r) \<noteq> None"
    using fun_cong [OF s, of "[generic ''a'']"] by (cases "db (repoStorage r)") (simp_all add: stored_def)
  then obtain b where b: "db (repoStorage r) = Some b" by blast
  from restart_serves [OF st run b ref_main_config [of True], of ref_platform] obtain r1 T1 where
    start: "main_start (reopened ref_env b) ref_platform (ref_conf sample_files) (ref_args True) = Inr (r1, T1)"
    and read: "\<And>j d p rnd. stored ref_env (repoStorage r) (iName j) = Some d \<and> \<not> canBePrefix j \<and> \<not> mustBeFresh j \<Longrightarrow>
        repo_step (reopened ref_env b) ref_platform (InterestAt ReadInterest p j rnd) r1 = Inr (r1, [PutData d])"
    and outer: "\<And>n. \<forall>n. stored ref_env (repoStorage r) n \<noteq> None \<longrightarrow> generic_name n \<Longrightarrow>
        stored ref_env (repoStorage r) n \<noteq> None \<and> n \<noteq> [] \<and>
          (\<forall>m. stored ref_env (repoStorage r) m \<noteq> None \<longrightarrow> \<not> strict_prefix n m) \<Longrightarrow>
          \<exists>p. RegisterPrefix p ReadInterest ReadRegisterFailed \<in> set T1 \<and> prefix p n"
    by blast
  have "\<exists>p. RegisterPrefix p ReadInterest ReadRegisterFailed \<in> set T1 \<and> prefix p [generic ''a'']"
    by (rule outer) (simp_all add: s generic_name_def)
  moreover have "repo_step (reopened ref_env b) ref_platform
      (InterestAt ReadInterest [] (ref_interest [''a''] False) []) r1 = Inr (r1, [PutData (ref_packet [''a''] ''x'')])"
    by (rule read) (simp add: s ref_interest_def)
  ultimately show ?thesis using run b start by blast
qed

end
