(* ===== verification/Repo_Storage.thy ===== *)
theory Repo_Storage
  imports Repo_Properties
begin

text \<open>
  What the events of the whole repository do to the packet store, and what they leave alone.
\<close>

section \<open>One event\<close>

lemma put_statistics:
  "se_put E e d = Inr (e', n, g) \<Longrightarrow> engineStats e' = engineStats e"
  by (auto simp: engine_simps Let_def split: option.splits sum.splits prod.splits if_splits)

lemma step_statistics:
  "repo_step E X ev r = Inr (r', as) \<Longrightarrow> engineStats (repoStorage r') = engineStats (repoStorage r)"
  using put_statistics by (fastforce dest!: step_puts)

section \<open>Properties\<close>

text \<open>
  C7: the frame of the packet store. Whatever happens, a command, a packet, a timeout, a timer,
  a request or a failed registration, the store stays sound, and it changes only when a packet
  arrives from the face or from a stream recorder: then that packet is stored, renamed if so
  configured, under its own name, and no other entry is changed. So no event removes a stored
  name.
\<close>

theorem event_storage_frame:
  assumes "engine_ok E (repoStorage r)" and "repo_step E X ev r = Inr (r', as)"
  shows "engine_ok E (repoStorage r')
    \<and> (stored E (repoStorage r') = stored E (repoStorage r) \<or> (\<exists>d. brings ev d
        \<and> stored E (repoStorage r') = (stored E (repoStorage r))
            (dName (as_stored E (repoStorage r) d) \<mapsto> as_stored E (repoStorage r) d)))
    \<and> (\<forall>n. stored E (repoStorage r) n \<noteq> None \<longrightarrow> stored E (repoStorage r') n \<noteq> None)"
  using step_puts [OF assms(2)]
proof
  assume "repoStorage r' = repoStorage r"
  with assms(1) show ?thesis by simp
next
  assume "\<exists>d n g. brings ev d \<and> se_put E (repoStorage r) d = Inr (repoStorage r', n, g)"
  then obtain d n g where ev: "brings ev d"
    and put: "se_put E (repoStorage r) d = Inr (repoStorage r', n, g)" by blast
  from se.put_inv [OF assms(1) put] se.put_holds [OF assms(1) put] ev show ?thesis by auto
qed

theorem event_storage_frame_witness:
  "\<exists>(r :: ((string, bytes) omap, ptree) repo) r' as.
     repo_step ref_env ref_platform (DataFor (WriteCb (WriteData 0)) (ref_packet [''a''] ''x'')) r = Inr (r', as)
   \<and> stored ref_env (repoStorage r') = [[generic ''a''] \<mapsto> ref_packet [''a''] ''x'']
   \<and> engine_ok ref_env (repoStorage r')"
proof -
  obtain r :: "((string, bytes) omap, ptree) repo" and r' bs where
    r: "engine_ok ref_env (repoStorage r)" "stored ref_env (repoStorage r) = Map.empty"
    and step: "repo_step ref_env ref_platform (DataFor (WriteCb (WriteData 0)) (ref_packet [''a''] ''x'')) r = Inr (r', bs)"
    and s: "stored ref_env (repoStorage r') = [[generic ''a''] \<mapsto> ref_packet [''a''] ''x'']"
    using ref_repo_packet by blast
  from event_storage_frame [OF r(1) step] step s show ?thesis by blast
qed

text \<open>
  C37: the statistics are those of the start. The storage engine documents its number of keys
  as the total number of keys in the storage. In every run, whatever has been stored since, it
  stays the number of packets found by the scan at the start, modulo the width of the counter,
  and so does the payload size; the status document reports them.
\<close>

theorem statistics_stay:
  assumes start: "main_start E X C a = Inr (r0, T0)" and eng: "engine_ok E (repoStorage r0)"
    and run: "repo_run E X r0 T0 r T P"
  shows "getKeysNum (repoStorage r) = Inr (of_nat (card {n. stored E (repoStorage r0) n \<noteq> None}))
    \<and> getPayloadSize (repoStorage r) = getPayloadSize (repoStorage r0)"
proof -
  have "engineStats (repoStorage r) = engineStats (repoStorage r0)"
    using run by (induction rule: repo_run.induct) (simp_all add: step_statistics)
  moreover have "getKeysNum (repoStorage r0) = Inr (of_nat (card {n. stored E (repoStorage r0) n \<noteq> None}))"
    using start
  proof (cases rule: start_storage)
    case (1 cfg e e' ps as)
    then have "engine_ok E e" using eng by (simp add: engine_ok_def)
    then obtain ns where "set ns = {n. stored E e n \<noteq> None}" "distinct ns"
      "getKeysNum e' = Inr (of_nat (length ns))" "stored E e' = stored E e"
      using 1(4,3) by (rule scan_first)
    then show ?thesis using 1(6) distinct_card [of ns] by simp
  qed
  ultimately show ?thesis by (simp add: getKeysNum_def getPayloadSize_def)
qed

theorem statistics_stay_witness:
  "\<exists>(r :: ((string, bytes) omap, ptree) repo).
     stored ref_env (repoStorage r) [generic ''a''] \<noteq> None \<and> getKeysNum (repoStorage r) = Inr 0"
proof -
  obtain r0 T0 and r :: "((string, bytes) omap, ptree) repo" and T P where
    st: "main_start ref_env ref_platform (ref_conf sample_files) (ref_args False) = Inr (r0, T0)"
     "engine_ok ref_env (repoStorage r0)" "stored ref_env (repoStorage r0) = Map.empty"
    and run: "repo_run ref_env ref_platform r0 T0 r T P"
    and s: "stored ref_env (repoStorage r) = [[generic ''a''] \<mapsto> ref_packet [''a''] ''x'']"
    using ref_repo_stored by blast
  from statistics_stay [OF st(1,2) run] st(3) s show ?thesis by (intro exI [of _ r]) simp
qed

end
