(* ===== verification/Repo_Safe.thy ===== *)
theory Repo_Safe
  imports Repo_Properties
begin

text \<open>
  The handlers together do not fail: as long as nobody sends a cancel command or asks for the
  status and no command prefix fails to register, no event that can be delivered makes a
  handler throw.
\<close>

section \<open>The pending calls of the handlers\<close>

fun pattern_part :: "repo_call \<Rightarrow> pending_call multiset" where
  "pattern_part (RTimer (PatternCb cb)) = {#Timer cb#}"
| "pattern_part (RFetch i (PatternCb cb) t) = {#Fetch i cb#}"
| "pattern_part x = {#}"

definition pattern_pending :: "repo_call multiset \<Rightarrow> pending_call multiset" where
  "pattern_pending P = sum_mset (image_mset pattern_part P)"

text \<open>A timer is one of a pattern, and a packet is for a pattern or for an insert command.\<close>

fun routed :: "repo_call \<Rightarrow> bool" where
  "routed (RTimer (WriteCb w)) = False"
| "routed (RFetch i (WriteCb (WriteTimeout pid)) t) = False"
| "routed x = True"

lemma pattern_pending_simps [simp]:
  "pattern_pending {#} = {#}" "pattern_pending (P + Q) = pattern_pending P + pattern_pending Q"
  "pattern_pending (add_mset x P) = pattern_part x + pattern_pending P"
  by (simp_all add: pattern_pending_def)

lemma pattern_pending_minus:
  assumes "x \<in># P"
  shows "pattern_pending (P - {#x#}) = pattern_pending P - pattern_part x"
proof -
  from assms obtain Q where "P = add_mset x Q" by (metis mset_add)
  then show ?thesis by simp
qed

lemma pattern_pending_member: "x \<in># P \<Longrightarrow> y \<in># pattern_part x \<Longrightarrow> y \<in># pattern_pending P"
  by (auto simp: pattern_pending_def)

lemma pattern_calls:
  "pattern_pending (mset (repo_calls (map (map_action PatternCb) as))) = mset (calls as)"
  "x \<in> set (repo_calls (map (map_action PatternCb) as)) \<Longrightarrow> routed x"
  by (induction as rule: calls.induct) auto

lemma write_calls:
  assumes "write_onInterest L pid p i s = (h, as)" and "table_ok s"
  shows "table_ok h" and "pattern_pending (mset (repo_calls (map (map_action WriteCb) as))) = {#}"
    and "\<forall>x \<in> set (repo_calls (map (map_action WriteCb) as)). routed x"
  by (rule command_cases [OF assms(2), where L = L and pid = pid and i = i and p = p],
      use assms in \<open>auto simp: handler_simps\<close>)+

section \<open>The invariant\<close>

definition safe_inv :: "'db env \<Rightarrow> ('db, 't) repo \<Rightarrow> repo_call multiset \<Rightarrow> bool" where
  "safe_inv E r P \<longleftrightarrow> table_ok (writeHandle r)
     \<and> no_cancel_ok E (patternHandle r) (repoStorage r) (pattern_pending P) \<and> (\<forall>x. x \<in># P \<longrightarrow> routed x)"

lemma safe_invD:
  assumes "safe_inv E r P"
  shows "engine_ok E (repoStorage r)" and "table_ok (writeHandle r)"
    and "no_cancel_ok E (patternHandle r) (repoStorage r) (pattern_pending P)"
    and "x \<in># P \<Longrightarrow> routed x"
  using assms by (auto simp: safe_inv_def no_cancel_ok_def)

text \<open>The slots of the signals change neither the handlers nor what is pending.\<close>

lemma safe_relay:
  assumes "relay k f as r = (r', bs)" and "table_ok (writeHandle r)"
    and "no_cancel_ok E (patternHandle r) (repoStorage r)
      (pattern_pending Q + pattern_pending (mset (repo_calls (map (map_action f) as))))"
    and "\<forall>x \<in> set (repo_calls (map (map_action f) as)). routed x" and "\<forall>x. x \<in># Q \<longrightarrow> routed x"
  shows "safe_inv E r' (Q + mset (repo_calls bs))"
  using relay_effect [OF assms(1)] assms(2-) by (auto simp: safe_inv_def)

section \<open>Every event the face can deliver is handled\<close>

text \<open>Neither a cancel command, nor a request for the status, nor the failure of a command prefix.\<close>

fun harmless :: "event \<Rightarrow> bool" where
  "harmless (InterestAt CancelCommand p i rnd) = False"
| "harmless (InterestAt (StatusInterest k) p i rnd) = False"
| "harmless (RegisterFailed CommandRegisterFailed p) = False"
| "harmless ev = True"

text \<open>An event is handled: its step returns, and the invariant holds of what it leaves.\<close>

definition handled_safely ::
  "'db env \<Rightarrow> platform \<Rightarrow> event \<Rightarrow> ('db, 't) repo \<Rightarrow> repo_call multiset \<Rightarrow> bool" where
  "handled_safely E X ev r Q \<longleftrightarrow> (\<exists>r' as. repo_step E X ev r = Inr (r', as)
     \<and> safe_inv E r' (Q + mset (repo_calls as)))"

lemma safe_interest:
  assumes inv: "safe_inv E r P" and "harmless (InterestAt ep p i rnd)"
  shows "handled_safely E X (InterestAt ep p i rnd) r P"
proof (cases ep)
  case InsertCommand
  obtain h as where h: "write_onInterest (lib E) (generateProcessId rnd) p i (writeHandle r) = (h, as)"
    by fastforce
  obtain r' bs where rel: "relay (writeSlots r) WriteCb as (r\<lparr>writeHandle := h\<rparr>) = (r', bs)" by fastforce
  have "safe_inv E r' (P + mset (repo_calls bs))"
    by (rule safe_relay [OF rel]) (use write_calls [OF h] safe_invD [OF inv] in auto)
  with h rel InsertCommand show ?thesis by (auto simp: handled_safely_def repo_simps)
next
  case PatternCommand
  obtain h as where h: "pattern_onInterest (lib E) X (getRenamePrefix (repoStorage r)) p i (patternHandle r) = (h, as)"
    by fastforce
  obtain r' bs where rel: "relay (patternSlots r) PatternCb as (r\<lparr>patternHandle := h\<rparr>) = (r', bs)" by fastforce
  have "safe_inv E r' (P + mset (repo_calls bs))"
    by (rule safe_relay [OF rel])
      (use no_cancel_command [OF safe_invD(3) [OF inv] h] pattern_calls safe_invD(2,4) [OF inv] in auto)
  with h rel PatternCommand show ?thesis by (auto simp: handled_safely_def repo_simps)
next
  case ReadInterest
  obtain as :: "repo_callback action list" where run: "read_onInterest E (repoStorage r) i = Inr as"
    using read_returns [OF safe_invD(1) [OF inv]] by blast
  from read_outcome [OF safe_invD(1) [OF inv] run] have "repo_calls as = []" by auto
  with run ReadInterest inv show ?thesis by (simp add: handled_safely_def repo_simps)
next
  case NoHandler
  with inv show ?thesis by (simp add: handled_safely_def repo_simps)
qed (use assms(2) in auto)

lemma safe_data:
  assumes inv: "safe_inv E r P" and pend: "RFetch i cb t \<in># P"
  shows "handled_safely E X (DataFor cb d) r (P - {#RFetch i cb t#})"
proof (cases cb)
  case (WriteCb w)
  with safe_invD(4) [OF inv pend] obtain pid where w: "w = WriteData pid" by (cases w) auto
  let ?h = "writeHandle r" and ?e = "repoStorage r" and ?Q = "P - {#RFetch i cb t#}"
  have tab: "table_ok ?h" and eng: "engine_ok E ?e" using safe_invD [OF inv] by blast+
  obtain h e as where run: "write_onData E ?e d pid ?h = Inr (h, e, as)"
    and out: "table_ok h" "engine_ok E e" "repo_calls (map (map_action WriteCb) as) = []"
    by (rule data_cases [OF tab eng, where d = d and pid = pid])
      (use tab eng timeout_effect(1) se.put_inv [OF eng] in auto)
  obtain r' bs where rel: "relay (writeSlots r) WriteCb as (r\<lparr>writeHandle := h, repoStorage := e\<rparr>) = (r', bs)"
    by fastforce
  have "pattern_pending ?Q = pattern_pending P"
    using pattern_pending_minus [OF pend] WriteCb by simp
  then have "safe_inv E r' (?Q + mset (repo_calls bs))"
    by (intro safe_relay [OF rel])
      (use out no_cancel_engine [OF safe_invD(3) [OF inv]] safe_invD(4) [OF inv] in \<open>auto dest: in_diffD\<close>)
  with WriteCb w run rel show ?thesis by (auto simp: handled_safely_def repo_simps)
next
  case (PatternCb cb')
  let ?s = "patternHandle r" and ?e = "repoStorage r" and ?Q = "P - {#RFetch i cb t#}"
  have pend': "Fetch i cb' \<in># pattern_pending P"
    by (rule pattern_pending_member [OF pend]) (simp add: PatternCb)
  obtain h e as where run: "pattern_data E ?e cb' d ?s = Inr (h, e, as)"
    using no_cancel_data_returns [OF safe_invD(3) [OF inv] pend', of d] by (auto simp: is_ok_iff)
  obtain r' bs where rel: "relay (patternSlots r) PatternCb as (r\<lparr>patternHandle := h, repoStorage := e\<rparr>) = (r', bs)"
    by fastforce
  have "pattern_pending ?Q = pattern_pending P - {#Fetch i cb'#}"
    using pattern_pending_minus [OF pend] PatternCb by simp
  then have "safe_inv E r' (?Q + mset (repo_calls bs))"
    by (intro safe_relay [OF rel])
      (use no_cancel_data [OF safe_invD(3) [OF inv] pend' run] pattern_calls safe_invD(2,4) [OF inv]
        in \<open>auto dest: in_diffD\<close>)
  with PatternCb run rel show ?thesis by (auto simp: handled_safely_def repo_simps)
qed

lemma safe_timer:
  assumes inv: "safe_inv E r P" and pend: "RTimer cb \<in># P"
  shows "handled_safely E X (TimerFires cb) r (P - {#RTimer cb#})"
proof -
  from safe_invD(4) [OF inv pend] obtain cb' where cb: "cb = PatternCb cb'" by (cases cb) auto
  let ?s = "patternHandle r" and ?Q = "P - {#RTimer cb#}"
  have pend': "Timer cb' \<in># pattern_pending P"
    by (rule pattern_pending_member [OF pend]) (simp add: cb)
  obtain as where run: "pattern_timer (lib E) cb' ?s = Inr as"
    using no_cancel_timer_returns [OF safe_invD(3) [OF inv] pend'] by (auto simp: is_ok_iff)
  obtain r' bs where rel: "relay (patternSlots r) PatternCb as r = (r', bs)" by fastforce
  have "pattern_pending ?Q = pattern_pending P - {#Timer cb'#}"
    using pattern_pending_minus [OF pend] cb by simp
  then have "safe_inv E r' (?Q + mset (repo_calls bs))"
    by (intro safe_relay [OF rel])
      (use no_cancel_timer [OF safe_invD(3) [OF inv] pend' run] pattern_calls safe_invD(2,4) [OF inv]
        in \<open>auto dest: in_diffD\<close>)
  with cb run rel show ?thesis by (auto simp: handled_safely_def repo_simps)
qed

lemma safe_engine: "safe_inv E r P \<Longrightarrow> engine_ok E e \<Longrightarrow> safe_inv E (r\<lparr>repoStorage := e\<rparr>) P"
  by (auto simp: safe_inv_def intro: no_cancel_engine)

lemma recorder_returns:
  assumes "engine_ok E e"
  obtains e' where "recorder_store E f d e = Inr e'" "engine_ok E e'"
proof -
  obtain e' n where p: "se_put E e d = Inr (e', n, dName d)" using se.put_returns [OF assms] by blast
  then have "recorder_store E f d e = Inr e'" by (cases f) (simp add: recorder_store_def)
  then show thesis using se.put_inv [OF assms p] by (rule that)
qed

lemma safe_recorded:
  assumes inv: "safe_inv E r P"
  shows "handled_safely E X (RecorderStores f d) r P"
proof -
  from safe_invD(1) [OF inv] obtain e where "recorder_store E f d (repoStorage r) = Inr e" "engine_ok E e"
    by (rule recorder_returns)
  with safe_engine [OF inv] show ?thesis by (simp add: handled_safely_def repo_simps)
qed

lemma safe_unregistered:
  "safe_inv E r P \<Longrightarrow> harmless (RegisterFailed f p) \<Longrightarrow> handled_safely E X (RegisterFailed f p) r P"
  by (cases f) (simp_all add: handled_safely_def repo_simps read_onRegisterFailed_def)

text \<open>A call that goes away without an event, or with a timeout.\<close>

lemma safe_removed:
  assumes inv: "safe_inv E r P" and pend: "RFetch i cb t \<in># P"
  shows "safe_inv E r (P - {#RFetch i cb t#})"
proof -
  have "no_cancel_ok E (patternHandle r) (repoStorage r) (pattern_pending P - pattern_part (RFetch i cb t))"
    using safe_invD(3) [OF inv] no_cancel_removed by (cases cb) simp_all
  then have "no_cancel_ok E (patternHandle r) (repoStorage r) (pattern_pending (P - {#RFetch i cb t#}))"
    by (simp only: pattern_pending_minus [OF pend])
  with inv show ?thesis by (auto simp: safe_inv_def dest: in_diffD)
qed

lemma safe_timeout: "safe_inv E r P \<Longrightarrow> safe_inv E (timeout_step cb r) P"
  by (auto simp: safe_inv_def timeout_step_def timeout_effect(1) split: repo_callback.split write_callback.split)

lemma safe_step:
  assumes "safe_inv E r P" and "deliverable T P ev Q" and "harmless ev"
  shows "handled_safely E X ev r Q"
  using assms(2)
proof cases
  case (timeout i cb t)
  then have "repo_step E X ev r = Inr (timeout_step t r, [])" by (simp add: repo_step_def)
  with safe_timeout [OF safe_removed [OF assms(1)]] timeout show ?thesis
    by (auto simp: handled_safely_def)
qed (use assms safe_interest safe_data safe_timer safe_recorded safe_unregistered in auto)

lemma start_handlers:
  assumes "main_start E X C a = Inr (r0, T0)"
  shows "patternHandle r0 = pattern_new (lib E) X" and "writeHandle r0 = write_new"
  using assms
  by (cases rule: start_cases; auto split: if_splits dest!: sym [of "(_, _)"] listen_all_effect)+

lemma safe_start:
  assumes "main_start E X C a = Inr (r0, T0)" and "engine_ok E (repoStorage r0)"
  shows "safe_inv E r0 {#}"
  using assms start_handlers [OF assms(1)] by (simp add: safe_inv_def no_cancel_new table_new)

lemma safe_session:
  assumes "session E X r0 T0 evs r T P" and "safe_inv E r0 {#}" and "\<forall>ev \<in> set evs. harmless ev"
  shows "safe_inv E r P"
  using assms
proof (induction rule: session.induct)
  case (event evs r T P ev Q r' as)
  then have "handled_safely E X ev r Q" using safe_step by auto
  with event(3) show ?case by (auto simp: handled_safely_def)
qed (auto intro: safe_removed)

section \<open>Properties\<close>

text \<open>
  C3: as long as no cancel command and no request for the status arrives and no command prefix
  fails to register, nothing that can be delivered makes the repository throw. After any
  sequence of commands, packets, timeouts, timers, lookups, packets of stream recorders and
  failed registrations of data prefixes or of the status prefix, whatever of these comes next,
  however its packet or its parameter looks, is handled without an exception and without
  following a dangling pointer, and the session goes on.
\<close>

theorem repository_keeps_running:
  assumes "main_start E X C a = Inr (r0, T0)" and "engine_ok E (repoStorage r0)"
    and "session E X r0 T0 evs r T P" and "\<forall>ev \<in> set evs. harmless ev"
    and "deliverable T P ev Q" and "harmless ev"
  shows "\<exists>r' as. repo_step E X ev r = Inr (r', as)
    \<and> session E X r0 T0 (evs @ [ev]) r' (T @ as) (Q + mset (repo_calls as))
    \<and> repo_steps E X (evs @ [ev]) (r0, T0) = Inr (r', T @ as)"
proof -
  have "handled_safely E X ev r Q"
    using safe_session [OF assms(3) safe_start [OF assms(1,2)] assms(4)] assms(5,6) by (rule safe_step)
  then obtain r' as where step: "repo_step E X ev r = Inr (r', as)" by (auto simp: handled_safely_def)
  note next_session = session.event [OF assms(3,5) step]
  with step session_steps [OF next_session] show ?thesis by blast
qed

theorem repository_keeps_running_witness:
  "\<exists>(r0 :: ((string, bytes) omap, ptree) repo) T0 r T.
     main_start ref_env ref_platform (ref_conf sample_files) (ref_args False) = Inr (r0, T0)
   \<and> repo_steps ref_env ref_platform [InterestAt InsertCommand ref_prefix (ref_command [''a'']) [],
       DataFor (WriteCb (WriteData 0)) (ref_packet [''a''] ''x'')] (r0, T0) = Inr (r, T)"
proof -
  let ?command = "InterestAt InsertCommand ref_prefix (ref_command [''a'']) []"
    and ?packet = "ref_packet [''a''] ''x''"
  obtain r0 T0 and r :: "((string, bytes) omap, ptree) repo" and bs where
    st: "main_start ref_env ref_platform (ref_conf sample_files) (ref_args False) = Inr (r0, T0)"
      "engine_ok ref_env (repoStorage r0)"
    and step: "served T0 ref_prefix InsertCommand" "prefix ref_prefix (iName (ref_command [''a'']))"
      "repo_step ref_env ref_platform ?command r0 = Inr (r, bs)"
    and out: "RFetch (fetch_interest ref_lib [generic ''a'']) (WriteCb (WriteData 0)) (Some (WriteCb (WriteTimeout 0)))
         \<in> set (repo_calls bs)"
    using ref_insert_accepted by blast
  have first: "session ref_env ref_platform r0 T0 [?command] r (T0 @ bs) (mset (repo_calls bs))"
    using session.event [OF session.start deliverable.interest [OF step(1,2)] step(3)] by simp
  have "prefix (iName (fetch_interest ref_lib [generic ''a''])) (dName ?packet)"
    using ref_packet_laws by (simp add: fetch_interest_def packet_laws_def)
  then obtain Q where "deliverable (T0 @ bs) (mset (repo_calls bs)) (DataFor (WriteCb (WriteData 0)) ?packet) Q"
    using deliverable.data out by (metis set_mset_mset)
  from repository_keeps_running [OF st first _ this] st(1) show ?thesis
    by (simp del: repo_steps.simps) blast
qed

end
