(* ===== verification/Repo_Callbacks.thy ===== *)
theory Repo_Callbacks
  imports Repo_Safe
begin

text \<open>
  Which of the events that can be delivered a handler does not survive, cancel commands and
  requests for the status included: the call of a pattern object that has been destroyed, the
  failure of a command prefix to register, and possibly a request for the status.
\<close>

section \<open>Pending calls are calls of counter patterns\<close>

text \<open>As far as an object still lives at an address, it is a counter pattern that was started.\<close>

definition counts_at :: "pattern_handle \<Rightarrow> addr \<Rightarrow> bool" where
  "counts_at h a \<longleftrightarrow> a < nextAddr h \<and> (\<forall>obj. omap_find (heap h) a = Some obj
     \<longrightarrow> (\<exists>c. obj = CounterObject c \<and> counter c \<noteq> None))"

fun sound_call :: "pattern_handle \<Rightarrow> repo_call \<Rightarrow> bool" where
  "sound_call h (RTimer (PatternCb (CounterDoFetch a))) \<longleftrightarrow> counts_at h a"
| "sound_call h (RFetch i (PatternCb (CounterOnData a)) t) \<longleftrightarrow> counts_at h a"
| "sound_call h (RFetch i (WriteCb (WriteData pid)) t) \<longleftrightarrow> True"
| "sound_call h x \<longleftrightarrow> False"

definition calls_sound :: "pattern_handle \<Rightarrow> repo_call multiset \<Rightarrow> bool" where
  "calls_sound h P \<longleftrightarrow> handle_ok h \<and> (\<forall>x. x \<in># P \<longrightarrow> sound_call h x)"

text \<open>A handle that keeps what it has keeps pending calls sound.\<close>

definition keeps_counters :: "pattern_handle \<Rightarrow> pattern_handle \<Rightarrow> bool" where
  "keeps_counters h h' \<longleftrightarrow> (\<forall>a. counts_at h a \<longrightarrow> counts_at h' a)"

lemma keeps_refl [simp]: "keeps_counters h h"
  by (simp add: keeps_counters_def)

lemma sound_call_kept: "keeps_counters h h' \<Longrightarrow> sound_call h x \<Longrightarrow> sound_call h' x"
  by (induction h x rule: sound_call.induct) (auto simp: keeps_counters_def)

lemma calls_sound_step:
  assumes "calls_sound h P" and "keeps_counters h h'" and "handle_ok h'"
    and "\<forall>x. x \<in># Q \<longrightarrow> x \<in># P \<or> sound_call h' x"
  shows "calls_sound h' Q"
  using assms sound_call_kept unfolding calls_sound_def by blast

lemma calls_sound_removed: "calls_sound h P \<Longrightarrow> calls_sound h (P - {#x#})"
  by (auto simp: calls_sound_def dest: in_diffD)

section \<open>What the operations leave pending\<close>

lemma sound_command:
  assumes ok: "handle_ok s" and step: "pattern_onInterest L X rename p i s = (s', as)"
  shows "handle_ok s' \<and> keeps_counters s s'
    \<and> (\<forall>x \<in> set (repo_calls (map (map_action PatternCb) as)). sound_call s' x)"
proof (cases rule: pattern_command_cases [where L = L and X = X and rename = rename and p = p
      and i = i and s = s])
  case (refused code)
  with step ok show ?thesis by (auto simp: handler_simps)
next
  case (started par pat fp obj obj' bs)
  obtain k where k: "obj = new_pattern k" using started(4) by (auto simp: factory_create_def)
  have s': "s' = s\<lparr>patterns := omap_store fp (nextAddr s) (patterns s),
      heap := omap_store (nextAddr s) obj' (heap s), nextAddr := Suc (nextAddr s)\<rparr>"
    and as: "as = bs @ [EmitInsertion (ofUri L rename @ fp), negativeReply L i 100]"
    using started(6) step by simp_all
  have "\<forall>x \<in> set (repo_calls (map (map_action PatternCb) bs)). sound_call s' x"
    using started(5) unfolding k s'
    by (cases k) (auto simp: counter_fetch_def ndnrtc_fetch_def gobj_fetch_def counts_at_def
        split: option.splits)
  moreover have "keeps_counters s s'"
    unfolding s' by (auto simp: keeps_counters_def counts_at_def om.find_store)
  moreover have "handle_ok s'"
    unfolding s' by (rule handle_ok_start [OF ok started(3)])
  ultimately show ?thesis unfolding as by (auto simp: handler_simps)
qed

lemma sound_cancel:
  assumes ok: "handle_ok s" and step: "onCancelRequest L p i s = Inr (s', as)"
  shows "handle_ok s' \<and> keeps_counters s s' \<and> repo_calls (map (map_action PatternCb) as) = []"
  using ok
proof (cases rule: cancel_command_cases [where L = L and p = p and i = i])
  case (cancelled par a obj obj' bs)
  with step have s': "s' = s\<lparr>patterns := omap_erase (message_name (pName par)) (patterns s),
      heap := omap_erase a (heap s)\<rparr>" and as: "as = bs @ [negativeReply L i 101]"
    by simp_all
  have "repo_calls (map (map_action PatternCb) bs) = []"
    using cancelled(4) by (cases obj) (auto simp: ndnrtc_cancel_def gobj_cancel_def split: option.splits)
  moreover have "keeps_counters s s'"
    unfolding s' by (auto simp: keeps_counters_def counts_at_def om.find_erase)
  moreover have "handle_ok s'"
    unfolding s' by (rule handle_ok_erase [OF ok cancelled(2)])
  ultimately show ?thesis unfolding as by (auto simp: handler_simps)
qed (use step ok in \<open>auto simp: handler_simps\<close>)

lemma sound_timer:
  assumes ok: "handle_ok s" and step: "pattern_timer L cb s = Inr as"
  shows "\<forall>x \<in> set (repo_calls (map (map_action PatternCb) as)). sound_call s x"
  using pattern_timer_outcome [OF step] handle_object(1) [OF ok] by (auto simp: counts_at_def)

lemma sound_packet:
  assumes ok: "handle_ok s" and step: "pattern_data E e cb d s = Inr (s', e', as)"
  shows "handle_ok s' \<and> keeps_counters s s'
    \<and> (\<forall>x \<in> set (repo_calls (map (map_action PatternCb) as)). sound_call s' x)"
proof -
  from step obtain a c c' where cb: "cb = CounterOnData a" "omap_find (heap s) a = Some (CounterObject c)"
    and c': "counter_onData E e a d c = Inr (c', e', as)"
      "s' = s\<lparr>heap := omap_store a (CounterObject c') (heap s)\<rparr>"
    by (auto simp: pattern_data_def split: pattern_callback.splits option.splits pattern_object.splits sum.splits)
  have n: "counter c' \<noteq> None \<and> (as = [] \<or> as = [CallLater 2000 (CounterDoFetch a)])"
    using c'(1) by (auto simp: counter_onData_def split: sum.splits option.splits if_splits)
  have "handle_ok s'" unfolding c'(2) by (rule handle_ok_update [OF ok cb(2)])
  moreover have "keeps_counters s s'"
    using n unfolding c'(2) by (auto simp: keeps_counters_def counts_at_def om.find_store)
  moreover have "counts_at s' a"
    using n handle_object(1) [OF ok cb(2)] unfolding c'(2) by (auto simp: counts_at_def)
  ultimately show ?thesis using n by auto
qed

text \<open>The slots of the signals add no calls.\<close>

lemma sound_relay:
  assumes rel: "relay k f as r1 = (r', bs)" and "calls_sound h P" and "handle_ok (patternHandle r1)"
    and "keeps_counters h (patternHandle r1)"
    and "\<forall>x \<in> set (repo_calls (map (map_action f) as)). sound_call (patternHandle r1) x"
    and "\<forall>x. x \<in># Q \<longrightarrow> x \<in># P"
  shows "calls_sound (patternHandle r') (Q + mset (repo_calls bs))"
proof -
  from relay_effect [OF rel] obtain ps where "r' = add_data_prefixes ps r1"
    "repo_calls bs = repo_calls (map (map_action f) as)" by blast
  with assms show ?thesis by (intro calls_sound_step [OF assms(2)]) auto
qed

lemma sound_write_calls:
  assumes "write_onInterest L pid p i s = (s', as)" and "table_ok s"
  shows "\<forall>x \<in> set (repo_calls (map (map_action WriteCb) as)). sound_call h x"
  by (rule command_cases [OF assms(2), where L = L and pid = pid and i = i and p = p])
    (use assms in \<open>auto simp: handler_simps\<close>)

section \<open>Every step keeps pending calls sound\<close>

lemma sound_interest:
  assumes inv: "calls_sound (patternHandle r) P" and tab: "table_ok (writeHandle r)"
    and step: "interest_step E X ep p i rnd r = Inr (r', bs)"
  shows "calls_sound (patternHandle r') (P + mset (repo_calls bs))"
proof (cases ep)
  case InsertCommand
  obtain h as where h: "write_onInterest (lib E) (generateProcessId rnd) p i (writeHandle r) = (h, as)"
    by fastforce
  with step InsertCommand have "relay (writeSlots r) WriteCb as (r\<lparr>writeHandle := h\<rparr>) = (r', bs)"
    by (simp add: interest_step_def relay_write_def)
  then show ?thesis
    by (rule sound_relay [OF _ inv]) (use inv sound_write_calls [OF h tab] in \<open>auto simp: calls_sound_def\<close>)
next
  case PatternCommand
  obtain h as where h: "pattern_onInterest (lib E) X (getRenamePrefix (repoStorage r)) p i (patternHandle r) = (h, as)"
    by fastforce
  with step PatternCommand have "relay (patternSlots r) PatternCb as (r\<lparr>patternHandle := h\<rparr>) = (r', bs)"
    by (simp add: interest_step_def relay_pattern_def)
  then show ?thesis
    by (rule sound_relay [OF _ inv]) (use sound_command [OF _ h] inv in \<open>auto simp: calls_sound_def\<close>)
next
  case CancelCommand
  with step obtain h as where h: "onCancelRequest (lib E) p i (patternHandle r) = Inr (h, as)"
    and "relay (patternSlots r) PatternCb as (r\<lparr>patternHandle := h\<rparr>) = (r', bs)"
    by (auto simp: interest_step_def relay_pattern_def rbind_Inr)
  then show ?thesis
    by (intro sound_relay [OF _ inv]) (use sound_cancel [OF _ h] inv in \<open>auto simp: calls_sound_def\<close>)
next
  case ReadInterest
  with step have "r' = r" "read_onInterest E (repoStorage r) i = Inr bs"
    by (auto simp: interest_step_def rbind_Inr)
  moreover from this have "repo_calls bs = []"
    by (auto simp: read_onInterest_def split: if_splits sum.splits option.splits)
  ultimately show ?thesis using inv by simp
qed (use inv step in \<open>auto simp: interest_step_def rbind_Inr split: option.splits\<close>)

lemma sound_data:
  assumes inv: "calls_sound (patternHandle r) P" and eng: "engine_ok E (repoStorage r)"
    and tab: "table_ok (writeHandle r)" and step: "data_step E cb d r = Inr (r', bs)"
  shows "calls_sound (patternHandle r') (P - {#x#} + mset (repo_calls bs))"
proof (cases cb)
  case (WriteCb w)
  with step obtain pid h e as where w: "write_onData E (repoStorage r) d pid (writeHandle r) = Inr (h, e, as)"
    and rel: "relay (writeSlots r) WriteCb as (r\<lparr>writeHandle := h, repoStorage := e\<rparr>) = (r', bs)"
    by (cases w) (auto simp: data_step_def relay_write_def rbind_Inr)
  from write_data_outcome [OF w] have "repo_calls (map (map_action WriteCb) as) = []" by auto
  then show ?thesis
    by (intro sound_relay [OF rel inv]) (use inv in \<open>auto simp: calls_sound_def dest: in_diffD\<close>)
next
  case (PatternCb cb')
  with step obtain h e as where h: "pattern_data E (repoStorage r) cb' d (patternHandle r) = Inr (h, e, as)"
    and rel: "relay (patternSlots r) PatternCb as (r\<lparr>patternHandle := h, repoStorage := e\<rparr>) = (r', bs)"
    by (auto simp: data_step_def relay_pattern_def rbind_Inr)
  then show ?thesis
    by (intro sound_relay [OF rel inv])
      (use sound_packet [OF _ h] inv in \<open>auto simp: calls_sound_def dest: in_diffD\<close>)
qed

lemma sound_timer_step:
  assumes inv: "calls_sound (patternHandle r) P" and step: "timer_step E cb r = Inr (r', bs)"
  shows "calls_sound (patternHandle r') (P - {#x#} + mset (repo_calls bs))"
proof -
  from step obtain cb' as where w: "pattern_timer (lib E) cb' (patternHandle r) = Inr as"
    and rel: "relay (patternSlots r) PatternCb as r = (r', bs)"
    by (cases cb) (auto simp: timer_step_def relay_pattern_def rbind_Inr)
  then show ?thesis
    by (intro sound_relay [OF rel inv])
      (use sound_timer [OF _ w] inv in \<open>auto simp: calls_sound_def dest: in_diffD\<close>)
qed

lemma sound_step:
  assumes inv: "calls_sound (patternHandle r) P" and eng: "engine_ok E (repoStorage r)"
    and tab: "table_ok (writeHandle r)" and del: "deliverable T P ev Q"
    and step: "repo_step E X ev r = Inr (r', bs)"
  shows "calls_sound (patternHandle r') (Q + mset (repo_calls bs))"
  using del
proof cases
  case (timeout i cb t)
  with step have "patternHandle r' = patternHandle r" "bs = []"
    by (auto simp: repo_step_def timeout_step_def split: repo_callback.split write_callback.split)
  with timeout calls_sound_removed [OF inv] show ?thesis by simp
next
  case (unregistered p ep f)
  with step inv show ?thesis
    by (auto simp: repo_step_def register_failed_step_def read_onRegisterFailed_def
        split: registration_failed.splits)
next
  case (recorded stream f d)
  with step inv show ?thesis by (auto simp: repo_step_def recorder_step_def rbind_Inr)
next
  case (interest p ep i rnd)
  with step sound_interest [OF inv tab] show ?thesis by (auto simp: repo_step_def)
next
  case (data i cb t d)
  show ?thesis
    unfolding data(2) by (rule sound_data [OF inv eng tab]) (use step data(1) in \<open>simp add: repo_step_def\<close>)
next
  case (timer cb)
  show ?thesis
    unfolding timer(2) by (rule sound_timer_step [OF inv]) (use step timer(1) in \<open>simp add: repo_step_def\<close>)
qed

section \<open>Which events are not handled\<close>

text \<open>An event that breaks the repository whatever else is the case.\<close>

fun breaks :: "event \<Rightarrow> ('db, 't) repo \<Rightarrow> bool" where
  "breaks (TimerFires (PatternCb cb)) r \<longleftrightarrow> omap_find (heap (patternHandle r)) (address cb) = None"
| "breaks (DataFor (PatternCb cb) d) r \<longleftrightarrow> omap_find (heap (patternHandle r)) (address cb) = None"
| "breaks (RegisterFailed CommandRegisterFailed p) r \<longleftrightarrow> True"
| "breaks ev r \<longleftrightarrow> False"

fun status_request :: "event \<Rightarrow> bool" where
  "status_request (InterestAt (StatusInterest k) p i rnd) \<longleftrightarrow> True"
| "status_request ev \<longleftrightarrow> False"

lemma breaks_fails: "breaks ev r \<Longrightarrow> \<not> is_ok (repo_step E X ev r)"
  by (induction ev r rule: breaks.induct)
    (auto simp: repo_simps pattern_timer_def pattern_data_def split: pattern_callback.splits)

lemma pattern_event_returns:
  assumes inv: "calls_sound (patternHandle r) P" and eng: "engine_ok E (repoStorage r)"
    and alive: "omap_find (heap (patternHandle r)) (address cb) = Some obj"
  shows "RTimer (PatternCb cb) \<in># P \<Longrightarrow> is_ok (repo_step E X (TimerFires (PatternCb cb)) r)"
    and "RFetch i (PatternCb cb) t \<in># P \<Longrightarrow> is_ok (repo_step E X (DataFor (PatternCb cb) d) r)"
proof -
  assume "RTimer (PatternCb cb) \<in># P"
  with inv have "sound_call (patternHandle r) (RTimer (PatternCb cb))" by (simp add: calls_sound_def)
  with alive obtain a c where "cb = CounterDoFetch a" "omap_find (heap (patternHandle r)) a = Some (CounterObject c)"
    "counter c \<noteq> None"
    by (cases cb) (auto simp: counts_at_def)
  then show "is_ok (repo_step E X (TimerFires (PatternCb cb)) r)"
    by (auto simp: repo_simps pattern_timer_def counter_doFetch_def)
next
  assume "RFetch i (PatternCb cb) t \<in># P"
  with inv have "sound_call (patternHandle r) (RFetch i (PatternCb cb) t)" by (simp add: calls_sound_def)
  with alive obtain a c n where "cb = CounterOnData a" "omap_find (heap (patternHandle r)) a = Some (CounterObject c)"
    "counter c = Some n"
    by (cases cb) (auto simp: counts_at_def)
  moreover obtain e n where "se_put E (repoStorage r) d = Inr (e, n, dName d)"
    using se.put_returns [OF eng] by blast
  ultimately show "is_ok (repo_step E X (DataFor (PatternCb cb) d) r)"
    by (auto simp: repo_simps pattern_data_def counter_onData_def)
qed

lemma interest_returns:
  assumes ok: "handle_ok (patternHandle r)" and eng: "engine_ok E (repoStorage r)"
    and "\<not> status_request (InterestAt ep p i rnd)"
  shows "is_ok (repo_step E X (InterestAt ep p i rnd) r)"
proof (cases ep)
  case CancelCommand
  from ok have "\<exists>s' as. onCancelRequest (lib E) p i (patternHandle r) = Inr (s', as)"
    using onCancelRequest_answers by blast
  with CancelCommand show ?thesis by (auto simp: repo_simps)
next
  case ReadInterest
  obtain as :: "repo_callback action list" where "read_onInterest E (repoStorage r) i = Inr as"
    using read_returns [OF eng] by blast
  with ReadInterest show ?thesis by (simp add: repo_simps)
qed (use assms(3) in \<open>auto simp: repo_simps split: prod.splits\<close>)

lemma step_returns:
  assumes inv: "calls_sound (patternHandle r) P" and eng: "engine_ok E (repoStorage r)"
    and tab: "table_ok (writeHandle r)" and del: "deliverable T P ev Q"
    and "\<not> breaks ev r" and "\<not> status_request ev"
  shows "is_ok (repo_step E X ev r)"
  using del
proof cases
  case (interest p ep i rnd)
  with inv assms(6) show ?thesis by (auto simp: calls_sound_def intro: interest_returns [OF _ eng])
next
  case (data i cb t d)
  show ?thesis
  proof (cases cb)
    case (WriteCb w)
    with inv data(3) obtain pid where "w = WriteData pid"
      by (cases w) (auto simp: calls_sound_def)
    moreover have "is_ok (write_onData E (repoStorage r) d pid (writeHandle r))"
      by (rule data_cases [OF tab eng, where d = d and pid = pid]) simp_all
    ultimately show ?thesis using data(1) WriteCb by (auto simp: repo_simps is_ok_iff)
  next
    case (PatternCb cb')
    with assms(5) data(1) obtain obj where "omap_find (heap (patternHandle r)) (address cb') = Some obj" by auto
    from pattern_event_returns(2) [OF inv eng this] data PatternCb show ?thesis by simp
  qed
next
  case (timer cb)
  show ?thesis
  proof (cases cb)
    case (WriteCb w)
    with inv timer(3) show ?thesis by (auto simp: calls_sound_def)
  next
    case (PatternCb cb')
    with assms(5) timer(1) obtain obj where "omap_find (heap (patternHandle r)) (address cb') = Some obj" by auto
    from pattern_event_returns(1) [OF inv eng this] timer PatternCb show ?thesis by simp
  qed
next
  case (recorded stream f d)
  from eng obtain e where "recorder_store E f d (repoStorage r) = Inr e" by (rule recorder_returns)
  with recorded(1) show ?thesis by (simp add: repo_simps)
next
  case (unregistered p ep f)
  with assms(5) show ?thesis by (cases f) (simp_all add: repo_simps)
qed (simp_all add: repo_simps)

lemma calls_sound_new: "calls_sound (pattern_new L X) {#}"
  by (simp add: calls_sound_def handle_new)

text \<open>In every session, cancel commands included.\<close>

lemma session_sound:
  assumes "session E X r0 T0 evs r T P" and inv: "repo_inv E base r0 T0 {#}" and L: "packet_laws (lib E)"
    and "calls_sound (patternHandle r0) {#}"
  shows "calls_sound (patternHandle r) P"
  using assms(1)
proof (induction rule: session.induct)
  case (event evs r T P ev Q r' as)
  have "repo_inv E UNIV r T P" using session_run [OF event(1)] inv L by (rule repo_run_invariant)
  with event sound_step show ?case using repo_invD(1,7) by blast
qed (use assms(4) calls_sound_removed in auto)

end
