(* ===== verification/Content_Service.thy ===== *)
theory Content_Service
  imports Repo_Callbacks
begin

text \<open>
  What the repository promises, without how: a service that keeps packets, knows under which
  prefixes it is reachable, which packets it waits for, and which fetch prefixes are active.
  The runs of the repository are runs of this service, with the same observable actions.
\<close>

section \<open>The service\<close>

record service =
  contents :: "name \<Rightarrow> data option"
  announced :: "name set"
  awaited :: "64 word set"
  activePrefixes :: "name set"

text \<open>
  Its operations. A packet that arrives is written or lost, when the storage refuses it. A fetch
  command begins a fetch, or is refused because the prefix is active (\<open>Duplicate\<close>) or the pattern
  is not known (\<open>Unsupported\<close>); a cancel command stops it, unless it is not active (\<open>Absent\<close>).
\<close>

datatype service_op =
    Lookup interest "data option"
  | Await "64 word"
  | GiveUp "64 word"
  | Deliver "64 word" data
  | Lose "64 word"
  | Late "64 word"
  | Begin name
  | Duplicate name
  | Unsupported name
  | Stop name
  | Absent name
  | Request name
  | Collect data
  | Record data
  | Ignore

definition announce :: "name \<Rightarrow> name set \<Rightarrow> name set" where
  "announce n A = (if \<exists>p \<in> A. prefix p n then A else insert n A)"

text \<open>
  When an operation may happen. An interest is answered with a packet that is stored and fits;
  without an answer it must be fresh, or asks for a prefix, or for a name that is not stored. A
  packet is requested and collected only under an active fetch prefix.
\<close>

fun may :: "service \<Rightarrow> service_op \<Rightarrow> bool" where
  "may S (Lookup i (Some d)) \<longleftrightarrow> contents S (dName d) = Some d \<and> \<not> mustBeFresh i
     \<and> prefix (butlast (iName i)) (dName d) \<and> (\<not> canBePrefix i \<longrightarrow> dName d = iName i)"
| "may S (Lookup i None) \<longleftrightarrow> mustBeFresh i \<or> canBePrefix i \<or> contents S (iName i) = None"
| "may S (Deliver pid d) \<longleftrightarrow> pid \<in> awaited S"
| "may S (Lose pid) \<longleftrightarrow> pid \<in> awaited S"
| "may S (Late pid) \<longleftrightarrow> pid \<notin> awaited S"
| "may S (Begin fp) \<longleftrightarrow> fp \<notin> activePrefixes S"
| "may S (Duplicate fp) \<longleftrightarrow> fp \<in> activePrefixes S"
| "may S (Unsupported fp) \<longleftrightarrow> fp \<notin> activePrefixes S"
| "may S (Stop fp) \<longleftrightarrow> fp \<in> activePrefixes S"
| "may S (Absent fp) \<longleftrightarrow> fp \<notin> activePrefixes S"
| "may S (Request n) \<longleftrightarrow> (\<exists>fp \<in> activePrefixes S. prefix fp n)"
| "may S (Collect d) \<longleftrightarrow> (\<exists>fp \<in> activePrefixes S. prefix fp (dName d))"
| "may S op \<longleftrightarrow> True"

text \<open>
  What it does. \<open>ren\<close> is the packet that is kept of a packet, and \<open>rname\<close> the name that is
  announced for a fetch prefix. A delivery that is lost announces the root.
\<close>

fun becomes :: "(data \<Rightarrow> data) \<Rightarrow> (name \<Rightarrow> name) \<Rightarrow> service_op \<Rightarrow> service \<Rightarrow> service" where
  "becomes ren rname (Await pid) S = S\<lparr>awaited := insert pid (awaited S)\<rparr>"
| "becomes ren rname (GiveUp pid) S = S\<lparr>awaited := awaited S - {pid}\<rparr>"
| "becomes ren rname (Deliver pid d) S = S\<lparr>awaited := awaited S - {pid},
     contents := (contents S)(dName (ren d) \<mapsto> ren d), announced := announce (dName (ren d)) (announced S)\<rparr>"
| "becomes ren rname (Lose pid) S = S\<lparr>awaited := awaited S - {pid}, announced := announce [] (announced S)\<rparr>"
| "becomes ren rname (Begin fp) S = S\<lparr>activePrefixes := insert fp (activePrefixes S),
     announced := announce (rname fp) (announced S)\<rparr>"
| "becomes ren rname (Stop fp) S = S\<lparr>activePrefixes := activePrefixes S - {fp}\<rparr>"
| "becomes ren rname (Collect d) S = S\<lparr>contents := (contents S)(dName (ren d) \<mapsto> ren d)\<rparr>"
| "becomes ren rname (Record d) S = S\<lparr>contents := (contents S)(dName (ren d) \<mapsto> ren d)\<rparr>"
| "becomes ren rname op S = S"

section \<open>Which operation an event stands for, and what it shows\<close>

text \<open>
  The operation, its arguments and what is sent follow from the command. A command is answered
  by one packet with its status, whatever becomes of it; an insert command that can be read
  also sends the interest for the very packet it names, and a fetch command that can be read is
  about the two names it holds, the pattern and the fetch prefix. \<open>K\<close> is the set of the patterns
  that are known. Nothing else answers, but a lookup; a timer requests at most one packet.
\<close>

fun exhibits :: "ndn_lib \<Rightarrow> name set \<Rightarrow> event \<Rightarrow> service_op \<Rightarrow> repo_callback action list \<Rightarrow> bool" where
  "exhibits L K (InterestAt ep p i rnd) op as \<longleftrightarrow>
     (case ep of
        InsertCommand \<Rightarrow>
          (case extractParameter L i p of
             Inl _ \<Rightarrow> op = Ignore \<and> sent as = [answer L i (status_only 403)] \<and> expressed as = []
           | Inr par \<Rightarrow> op = Await (generateProcessId rnd)
               \<and> sent as = [answer L i ((pending_response (generateProcessId rnd))\<lparr>statusCode := 100\<rparr>)]
               \<and> expressed as = [(fetch_interest L (message_name (pName par)),
                    WriteCb (WriteData (generateProcessId rnd)), Some (WriteCb (WriteTimeout (generateProcessId rnd))))])
      | PatternCommand \<Rightarrow> expressed as = [] \<and>
          (case extractParameter L i p of
             Inl _ \<Rightarrow> op = Ignore \<and> sent as = [answer L i (status_only 403)]
           | Inr par \<Rightarrow>
               (case decodeNames L (pName par) of
                  None \<Rightarrow> op = Ignore \<and> sent as = [answer L i (status_only 403)]
                | Some (pat, fp) \<Rightarrow>
                    op = Duplicate fp \<and> sent as = [answer L i (status_only 402)]
                    \<or> op = Unsupported fp \<and> pat \<notin> K \<and> sent as = [answer L i (status_only 404)]
                    \<or> op = Begin fp \<and> pat \<in> K \<and> sent as = [answer L i (status_only 100)]))
      | CancelCommand \<Rightarrow> expressed as = [] \<and>
          (case extractParameter L i p of
             Inl _ \<Rightarrow> op = Ignore \<and> sent as = [answer L i (status_only 403)]
           | Inr par \<Rightarrow>
               op = Absent (message_name (pName par)) \<and> sent as = [answer L i (status_only 402)]
               \<or> op = Stop (message_name (pName par)) \<and> sent as = [answer L i (status_only 101)])
      | ReadInterest \<Rightarrow>
          op = Lookup i None \<and> as = [] \<or> (\<exists>d. op = Lookup i (Some d) \<and> as = [PutData d])
      | _ \<Rightarrow> op = Ignore \<and> sent as = [] \<and> expressed as = [])"
| "exhibits L K (DataFor (WriteCb (WriteData pid)) d) op as \<longleftrightarrow>
     (op = Deliver pid d \<or> op = Lose pid \<or> op = Late pid) \<and> sent as = [] \<and> expressed as = []"
| "exhibits L K (DataFor (PatternCb cb) d) op as \<longleftrightarrow>
     (op = Collect d \<or> op = Ignore) \<and> sent as = [] \<and> expressed as = []"
| "exhibits L K (TimeoutOf (WriteCb (WriteTimeout pid))) op as \<longleftrightarrow> op = GiveUp pid \<and> as = []"
| "exhibits L K (TimerFires cb) op as \<longleftrightarrow> sent as = []
     \<and> (op = Ignore \<and> expressed as = [] \<or> (\<exists>j cb'. op = Request (iName j) \<and> expressed as = [(j, cb', None)]))"
| "exhibits L K (RecorderStores f d) op as \<longleftrightarrow> (op = Record d \<or> op = Ignore) \<and> as = []"
| "exhibits L K (RegisterFailed f p) op as \<longleftrightarrow> op = Ignore
     \<and> as = (if f = ReadRegisterFailed then [ShutdownFace] else [])"
| "exhibits L K ev op as \<longleftrightarrow> op = Ignore \<and> as = []"

definition registered :: "'c action list \<Rightarrow> name set" where
  "registered as = {p. RegisterPrefix p ReadInterest ReadRegisterFailed \<in> set as}"

text \<open>
  The traces of the service: each operation is allowed, shows what it must, and registers with
  the face exactly the prefixes that it announces.
\<close>

inductive service_trace ::
  "ndn_lib \<Rightarrow> name set \<Rightarrow> (data \<Rightarrow> data) \<Rightarrow> (name \<Rightarrow> name) \<Rightarrow> service \<Rightarrow> event list \<Rightarrow> repo_callback action list
     \<Rightarrow> service \<Rightarrow> bool"
  for L :: ndn_lib and K :: "name set" and ren :: "data \<Rightarrow> data" and rname :: "name \<Rightarrow> name" and S0 :: service where
  start: "service_trace L K ren rname S0 [] [] S0"
| step: "service_trace L K ren rname S0 evs as S \<Longrightarrow> may S op \<Longrightarrow> exhibits L K ev op bs \<Longrightarrow>
    registered bs = announced (becomes ren rname op S) - announced S \<Longrightarrow>
    service_trace L K ren rname S0 (evs @ [ev]) (as @ bs) (becomes ren rname op S)"

section \<open>What holds of the service\<close>

text \<open>Contents and announcements only grow, and what is written can be reached.\<close>

lemma announce_grows: "A \<subseteq> announce n A"
  by (auto simp: announce_def)

lemma announce_covers [simp]:
  "(\<exists>p \<in> announce n A. prefix p m) \<longleftrightarrow> (\<exists>p \<in> A. prefix p m) \<or> prefix n m"
  by (auto simp: announce_def dest: prefix_order.trans)

lemma becomes_grows:
  "announced S \<subseteq> announced (becomes ren rname op S)"
  "contents S n \<noteq> None \<Longrightarrow> contents (becomes ren rname op S) n \<noteq> None"
  using announce_grows by (cases op; auto)+

text \<open>
  Every stored packet but those of the start and those of a recorder, and every active fetch
  prefix, is reachable.
\<close>

definition reachable_in :: "(name \<Rightarrow> name) \<Rightarrow> name set \<Rightarrow> service \<Rightarrow> bool" where
  "reachable_in rname base S \<longleftrightarrow>
     (\<forall>n. contents S n \<noteq> None \<longrightarrow> n \<in> base \<or> (\<exists>p \<in> announced S. prefix p n))
   \<and> (\<forall>fp \<in> activePrefixes S. \<exists>p \<in> announced S. prefix p (rname fp))"

lemma reachable_mono: "reachable_in rname base S \<Longrightarrow> base \<subseteq> base' \<Longrightarrow> reachable_in rname base' S"
  unfolding reachable_in_def by blast

lemma becomes_reachable:
  assumes inv: "reachable_in rname base S" and may: "may S op"
    and names: "\<And>d. dName (ren d) = rname (dName d)" "\<And>n m. prefix n m \<Longrightarrow> prefix (rname n) (rname m)"
    and rec: "\<And>d. op = Record d \<Longrightarrow> rname (dName d) \<in> base"
  shows "reachable_in rname base (becomes ren rname op S)"
proof (cases op)
  case (Collect d)
  with may obtain fp where "fp \<in> activePrefixes S" "prefix fp (dName d)" by auto
  with inv names obtain p where "p \<in> announced S" "prefix p (dName (ren d))"
    unfolding reachable_in_def by (metis prefix_order.trans)
  with inv Collect show ?thesis by (auto simp: reachable_in_def)
next
  case (Record d)
  with inv rec names(1) show ?thesis by (auto simp: reachable_in_def)
qed (use inv in \<open>auto simp: reachable_in_def\<close>)

lemma exhibits_record: "exhibits L K ev (Record d) as \<Longrightarrow> \<exists>f. ev = RecorderStores f d"
  by (induction L K ev "Record d" as rule: exhibits.induct)
    (auto split: endpoint.splits sum.splits option.splits prod.splits)

theorem service_reachable:
  assumes "service_trace L K ren rname S0 evs as S" and "reachable_in rname base S0"
    and names: "\<And>d. dName (ren d) = rname (dName d)" "\<And>n m. prefix n m \<Longrightarrow> prefix (rname n) (rname m)"
  shows "reachable_in rname (base \<union> recorded rname evs) S"
  using assms(1,2)
proof (induction rule: service_trace.induct)
  case start
  then show ?case by (simp add: recorded_def)
next
  case (step evs as S op ev bs)
  let ?base = "base \<union> recorded rname (evs @ [ev])"
  have "base \<union> recorded rname evs \<subseteq> ?base" by (auto simp: recorded_def)
  with step have inv: "reachable_in rname ?base S" by (blast intro: reachable_mono)
  have "rname (dName d) \<in> ?base" if "op = Record d" for d
    using exhibits_record [of L K ev d bs] step(3) that by (auto simp: recorded_def)
  with becomes_reachable [OF inv step(2) names] show ?case by blast
qed

end
