(* ===== verification/Service_Steps.thy ===== *)
theory Service_Steps
  imports Content_Service Repo_Storage
begin

text \<open>
  The abstraction from the repository to the content service of \<open>Content_Service\<close>: the state of
  the service is read off the handlers and the storage, and each event is one operation.
\<close>

section \<open>The abstraction\<close>

definition service_of :: "'db env \<Rightarrow> ('db, 't) repo \<Rightarrow> service" where
  "service_of E r = \<lparr>contents = stored E (repoStorage r),
     announced = set (dataPrefixes (repoConfig r)), awaited = processes (writeHandle r),
     activePrefixes = dom (omap_find (patterns (patternHandle r)))\<rparr>"

text \<open>
  What is needed of the pattern handle besides the invariant of a run: an object has the fetch
  prefix of its entry, and a pending fetch is below the prefix of its object.
\<close>

definition fetches_below :: "pattern_handle \<Rightarrow> repo_call multiset \<Rightarrow> bool" where
  "fetches_below h P \<longleftrightarrow> handle_ok h
     \<and> (\<forall>n a c. omap_find (patterns h) n = Some a \<and> omap_find (heap h) a = Some (CounterObject c)
          \<longrightarrow> fetchPrefix c = n)
     \<and> (\<forall>i cb t. RFetch i (PatternCb cb) t \<in># P \<longrightarrow> address cb < nextAddr h
          \<and> (\<forall>c. omap_find (heap h) (address cb) = Some (CounterObject c) \<longrightarrow> prefix (fetchPrefix c) (iName i)))"

lemma fetches_belowD:
  assumes "fetches_below h P"
  shows "handle_ok h"
    and "omap_find (patterns h) n = Some a \<Longrightarrow> omap_find (heap h) a = Some (CounterObject c) \<Longrightarrow> fetchPrefix c = n"
    and "RFetch i (PatternCb cb) t \<in># P \<Longrightarrow> address cb < nextAddr h"
    and "RFetch i (PatternCb cb) t \<in># P \<Longrightarrow> omap_find (heap h) (address cb) = Some (CounterObject c)
        \<Longrightarrow> prefix (fetchPrefix c) (iName i)"
  using assms unfolding fetches_below_def by blast+

lemma fetches_below_mono:
  assumes "fetches_below h P" and "\<And>i cb t. RFetch i (PatternCb cb) t \<in># Q \<Longrightarrow> RFetch i (PatternCb cb) t \<in># P"
  shows "fetches_below h Q"
  using assms unfolding fetches_below_def by blast

lemma fetches_below_removed: "fetches_below h P \<Longrightarrow> fetches_below h (P - {#x#})"
  by (erule fetches_below_mono) (rule in_diffD)

section \<open>The slots of the signals\<close>

lemma registered_simps [simp]:
  "registered [] = {}" "registered (as @ bs) = registered as \<union> registered bs"
  "registered (RegisterPrefix p ReadInterest ReadRegisterFailed # as) = insert p (registered as)"
  "registered (map (\<lambda>p. RegisterPrefix p ReadInterest ReadRegisterFailed) ps) = set ps"
  by (auto simp: registered_def)

lemma registered_other: "\<forall>p. a \<noteq> RegisterPrefix p ReadInterest ReadRegisterFailed \<Longrightarrow> registered (a # as) = registered as"
  by (auto simp: registered_def)

lemma sent_registers [simp]:
  "sent (map (\<lambda>p. RegisterPrefix p ep f) ps) = []" "expressed (map (\<lambda>p. RegisterPrefix p ep f) ps) = []"
  by (induction ps) simp_all

lemma emit_announces:
  assumes "emit k n r = (r', bs)" and "0 < k"
  shows "\<exists>ps. r' = add_data_prefixes ps r
     \<and> set (dataPrefixes (repoConfig r')) = announce n (set (dataPrefixes (repoConfig r)))
     \<and> registered bs = announce n (set (dataPrefixes (repoConfig r))) - set (dataPrefixes (repoConfig r))
     \<and> sent bs = [] \<and> expressed bs = []"
proof -
  obtain j where "k = Suc j" using assms(2) by (cases k) simp_all
  with assms(1) have "onDataInsertion n r = (r', bs)" by (simp add: emit_once del: emit.simps)
  then show ?thesis
    by (intro exI [of _ "if covered r n then [] else [n]"])
      (auto simp: onDataInsertion_cases announce_def covered_def split: if_splits)
qed

fun via :: "('c \<Rightarrow> 'd) \<Rightarrow> interest \<times> 'c \<times> 'c option \<Rightarrow> interest \<times> 'd \<times> 'd option" where
  "via f (i, c, t) = (i, f c, map_option f t)"

lemma relay_announces:
  assumes "relay k f as r = (r', bs)" and "0 < k" and "registered as = {}"
  shows "\<exists>ps. r' = add_data_prefixes ps r
     \<and> set (dataPrefixes (repoConfig r')) = fold announce (signalled as) (set (dataPrefixes (repoConfig r)))
     \<and> registered bs = fold announce (signalled as) (set (dataPrefixes (repoConfig r))) - set (dataPrefixes (repoConfig r))
     \<and> sent bs = sent as \<and> expressed bs = map (via f) (expressed as)"
  using assms(1,3)
proof (induction as arbitrary: r r' bs)
  case Nil
  then show ?case by (intro exI [of _ "[]"]) simp
next
  case (Cons a as)
  have reg: "registered as = {}" using Cons.prems(2) by (auto simp: registered_def)
  let ?D = "\<lambda>r. set (dataPrefixes (repoConfig r))"
  have grow: "A \<subseteq> fold announce ns A" for ns and A :: "name set"
    by (induction ns arbitrary: A) (use announce_grows in fastforce)+
  show ?case
  proof (cases "\<exists>n. a = EmitInsertion n")
    case True
    then obtain n where a: "a = EmitInsertion n" by blast
    obtain r1 b1 where e: "emit k n r = (r1, b1)" by fastforce
    obtain r2 b2 where rel: "relay k f as r1 = (r2, b2)" by fastforce
    from Cons.prems(1) a e rel have res: "r' = r2" "bs = b1 @ b2" by simp_all
    obtain qs where qs: "r1 = add_data_prefixes qs r" "?D r1 = announce n (?D r)"
      "registered b1 = announce n (?D r) - ?D r" "sent b1 = []" "expressed b1 = []"
      using emit_announces [OF e assms(2)] by blast
    obtain ps where ps: "r2 = add_data_prefixes ps r1" "?D r2 = fold announce (signalled as) (?D r1)"
      "registered b2 = fold announce (signalled as) (?D r1) - ?D r1" "sent b2 = sent as"
      "expressed b2 = map (via f) (expressed as)"
      using Cons.IH [OF rel reg] by blast
    have "registered bs = fold announce (signalled as) (announce n (?D r)) - ?D r"
      using res qs ps grow [of "announce n (?D r)" "signalled as"] announce_grows [of "?D r" n] by auto
    with a res qs ps show ?thesis by (intro exI [of _ "qs @ ps"]) simp
  next
    case False
    obtain r2 b2 where rel: "relay k f as r = (r2, b2)" by fastforce
    with False Cons.prems have res: "r' = r2" "bs = map_action f a # b2" by (cases a; auto)+
    obtain ps where ps: "r2 = add_data_prefixes ps r" "?D r2 = fold announce (signalled as) (?D r)"
      "registered b2 = fold announce (signalled as) (?D r) - ?D r" "sent b2 = sent as"
      "expressed b2 = map (via f) (expressed as)"
      using Cons.IH [OF rel reg] by blast
    have "\<forall>p. a \<noteq> RegisterPrefix p ReadInterest ReadRegisterFailed" using Cons.prems(2) by (auto simp: registered_def)
    then have "registered bs = registered b2"
      unfolding res(2) by (intro registered_other) (cases a; auto)
    with False ps res show ?thesis by (intro exI [of _ ps]) (cases a; simp)
  qed
qed

section \<open>One step\<close>

definition known_patterns :: "('db, 't) repo \<Rightarrow> name set" where
  "known_patterns r = set (getSupportedPatterns (handleFactory (patternHandle r)))"

definition simulated ::
  "'db env \<Rightarrow> event \<Rightarrow> ('db, 't) repo \<Rightarrow> ('db, 't) repo \<Rightarrow> repo_callback action list \<Rightarrow> bool" where
  "simulated E ev r r' bs \<longleftrightarrow> (\<exists>op. may (service_of E r) op \<and> exhibits (lib E) (known_patterns r) ev op bs
     \<and> service_of E r' = becomes (as_stored E (repoStorage r)) (stored_as E (repoStorage r)) op (service_of E r)
     \<and> registered bs = announced (service_of E r') - announced (service_of E r))"

lemma simulated_relay:
  assumes rel: "relay k f as r1 = (r', bs)" and "0 < k" and "registered as = {}"
    and same: "repoConfig r1 = repoConfig r"
    and "may (service_of E r) op"
    and shown: "\<And>bs'. sent bs' = sent as \<Longrightarrow> expressed bs' = map (via f) (expressed as) \<Longrightarrow> exhibits (lib E) (known_patterns r) ev op bs'"
    and eq: "(service_of E r1)\<lparr>announced := fold announce (signalled as) (announced (service_of E r))\<rparr>
      = becomes (as_stored E (repoStorage r)) (stored_as E (repoStorage r)) op (service_of E r)"
  shows "simulated E ev r r' bs"
proof -
  obtain ps where ps: "r' = add_data_prefixes ps r1"
    "set (dataPrefixes (repoConfig r')) = fold announce (signalled as) (set (dataPrefixes (repoConfig r1)))"
    "registered bs = fold announce (signalled as) (set (dataPrefixes (repoConfig r1))) - set (dataPrefixes (repoConfig r1))"
    "sent bs = sent as" "expressed bs = map (via f) (expressed as)"
    using relay_announces [OF assms(1-3)] by blast
  then have "service_of E r' = (service_of E r1)\<lparr>announced := fold announce (signalled as) (announced (service_of E r))\<rparr>"
    using same by (simp add: service_of_def)
  with eq have "service_of E r' = becomes (as_stored E (repoStorage r)) (stored_as E (repoStorage r)) op (service_of E r)"
    by simp
  moreover have "registered bs = announced (service_of E r') - announced (service_of E r)"
    using ps(2,3) same by (simp add: service_of_def)
  ultimately show ?thesis
    using assms(5) shown [OF ps(4,5)] by (auto simp: simulated_def)
qed

section \<open>The events\<close>

lemma registered_quiet [simp]:
  "registered (PutData d # as) = registered as" "registered (ExpressInterest i c t # as) = registered as"
  "registered (EmitInsertion n # as) = registered as" "registered (CallLater delay c # as) = registered as"
  "registered (reply L i x # as) = registered as" "registered (negativeReply L i code # as) = registered as"
  by (auto simp: registered_def handler_simps)

lemma pattern_registers_nothing:
  "pattern_fetch X a p obj = (obj', as) \<Longrightarrow> registered as = {} \<and> expressed as = []"
  "pattern_cancel obj = (obj', as) \<Longrightarrow> registered as = {} \<and> signalled as = [] \<and> expressed as = []"
  by (cases obj;
      auto simp: counter_fetch_def ndnrtc_fetch_def gobj_fetch_def ndnrtc_cancel_def gobj_cancel_def
        registered_def split: option.splits)+

lemma insert_simulated:
  assumes tab: "table_ok (writeHandle r)" and k: "0 < writeSlots r"
    and step: "interest_step E X InsertCommand p i rnd r = Inr (r', bs)"
  shows "simulated E (InterestAt InsertCommand p i rnd) r r' bs"
proof -
  let ?pid = "generateProcessId rnd"
  obtain h as where h: "write_onInterest (lib E) ?pid p i (writeHandle r) = (h, as)" by fastforce
  let ?r1 = "r\<lparr>writeHandle := h\<rparr>"
  have rel: "relay (writeSlots r) WriteCb as ?r1 = (r', bs)"
    using step h by (simp add: interest_step_def relay_write_def)
  from tab show ?thesis
  proof (cases rule: command_cases [where L = "lib E" and pid = ?pid and i = i and p = p])
    case (bad ex)
    with h have as: "h = writeHandle r" "as = [negativeReply (lib E) i 403]" by simp_all
    show ?thesis
      by (rule simulated_relay [OF rel k, where op = Ignore]) (use as bad(1) in \<open>simp_all add: service_of_def\<close>)
  next
    case (good par s')
    with h have as: "processes h = insert ?pid (processes (writeHandle r))"
      "as = [reply (lib E) i ((pending_response ?pid)\<lparr>statusCode := 100\<rparr>),
         ExpressInterest (fetch_interest (lib E) (message_name (pName par))) (WriteData ?pid) (Some (WriteTimeout ?pid))]"
      by simp_all
    show ?thesis
      by (rule simulated_relay [OF rel k, where op = "Await ?pid"]) (use as good(1) in \<open>auto simp: service_of_def\<close>)
  qed
qed

lemma pattern_simulated:
  assumes L: "uri_laws (lib E)" and k: "0 < patternSlots r"
    and step: "interest_step E X PatternCommand p i rnd r = Inr (r', bs)"
  shows "simulated E (InterestAt PatternCommand p i rnd) r r' bs"
proof -
  let ?ren = "getRenamePrefix (repoStorage r)"
  obtain h as where h: "pattern_onInterest (lib E) X ?ren p i (patternHandle r) = (h, as)" by fastforce
  let ?r1 = "r\<lparr>patternHandle := h\<rparr>"
  have rel: "relay (patternSlots r) PatternCb as ?r1 = (r', bs)"
    using step h by (simp add: interest_step_def relay_pattern_def)
  have refused: ?thesis
    if "h = patternHandle r" "as = [negativeReply (lib E) i code]" "may (service_of E r) op"
      and "\<And>S. becomes (as_stored E (repoStorage r)) (stored_as E (repoStorage r)) op S = S"
      and "\<And>bs'. sent bs' = [answer (lib E) i (status_only code)] \<Longrightarrow> expressed bs' = [] \<Longrightarrow>
         exhibits (lib E) (known_patterns r) (InterestAt PatternCommand p i rnd) op bs'" for code op
    by (rule simulated_relay [OF rel k, where op = op]) (use that in \<open>simp_all add: service_of_def\<close>)
  from L show ?thesis
  proof (cases rule: pattern_command_reasons [where i = i and p = p and X = X and rename = ?ren
        and s = "patternHandle r"])
    case (unreadable ex)
    with h show ?thesis by (intro refused [of 403 Ignore]) simp_all
  next
    case (undecodable par)
    with h show ?thesis by (intro refused [of 403 Ignore]) simp_all
  next
    case (duplicate par pat fp)
    with h show ?thesis by (intro refused [of 402 "Duplicate fp"]) (auto simp: service_of_def)
  next
    case (unsupported par pat fp)
    with h show ?thesis
      by (intro refused [of 404 "Unsupported fp"]) (auto simp: service_of_def known_patterns_def)
  next
    case (accepted par pat fp obj obj' as')
    with h have as: "patterns h = omap_store fp (nextAddr (patternHandle r)) (patterns (patternHandle r))"
      "as = as' @ [EmitInsertion (ofUri (lib E) ?ren @ fp), negativeReply (lib E) i 100]" by auto
    have quiet: "registered as' = {}" "sent as' = []" "signalled as' = []" "expressed as' = []"
      using pattern_registers_nothing(1) [OF accepted(5)] fetch_sends_nothing [OF accepted(5)] by simp_all
    show ?thesis
      by (rule simulated_relay [OF rel k, where op = "Begin fp"])
        (use as quiet accepted(1-4) in \<open>auto simp: service_of_def stored_as_def getRenamePrefix_def
          known_patterns_def om.find_store\<close>)
  qed
qed

lemma cancel_simulated:
  assumes ok: "handle_ok (patternHandle r)" and k: "0 < patternSlots r"
    and step: "interest_step E X CancelCommand p i rnd r = Inr (r', bs)"
  shows "simulated E (InterestAt CancelCommand p i rnd) r r' bs"
proof -
  obtain h as where h: "onCancelRequest (lib E) p i (patternHandle r) = Inr (h, as)"
    and rel: "relay (patternSlots r) PatternCb as (r\<lparr>patternHandle := h\<rparr>) = (r', bs)"
    using step by (auto simp: interest_step_def relay_pattern_def rbind_Inr)
  from ok show ?thesis
  proof (cases rule: cancel_command_cases [where L = "lib E" and p = p and i = i])
    case (cancelled par a obj obj' as')
    with h have as: "patterns h = omap_erase (message_name (pName par)) (patterns (patternHandle r))"
      "as = as' @ [negativeReply (lib E) i 101]" by auto
    have quiet: "registered as' = {}" "sent as' = []" "signalled as' = []" "expressed as' = []"
      using pattern_registers_nothing(2) [OF cancelled(4)] cancel_sends_nothing [OF cancelled(4)] by simp_all
    show ?thesis
      by (rule simulated_relay [OF rel k, where op = "Stop (message_name (pName par))"])
        (use as quiet cancelled(1,2) in \<open>auto simp: service_of_def om.find_erase split: if_splits\<close>)
  next
    case (unreadable ex)
    with h have as: "h = patternHandle r" "as = [negativeReply (lib E) i 403]" by simp_all
    show ?thesis
      by (rule simulated_relay [OF rel k, where op = Ignore]) (use as unreadable(1) in \<open>simp_all add: service_of_def\<close>)
  next
    case (unknown par)
    with h have as: "h = patternHandle r" "as = [negativeReply (lib E) i 402]" by simp_all
    show ?thesis
      by (rule simulated_relay [OF rel k, where op = "Absent (message_name (pName par))"])
        (use as unknown(1,2) in \<open>simp_all add: service_of_def domIff\<close>)
  qed
qed

lemma simulated_same:
  assumes "may (service_of E r) op" and "exhibits (lib E) (known_patterns r) ev op bs" and "registered bs = {}"
    and "service_of E r' = becomes (as_stored E (repoStorage r)) (stored_as E (repoStorage r)) op (service_of E r)"
    and "announced (service_of E r') = announced (service_of E r)"
  shows "simulated E ev r r' bs"
  using assms by (auto simp: simulated_def)

lemma read_simulated:
  assumes ok: "engine_ok E (repoStorage r)" and step: "interest_step E X ReadInterest p i rnd r = Inr (r', bs)"
  shows "simulated E (InterestAt ReadInterest p i rnd) r r' bs"
proof -
  from step have run: "read_onInterest E (repoStorage r) i = Inr bs" "r' = r"
    by (auto simp: interest_step_def rbind_Inr)
  obtain as :: "repo_callback action list" where "read_onInterest E (repoStorage r) i = Inr as"
    and as: "as = [] \<or> (\<exists>d. as = [PutData d] \<and> \<not> mustBeFresh i \<and> stored E (repoStorage r) (dName d) = Some d
         \<and> prefix (butlast (iName i)) (dName d) \<and> (\<not> canBePrefix i \<longrightarrow> dName d = iName i))"
      "\<not> mustBeFresh i \<and> \<not> canBePrefix i \<and> stored E (repoStorage r) (iName i) \<noteq> None \<longrightarrow> as \<noteq> []"
    using read_answers [OF ok, of i] by blast
  with run have "as = bs" by simp
  from as(1) show ?thesis
  proof
    assume "as = []"
    with as(2) run \<open>as = bs\<close> show ?thesis
      by (intro simulated_same [where op = "Lookup i None"]) (auto simp: service_of_def)
  next
    assume "\<exists>d. as = [PutData d] \<and> \<not> mustBeFresh i \<and> stored E (repoStorage r) (dName d) = Some d
         \<and> prefix (butlast (iName i)) (dName d) \<and> (\<not> canBePrefix i \<longrightarrow> dName d = iName i)"
    then obtain d where "as = [PutData d]" "\<not> mustBeFresh i" "stored E (repoStorage r) (dName d) = Some d"
      "prefix (butlast (iName i)) (dName d)" "\<not> canBePrefix i \<longrightarrow> dName d = iName i" by blast
    with run \<open>as = bs\<close> show ?thesis
      by (intro simulated_same [where op = "Lookup i (Some d)"]) (auto simp: service_of_def)
  qed
qed

section \<open>Packets, timers, timeouts\<close>

text \<open>What a successful and a failed write do to the abstraction.\<close>

lemma put_service:
  assumes "engine_ok E e" and "se_put E e d = Inr (e', n, g)"
  obtains (written) "n = dName (as_stored E e d)" "stored E e' = (stored E e)(n \<mapsto> as_stored E e d)"
  | (lost) "n = []" "stored E e' = stored E e"
  using se.put_holds [OF assms] by blast

lemma write_data_simulated:
  assumes tab: "table_ok (writeHandle r)" and eng: "engine_ok E (repoStorage r)" and k: "0 < writeSlots r"
    and step: "data_step E (WriteCb (WriteData pid)) d r = Inr (r', bs)"
  shows "simulated E (DataFor (WriteCb (WriteData pid)) d) r r' bs"
proof -
  let ?h = "writeHandle r" and ?e = "repoStorage r"
  obtain h e as where w: "write_onData E ?e d pid ?h = Inr (h, e, as)"
    and rel: "relay (writeSlots r) WriteCb as (r\<lparr>writeHandle := h, repoStorage := e\<rparr>) = (r', bs)"
    using step by (auto simp: data_step_def relay_write_def rbind_Inr)
  from tab eng show ?thesis
  proof (cases rule: data_cases [where d = d and pid = pid])
    case ignored
    with w have "h = ?h" "e = ?e" "as = []" by simp_all
    with ignored show ?thesis
      by (intro simulated_relay [OF rel k, where op = "Late pid"]) (simp_all add: service_of_def)
  next
    case (stored e' n)
    with w have as: "h = write_onTimeout pid ?h" "e = e'" "as = [EmitInsertion n]" by simp_all
    from eng stored(2) show ?thesis
    proof (cases rule: put_service)
      case written
      with stored(1) as show ?thesis
        by (intro simulated_relay [OF rel k, where op = "Deliver pid d"])
          (simp_all add: service_of_def timeout_effect(2))
    next
      case lost
      with stored(1) as show ?thesis
        by (intro simulated_relay [OF rel k, where op = "Lose pid"])
          (simp_all add: service_of_def timeout_effect(2))
    qed
  qed
qed

lemma pattern_data_quiet:
  "pattern_data E e cb d s = Inr (s', e', as) \<Longrightarrow>
     registered as = {} \<and> sent as = [] \<and> patterns s' = patterns s \<and> nextAddr s' = nextAddr s"
  by (auto simp: pattern_data_def counter_onData_def
      split: pattern_callback.splits option.splits pattern_object.splits sum.splits if_splits)

lemma pattern_data_simulated:
  assumes below: "fetches_below (patternHandle r) P" and pend: "RFetch i (PatternCb cb) t \<in># P"
    and pre: "prefix (iName i) (dName d)" and eng: "engine_ok E (repoStorage r)" and k: "0 < patternSlots r"
    and step: "data_step E (PatternCb cb) d r = Inr (r', bs)"
  shows "simulated E (DataFor (PatternCb cb) d) r r' bs"
proof -
  let ?s = "patternHandle r" and ?e = "repoStorage r"
  obtain h e as where w: "pattern_data E ?e cb d ?s = Inr (h, e, as)"
    and rel: "relay (patternSlots r) PatternCb as (r\<lparr>patternHandle := h, repoStorage := e\<rparr>) = (r', bs)"
    using step by (auto simp: data_step_def relay_pattern_def rbind_Inr)
  from w obtain a c n g where c: "cb = CounterOnData a" "omap_find (heap ?s) a = Some (CounterObject c)"
    "se_put E ?e d = Inr (e, n, g)" "signalled as = []" "expressed as = []"
    by (rule pattern_data_outcome)
  from handle_object(2) [OF fetches_belowD(1) [OF below] c(2)] obtain fp where
    fp: "omap_find (patterns ?s) fp = Some a" by blast
  have "prefix fp (dName d)"
    using fetches_belowD(2) [OF below fp c(2)] fetches_belowD(4) [OF below pend, of c] c pre
    by (auto intro: prefix_order.trans)
  with fp have active: "\<exists>fp \<in> dom (omap_find (patterns ?s)). prefix fp (dName d)" by blast
  note quiet = pattern_data_quiet [OF w] c
  from eng c(3) show ?thesis
  proof (cases rule: put_service)
    case written
    with quiet active show ?thesis
      by (intro simulated_relay [OF rel k, where op = "Collect d"]) (simp_all add: service_of_def)
  next
    case lost
    with quiet show ?thesis
      by (intro simulated_relay [OF rel k, where op = Ignore]) (simp_all add: service_of_def)
  qed
qed

text \<open>A timer requests the next packet below the fetch prefix of its object, which is active.\<close>

lemma timer_simulated:
  assumes below: "fetches_below (patternHandle r) P" and L: "packet_laws (lib E)"
    and k: "0 < patternSlots r" and step: "timer_step E cb r = Inr (r', bs)"
  shows "simulated E (TimerFires cb) r r' bs"
proof -
  let ?s = "patternHandle r"
  obtain cb' as where w: "pattern_timer (lib E) cb' ?s = Inr as"
    and rel: "relay (patternSlots r) PatternCb as r = (r', bs)"
    using step by (cases cb) (auto simp: timer_step_def relay_pattern_def rbind_Inr)
  from pattern_timer_outcome [OF w] show ?thesis
  proof
    assume "as = []"
    then show ?thesis
      by (intro simulated_relay [OF rel k, where op = Ignore]) (simp_all add: service_of_def)
  next
    assume "\<exists>a c n. omap_find (heap ?s) a = Some (CounterObject c) \<and> counter c \<noteq> None
     \<and> as = [ExpressInterest (counter_interest (lib E) (fetchPrefix c) n) (CounterOnData a) None]"
    then obtain a c n where c: "omap_find (heap ?s) a = Some (CounterObject c)"
      "as = [ExpressInterest (counter_interest (lib E) (fetchPrefix c) n) (CounterOnData a) None]" by blast
    let ?j = "counter_interest (lib E) (fetchPrefix c) n"
    from handle_object(2) [OF fetches_belowD(1) [OF below] c(1)] obtain fp where
      fp: "omap_find (patterns ?s) fp = Some a" by blast
    with fetches_belowD(2) [OF below fp c(1)] L have "prefix fp (iName ?j)"
      by (simp add: counter_interest_def packet_laws_def)
    with fp have "\<exists>fp \<in> dom (omap_find (patterns ?s)). prefix fp (iName ?j)" by blast
    with c(2) show ?thesis
      by (intro simulated_relay [OF rel k, where op = "Request (iName ?j)"]) (auto simp: service_of_def)
  qed
qed

lemma recorded_simulated:
  assumes eng: "engine_ok E (repoStorage r)" and step: "recorder_step E f d r = Inr (r', bs)"
  shows "simulated E (RecorderStores f d) r r' bs"
proof -
  from step obtain e where e: "recorder_store E f d (repoStorage r) = Inr e"
    and r': "r' = r\<lparr>repoStorage := e\<rparr>" "bs = []"
    by (auto simp: recorder_step_def rbind_Inr)
  from e obtain n g where "se_put E (repoStorage r) d = Inr (e, n, g)" by (rule recorder_store_outcome)
  with eng show ?thesis
  proof (cases rule: put_service)
    case written
    with r' show ?thesis
      by (intro simulated_same [where op = "Record d"]) (simp_all add: service_of_def)
  next
    case lost
    with r' show ?thesis
      by (intro simulated_same [where op = Ignore]) (simp_all add: service_of_def)
  qed
qed

lemma unregistered_simulated:
  "register_failed_step f r = Inr (r', bs) \<Longrightarrow> simulated E (RegisterFailed f p) r r' bs"
  by (cases f; intro simulated_same [where op = Ignore])
    (auto simp: register_failed_step_def read_onRegisterFailed_def registered_def)

lemma timeout_simulated: "simulated E (TimeoutOf cb) r (timeout_step cb r) []"
proof (cases "\<exists>pid. cb = WriteCb (WriteTimeout pid)")
  case True
  then obtain pid where "cb = WriteCb (WriteTimeout pid)" by blast
  then show ?thesis
    by (intro simulated_same [where op = "GiveUp pid"])
      (simp_all add: service_of_def timeout_step_def timeout_effect(2))
next
  case False
  then have "timeout_step cb r = r"
    by (auto simp: timeout_step_def split: repo_callback.split write_callback.split)
  moreover have "exhibits (lib E) (known_patterns r) (TimeoutOf cb) Ignore []"
  proof (cases cb)
    case (WriteCb w)
    with False show ?thesis by (cases w) simp_all
  qed simp
  ultimately show ?thesis
    by (intro simulated_same [where op = Ignore]) simp_all
qed

end
