(* ===== verification/Service_Refinement.thy ===== *)
theory Service_Refinement
  imports Service_Steps
begin

text \<open>
  The repository implements the content service: the invariants the simulation of the steps
  needs hold in every session, so that every session is a trace of the service.
\<close>

section \<open>Fetches stay below their prefixes\<close>

lemma fetch_calls_expressed:
  "RFetch i (PatternCb cb) t \<in> set (repo_calls (map (map_action PatternCb) as)) \<Longrightarrow>
     \<exists>u. (i, cb, u) \<in> set (expressed as)"
  "RFetch i (PatternCb cb) t \<notin> set (repo_calls (map (map_action WriteCb) bs))"
  by (induction as rule: expressed.induct, auto) (induction bs rule: expressed.induct, auto)

text \<open>The handle is replaced, and the slots add no calls.\<close>

lemma below_relay:
  assumes rel: "relay k f as r1 = (r', bs)" and "fetches_below (patternHandle r1) P"
    and new: "\<And>i cb t. RFetch i (PatternCb cb) t \<in> set (repo_calls (map (map_action f) as)) \<Longrightarrow>
       address cb < nextAddr (patternHandle r1)
       \<and> (\<forall>c. omap_find (heap (patternHandle r1)) (address cb) = Some (CounterObject c) \<longrightarrow> prefix (fetchPrefix c) (iName i))"
  shows "fetches_below (patternHandle r') (P + mset (repo_calls bs))"
proof -
  from relay_effect [OF rel] obtain ps where ps: "r' = add_data_prefixes ps r1"
    "repo_calls bs = repo_calls (map (map_action f) as)" by blast
  then have "patternHandle r' = patternHandle r1" by simp
  with assms(2) new ps(2) show ?thesis unfolding fetches_below_def by auto
qed

lemma below_start:
  assumes below: "fetches_below s P" and "omap_find (patterns s) fp = None"
    and obj: "\<forall>c. obj = CounterObject c \<longrightarrow> fetchPrefix c = fp"
  shows "fetches_below (s\<lparr>patterns := omap_store fp (nextAddr s) (patterns s),
     heap := omap_store (nextAddr s) obj (heap s), nextAddr := Suc (nextAddr s)\<rparr>) P"
proof -
  note ok = fetches_belowD(1) [OF below]
  have low: "a < nextAddr s" if "omap_find (patterns s) n = Some a" for n a
    using handle_object(1) [OF ok] handle_entry [OF ok that] by blast
  have pend: "address cb \<noteq> nextAddr s" if "RFetch i (PatternCb cb) t \<in># P" for i cb t
    using fetches_belowD(3) [OF below that] by simp
  show ?thesis
    unfolding fetches_below_def
    using handle_ok_start [OF ok assms(2), of obj] fetches_belowD(2-4) [OF below] obj low
    by (auto simp: om.find_store less_Suc_eq dest: low pend split: if_splits)
qed

lemma below_erase:
  assumes below: "fetches_below s P" and "omap_find (patterns s) fp = Some a"
  shows "fetches_below (s\<lparr>patterns := omap_erase fp (patterns s), heap := omap_erase a (heap s)\<rparr>) P"
  unfolding fetches_below_def
  using handle_ok_erase [OF fetches_belowD(1) [OF below] assms(2)] fetches_belowD(2-4) [OF below]
  by (auto simp: om.find_erase split: if_splits)

lemma below_update:
  assumes below: "fetches_below s P" and "omap_find (heap s) a = Some (CounterObject c)"
    and "fetchPrefix c' = fetchPrefix c"
  shows "fetches_below (s\<lparr>heap := omap_store a (CounterObject c') (heap s)\<rparr>) P"
  unfolding fetches_below_def
  using handle_ok_update [OF fetches_belowD(1) [OF below] assms(2)] fetches_belowD(2-4) [OF below] assms(2,3)
  by (auto simp: om.find_store split: if_splits)

lemma below_interest:
  assumes below: "fetches_below (patternHandle r) P" and step: "interest_step E X ep p i rnd r = Inr (r', bs)"
  shows "fetches_below (patternHandle r') (P + mset (repo_calls bs))"
proof (cases ep)
  case InsertCommand
  with step obtain h as where "relay (writeSlots r) WriteCb as (r\<lparr>writeHandle := h\<rparr>) = (r', bs)"
    by (auto simp: interest_step_def relay_write_def split: prod.splits)
  then show ?thesis by (rule below_relay) (use below fetch_calls_expressed(2) in auto)
next
  case PatternCommand
  let ?ren = "getRenamePrefix (repoStorage r)"
  obtain h as where h: "pattern_onInterest (lib E) X ?ren p i (patternHandle r) = (h, as)" by fastforce
  with step PatternCommand have rel: "relay (patternSlots r) PatternCb as (r\<lparr>patternHandle := h\<rparr>) = (r', bs)"
    by (simp add: interest_step_def relay_pattern_def)
  have "fetches_below h P \<and> expressed as = []"
  proof (cases rule: pattern_command_cases [where L = "lib E" and X = X and rename = ?ren and p = p
        and i = i and s = "patternHandle r"])
    case (refused code)
    with h below show ?thesis by auto
  next
    case (started par pat fp obj obj' as')
    obtain kd where "obj = new_pattern kd" using started(4) by (auto simp: factory_create_def)
    with started(5) have "\<forall>c. obj' = CounterObject c \<longrightarrow> fetchPrefix c = fp" using fetch_heap by blast
    with started(6) h below_start [OF below started(3)] pattern_registers_nothing(1) [OF started(5)]
    show ?thesis by auto
  qed
  then show ?thesis by (intro below_relay [OF rel]) (use fetch_calls_expressed(1) in fastforce)+
next
  case CancelCommand
  with step obtain h as where h: "onCancelRequest (lib E) p i (patternHandle r) = Inr (h, as)"
    and rel: "relay (patternSlots r) PatternCb as (r\<lparr>patternHandle := h\<rparr>) = (r', bs)"
    by (auto simp: interest_step_def relay_pattern_def rbind_Inr)
  have "fetches_below h P \<and> expressed as = []"
    using fetches_belowD(1) [OF below]
  proof (cases rule: cancel_command_cases [where L = "lib E" and p = p and i = i])
    case (cancelled par a obj obj' as')
    with h below_erase [OF below cancelled(2)] pattern_registers_nothing(2) [OF cancelled(4)]
    show ?thesis by auto
  qed (use h below in auto)
  then show ?thesis by (intro below_relay [OF rel]) (use fetch_calls_expressed(1) in fastforce)+
next
  case ReadInterest
  with step have "r' = r" "read_onInterest E (repoStorage r) i = Inr bs"
    by (auto simp: interest_step_def rbind_Inr)
  moreover from this have "repo_calls bs = []"
    by (auto simp: read_onInterest_def split: if_splits sum.splits option.splits)
  ultimately show ?thesis using below by simp
qed (use below step in \<open>auto simp: interest_step_def rbind_Inr split: option.splits\<close>)

lemma below_data:
  assumes below: "fetches_below (patternHandle r) P" and step: "data_step E cb d r = Inr (r', bs)"
  shows "fetches_below (patternHandle r') (P - {#x#} + mset (repo_calls bs))"
proof (cases cb)
  case (WriteCb w)
  with step obtain h e as where
    rel: "relay (writeSlots r) WriteCb as (r\<lparr>writeHandle := h, repoStorage := e\<rparr>) = (r', bs)"
    by (cases w) (auto simp: data_step_def relay_write_def rbind_Inr)
  from fetches_below_removed [OF below] show ?thesis
    by (intro below_relay [OF rel]) (use fetch_calls_expressed(2) in auto)
next
  case (PatternCb cb')
  let ?s = "patternHandle r"
  obtain h e as where w: "pattern_data E (repoStorage r) cb' d ?s = Inr (h, e, as)"
    and rel: "relay (patternSlots r) PatternCb as (r\<lparr>patternHandle := h, repoStorage := e\<rparr>) = (r', bs)"
    using step PatternCb by (auto simp: data_step_def relay_pattern_def rbind_Inr)
  from w obtain a c c' where c: "omap_find (heap ?s) a = Some (CounterObject c)"
    "h = ?s\<lparr>heap := omap_store a (CounterObject c') (heap ?s)\<rparr>" "fetchPrefix c' = fetchPrefix c" "expressed as = []"
    by (rule pattern_data_outcome)
  have "fetches_below h (P - {#x#})"
    unfolding c(2) by (rule fetches_below_removed [OF below_update [OF below c(1,3)]])
  then show ?thesis by (intro below_relay [OF rel]) (use c(4) fetch_calls_expressed(1) in fastforce)+
qed

lemma below_timer:
  assumes below: "fetches_below (patternHandle r) P" and L: "packet_laws (lib E)"
    and step: "timer_step E cb r = Inr (r', bs)"
  shows "fetches_below (patternHandle r') (P - {#x#} + mset (repo_calls bs))"
proof -
  let ?s = "patternHandle r"
  obtain cb' as where w: "pattern_timer (lib E) cb' ?s = Inr as"
    and rel: "relay (patternSlots r) PatternCb as r = (r', bs)"
    using step by (cases cb) (auto simp: timer_step_def relay_pattern_def rbind_Inr)
  note fetches_below_removed [OF below, of x]
  moreover have "address c' < nextAddr ?s \<and>
      (\<forall>c. omap_find (heap ?s) (address c') = Some (CounterObject c) \<longrightarrow> prefix (fetchPrefix c) (iName j))"
    if new: "RFetch j (PatternCb c') t \<in> set (repo_calls (map (map_action PatternCb) as))" for j c' t
    using pattern_timer_outcome [OF w] new handle_object(1) [OF fetches_belowD(1) [OF below]] L
    by (auto simp: counter_interest_def packet_laws_def)
  ultimately show ?thesis by (intro below_relay [OF rel]) blast+
qed

section \<open>Every step is an operation of the service\<close>

lemma status_simulated:
  assumes "interest_step E X (StatusInterest j) p i rnd r = Inr (r', bs)"
  shows "simulated E (InterestAt (StatusInterest j) p i rnd) r r' bs"
proof -
  from assms have "r' = r" "bs = [] \<or> (\<exists>n t. bs = [PublishObject n t])"
    by (auto simp: interest_step_def rbind_Inr split: option.splits)
  then show ?thesis
    by (intro simulated_same [where op = Ignore]) (auto simp: registered_def)
qed

lemma step_simulated:
  assumes L: "packet_laws (lib E)" and inv: "repo_inv E base r T P" and below: "fetches_below (patternHandle r) P"
    and del: "deliverable T P ev Q" and step: "repo_step E X ev r = Inr (r', bs)"
  shows "simulated E ev r r' bs"
proof -
  note eng = repo_invD(1) [OF inv] and conn = repo_invD(2) [OF inv] and tab = repo_invD(7) [OF inv]
  have both: "writeSlots r = patternSlots r" using conn by (simp add: connected_def)
  have pending: "0 < writeSlots r" if "x \<in># P" for x
    using connected_pending [OF conn that] by simp
  from del show ?thesis
  proof cases
    case (interest p ep i rnd)
    have slots: "0 < writeSlots r" if "ep \<in> commands"
      using connected_command [OF conn interest(3) that] by simp
    from step interest(1) have run: "interest_step E X ep p i rnd r = Inr (r', bs)" by (simp add: repo_step_def)
    show ?thesis
    proof (cases ep)
      case InsertCommand
      with insert_simulated [OF tab _ run [unfolded InsertCommand]] slots interest(1) show ?thesis
        by (simp add: commands_def)
    next
      case PatternCommand
      with pattern_simulated [OF env_uri [OF engine_env [OF eng]] _ run [unfolded PatternCommand]] slots both interest(1) show ?thesis
        by (simp add: commands_def)
    next
      case CancelCommand
      with cancel_simulated [OF fetches_belowD(1) [OF below] _ run [unfolded CancelCommand]] slots both interest(1)
      show ?thesis by (simp add: commands_def)
    next
      case ReadInterest
      with read_simulated [OF eng run [unfolded ReadInterest]] interest(1) show ?thesis by simp
    next
      case (StatusInterest j)
      with status_simulated [OF run [unfolded StatusInterest]] interest(1) show ?thesis by simp
    next
      case NoHandler
      with run have "r' = r" "bs = []" by (simp_all add: interest_step_def)
      with NoHandler interest(1) show ?thesis by (auto intro: simulated_same [where op = Ignore])
    qed
  next
    case (data i cb t d)
    then have k: "0 < writeSlots r" using pending by blast
    from step data(1) have run: "data_step E cb d r = Inr (r', bs)" by (simp add: repo_step_def)
    show ?thesis
    proof (cases cb)
      case (WriteCb w)
      with run obtain pid where "w = WriteData pid" by (cases w) (simp_all add: data_step_def)
      with WriteCb run write_data_simulated [OF tab eng k] data(1) show ?thesis by blast
    next
      case (PatternCb cb')
      with run pattern_data_simulated [OF below _ data(4) eng] data k both show ?thesis by auto
    qed
  next
    case (timeout i cb t)
    with step timeout_simulated show ?thesis by (auto simp: repo_step_def)
  next
    case (timer cb)
    with step timer_simulated [OF below L, of cb r' bs] pending both show ?thesis by (auto simp: repo_step_def)
  next
    case (recorded stream f d)
    with step recorded_simulated [OF eng] show ?thesis by (simp add: repo_step_def)
  next
    case (unregistered p ep f)
    with step unregistered_simulated show ?thesis by (simp add: repo_step_def)
  qed
qed

lemma step_below:
  assumes below: "fetches_below (patternHandle r) P" and L: "packet_laws (lib E)"
    and del: "deliverable T P ev Q" and step: "repo_step E X ev r = Inr (r', bs)"
  shows "fetches_below (patternHandle r') (Q + mset (repo_calls bs))"
  using del
proof cases
  case (timeout i cb t)
  with step have "patternHandle r' = patternHandle r" "bs = []"
    by (auto simp: repo_step_def timeout_step_def split: repo_callback.split write_callback.split)
  with timeout show ?thesis using fetches_below_removed [OF below] by simp
next
  case (interest p ep i rnd)
  with step show ?thesis by (auto simp: repo_step_def intro: below_interest [OF below])
next
  case (data i cb t d)
  show ?thesis
    unfolding data(2) by (rule below_data [OF below]) (use step data(1) in \<open>simp add: repo_step_def\<close>)
next
  case (timer cb)
  show ?thesis
    unfolding timer(2) by (rule below_timer [OF below L]) (use step timer(1) in \<open>simp add: repo_step_def\<close>)
next
  case (recorded stream f d)
  with step below show ?thesis by (auto simp: repo_step_def recorder_step_def rbind_Inr)
next
  case (unregistered p ep f)
  with step below show ?thesis
    by (auto simp: repo_step_def register_failed_step_def read_onRegisterFailed_def split: registration_failed.splits)
qed

text \<open>The patterns that are known are those of the factory, which never changes.\<close>

lemma step_knows:
  assumes ok: "handle_ok (patternHandle r)" and step: "repo_step E X ev r = Inr (r', bs)"
  shows "known_patterns r' = known_patterns r"
proof -
  have rel: "patternHandle r2 = patternHandle r1" if "relay k f as r1 = (r2, cs)" for k f as r1 r2 cs
    using relay_effect [OF that] by auto
  have cmd: "handleFactory h = handleFactory s" if "pattern_onInterest L X ren p i s = (h, as)" for L ren p i s h as
    by (cases rule: pattern_command_cases [where L = L and X = X and rename = ren and p = p and i = i and s = s])
      (use that in auto)
  have can: "handleFactory h = handleFactory (patternHandle r)"
    if "onCancelRequest L p i (patternHandle r) = Inr (h, as)" for L p i h as
    using ok by (cases rule: cancel_command_cases [where L = L and p = p and i = i]) (use that in auto)
  have dat: "handleFactory h = handleFactory s" if "pattern_data E e cb d s = Inr (h, e', as)" for e cb d s h e' as
    using that by (auto simp: pattern_data_def
        split: pattern_callback.splits option.splits pattern_object.splits sum.splits)
  show ?thesis
  proof (cases ev)
    case (InterestAt ep p i rnd)
    with step show ?thesis
      by (cases ep) (auto simp: known_patterns_def repo_simps rbind_Inr dest!: rel cmd can split: prod.splits)
  next
    case (DataFor cb d)
    with step show ?thesis
      by (cases cb) (auto simp: known_patterns_def repo_simps rbind_Inr dest!: rel dat
          split: prod.splits write_callback.splits)
  next
    case (TimerFires cb)
    with step show ?thesis
      by (cases cb) (auto simp: known_patterns_def repo_simps rbind_Inr dest!: rel)
  qed (use step in \<open>auto simp: known_patterns_def repo_simps rbind_Inr
      split: repo_callback.splits write_callback.splits registration_failed.splits\<close>)
qed

lemma session_simulated:
  assumes "session E X r0 T0 evs r T P"
    and inv: "repo_inv E base r0 T0 {#}" and L: "packet_laws (lib E)" and "fetches_below (patternHandle r0) {#}"
  shows "fetches_below (patternHandle r) P \<and> renamePrefix (repoStorage r) = renamePrefix (repoStorage r0)
    \<and> known_patterns r = known_patterns r0
    \<and> (\<exists>as. T = T0 @ as \<and> service_trace (lib E) (known_patterns r0)
         (as_stored E (repoStorage r0)) (stored_as E (repoStorage r0)) (service_of E r0) evs as (service_of E r))"
  using assms(1)
proof (induction rule: session.induct)
  case start
  show ?case using assms(4) service_trace.start by auto
next
  case (event evs r T P ev Q r' bs)
  let ?trace = "service_trace (lib E) (known_patterns r0) (as_stored E (repoStorage r0))
      (stored_as E (repoStorage r0)) (service_of E r0)"
  from event have below: "fetches_below (patternHandle r) P"
    and ren: "renamePrefix (repoStorage r) = renamePrefix (repoStorage r0)"
    and known: "known_patterns r = known_patterns r0" by blast+
  have rinv: "repo_inv E UNIV r T P"
    using session_run [OF event(1)] inv L by (rule repo_run_invariant)
  obtain as where as: "T = T0 @ as" "?trace evs as (service_of E r)" using event by blast
  from step_simulated [OF L rinv below event(2,3)] obtain op where op: "may (service_of E r) op"
    "exhibits (lib E) (known_patterns r0) ev op bs"
    "service_of E r' = becomes (as_stored E (repoStorage r0)) (stored_as E (repoStorage r0)) op (service_of E r)"
    "registered bs = announced (service_of E r') - announced (service_of E r)"
    unfolding simulated_def known using same_renaming [OF ren, of E] by metis
  from service_trace.step [OF as(2) op(1,2)] op(3,4)
  have "?trace (evs @ [ev]) (as @ bs) (service_of E r')" by simp
  with as(1) step_below [OF below L event(2,3)] step_renames [OF repo_invD(1) [OF rinv] event(3)] ren
    step_knows [OF fetches_belowD(1) [OF below] event(3)] known
  show ?case by auto
next
  case (expired evs r T P i cb)
  then show ?case using fetches_below_removed by blast
qed

text \<open>The factory of the start, as a set of patterns.\<close>

definition supported :: "'db env \<Rightarrow> platform \<Rightarrow> name set" where
  "supported E X = set (getSupportedPatterns (patternFactory (lib E) X))"

lemma service_traces:
  assumes start: "main_start E X C a = Inr (r0, T0)" and eng: "engine_ok E (repoStorage r0)"
    and run: "session E X r0 T0 evs r T P"
  shows "awaited (service_of E r0) = {} \<and> activePrefixes (service_of E r0) = {}
    \<and> (\<exists>as. T = T0 @ as \<and> service_trace (lib E) (supported E X)
         (as_stored E (repoStorage r0)) (stored_as E (repoStorage r0)) (service_of E r0) evs as (service_of E r))"
proof -
  have new: "writeHandle r0 = write_new" "patternHandle r0 = pattern_new (lib E) X"
    using start_handlers [OF start] by simp_all
  then have "known_patterns r0 = supported E X"
    by (simp add: known_patterns_def supported_def pattern_new_def factory_getInstance_def Let_def)
  moreover have "fetches_below (pattern_new (lib E) X) {#}"
    unfolding fetches_below_def by (simp add: handle_new)
  ultimately show ?thesis
    using session_simulated [OF run start_inv [OF start eng] env_packet [OF engine_env [OF eng]]] new
    by (simp add: service_of_def table_new handle_new)
qed

text \<open>What can be delivered next is handled or breaks the repository.\<close>

lemma session_next:
  assumes start: "main_start E X C a = Inr (r0, T0)" and eng: "engine_ok E (repoStorage r0)"
    and run: "session E X r0 T0 evs r T P" and del: "deliverable T P ev Q"
  shows "(breaks ev r \<longrightarrow> \<not> is_ok (repo_step E X ev r))
    \<and> (\<not> is_ok (repo_step E X ev r) \<longrightarrow> breaks ev r \<or> status_request ev)"
proof -
  note L = env_packet [OF engine_env [OF eng]] and inv0 = start_inv [OF start eng]
  have inv: "repo_inv E UNIV r T P" using session_run [OF run] inv0 L by (rule repo_run_invariant)
  have "calls_sound (patternHandle r0) {#}"
    using start_handlers(1) [OF start] calls_sound_new by simp
  then have "calls_sound (patternHandle r) P" by (rule session_sound [OF run inv0 L])
  with step_returns [OF this repo_invD(1,7) [OF inv] del] breaks_fails show ?thesis by blast
qed

text \<open>
  What holds of the service holds of the repository: contents and fetch prefixes are announced,
  but for what recorders have stored.
\<close>

theorem repository_reachable:
  assumes start: "main_start E X C a = Inr (r0, T0)" and eng: "engine_ok E (repoStorage r0)"
    and run: "session E X r0 T0 evs r T P"
  shows "reachable_in (stored_as E (repoStorage r0))
    ({n. stored E (repoStorage r0) n \<noteq> None} \<union> recorded (stored_as E (repoStorage r0)) evs) (service_of E r)"
proof -
  obtain as where tr: "service_trace (lib E) (supported E X) (as_stored E (repoStorage r0))
      (stored_as E (repoStorage r0)) (service_of E r0) evs as (service_of E r)"
    and new: "activePrefixes (service_of E r0) = {}"
    using service_traces [OF assms] by blast
  from tr show ?thesis
  proof (rule service_reachable)
    show "reachable_in (stored_as E (repoStorage r0)) {n. stored E (repoStorage r0) n \<noteq> None} (service_of E r0)"
      using new by (simp add: reachable_in_def) (simp add: service_of_def)
  qed (simp_all add: as_stored_name [OF engine_env [OF eng]], simp add: stored_as_def)
qed

section \<open>Properties\<close>

text \<open>
  C1: in every session, whatever commands, packets, timers, timeouts, cancellations and failures
  happen, each stored packet was stored at the start already, or is under a prefix the
  repository has asked to register for reading, or was stored by a stream recorder of the
  NDN-RTC pattern, whose packets are not announced; and in the last case its name is then under
  no fetch prefix that is still active. So the packets of insert commands and of counter
  patterns are served, with and without renaming, and a recorder's are if they lie below the
  prefix of an active pattern.
\<close>

theorem inserted_data_served:
  assumes "main_start E X C a = Inr (r0, T0)" and "engine_ok E (repoStorage r0)"
    and "session E X r0 T0 evs r T P" and "stored E (repoStorage r) n \<noteq> None"
  shows "stored E (repoStorage r0) n \<noteq> None
    \<or> (\<exists>p. RegisterPrefix p ReadInterest ReadRegisterFailed \<in> set T \<and> prefix p n)
    \<or> (\<exists>f d. RecorderStores f d \<in> set evs \<and> n = stored_as E (repoStorage r0) (dName d)
        \<and> (\<forall>fp. omap_find (patterns (patternHandle r)) fp \<noteq> None \<longrightarrow> \<not> prefix fp (dName d)))"
proof -
  let ?rname = "stored_as E (repoStorage r0)"
  note reach = repository_reachable [OF assms(1-3)]
  have "repo_inv E UNIV r T P"
    using session_run [OF assms(3)] start_inv [OF assms(1,2)] env_packet [OF engine_env [OF assms(2)]]
    by (rule repo_run_invariant)
  then have reg: "RegisterPrefix p ReadInterest ReadRegisterFailed \<in> set T"
    if "p \<in> announced (service_of E r)" for p
    using that repo_invD(4) by (auto simp: service_of_def)
  have active: "\<exists>p. RegisterPrefix p ReadInterest ReadRegisterFailed \<in> set T \<and> prefix p (?rname (dName d))"
    if "omap_find (patterns (patternHandle r)) fp \<noteq> None" "prefix fp (dName d)" for fp d
  proof -
    from that(1) have "fp \<in> activePrefixes (service_of E r)" by (auto simp: service_of_def)
    with reach obtain p where "p \<in> announced (service_of E r)" "prefix p (?rname fp)"
      unfolding reachable_in_def by blast
    moreover have "prefix (?rname fp) (?rname (dName d))" using that(2) by (simp add: stored_as_def)
    ultimately show ?thesis using reg prefix_order.trans by blast
  qed
  from reach assms(4) have "n \<in> {n. stored E (repoStorage r0) n \<noteq> None} \<union> recorded ?rname evs
      \<or> (\<exists>p \<in> announced (service_of E r). prefix p n)"
    unfolding reachable_in_def by (simp add: service_of_def)
  with reg active show ?thesis unfolding recorded_def by blast
qed

theorem inserted_data_served_witness:
  "\<exists>r0 T0 r T P. main_start ref_env ref_platform (ref_conf sample_files) (ref_args False) = Inr (r0, T0)
     \<and> session ref_env ref_platform r0 T0 [ref_insert, ref_arrival] r T P
     \<and> stored ref_env (repoStorage r) [generic ''a''] \<noteq> None
     \<and> (\<exists>p. RegisterPrefix p ReadInterest ReadRegisterFailed \<in> set T \<and> prefix p [generic ''a''])"
proof -
  obtain r0 T0 r T P where st: "main_start ref_env ref_platform (ref_conf sample_files) (ref_args False) = Inr (r0, T0)"
     "engine_ok ref_env (repoStorage r0)" "stored ref_env (repoStorage r0) = Map.empty"
    and run: "session ref_env ref_platform r0 T0 [ref_insert, ref_arrival] r T P"
    and "stored ref_env (repoStorage r) = [[generic ''a''] \<mapsto> ref_packet [''a''] ''x'']"
    using ref_repo_packet by blast
  then have has: "stored ref_env (repoStorage r) [generic ''a''] \<noteq> None" by simp
  from inserted_data_served [OF st(1,2) run has] st(1,3) run has show ?thesis by auto
qed

text \<open>
  C5: the repository implements the content service. After any sequence of events that can be
  delivered and that were handled, commands, cancellations, packets, timeouts, timers, lookups,
  packets of recorders and failed registrations, the sequence is a trace of the service, with
  the same actions. Each event is one operation, which the service allows in its state, and
  whose arguments are those of the command: an insert command that can be read awaits, and
  requests, the very packet it names; a fetch or cancel command is about the fetch prefix it
  holds and is accepted or refused as the active prefixes and the known patterns say, with the
  status for it; a lookup is answered from the contents; a timer requests a packet below an
  active fetch prefix; a packet is taken only for a process that waits for it or below an
  active fetch prefix, and it is kept under the name that is announced. The prefixes registered
  are exactly those the service announces. Of whatever can be delivered next, the repository
  fails to handle the call of a destroyed pattern object and the failed registration of a
  command prefix, and nothing else, but possibly a request for the status.
\<close>

theorem repository_refines_service:
  assumes start: "main_start E X C a = Inr (r0, T0)" and eng: "engine_ok E (repoStorage r0)"
    and run: "session E X r0 T0 evs r T P" and del: "deliverable T P ev Q"
  shows "awaited (service_of E r0) = {} \<and> activePrefixes (service_of E r0) = {}
    \<and> (\<exists>as. T = T0 @ as \<and> service_trace (lib E) (supported E X)
         (as_stored E (repoStorage r0)) (stored_as E (repoStorage r0)) (service_of E r0) evs as (service_of E r))
    \<and> (breaks ev r \<longrightarrow> \<not> is_ok (repo_step E X ev r))
    \<and> (\<not> is_ok (repo_step E X ev r) \<longrightarrow> breaks ev r \<or> status_request ev)"
  using service_traces [OF start eng run] session_next [OF start eng run del] by blast

theorem repository_refines_service_witness:
  "\<exists>(r0 :: ((string, bytes) omap, ptree) repo) T0 as S.
     main_start ref_env ref_platform (ref_conf sample_files) (ref_args False) = Inr (r0, T0)
   \<and> service_trace ref_lib (supported ref_env ref_platform) (as_stored ref_env (repoStorage r0))
       (stored_as ref_env (repoStorage r0)) (service_of ref_env r0)
       [InterestAt InsertCommand ref_prefix (ref_command [''a'']) []] as S
   \<and> 0 \<in> awaited S"
proof -
  let ?command = "InterestAt InsertCommand ref_prefix (ref_command [''a'']) []"
  obtain r0 T0 and r :: "((string, bytes) omap, ptree) repo" and bs where
    st: "main_start ref_env ref_platform (ref_conf sample_files) (ref_args False) = Inr (r0, T0)"
      "engine_ok ref_env (repoStorage r0)"
    and step: "served T0 ref_prefix InsertCommand" "prefix ref_prefix (iName (ref_command [''a'']))"
      "repo_step ref_env ref_platform ?command r0 = Inr (r, bs)"
    and out: "0 \<in> processes (writeHandle r)"
    using ref_insert_accepted by blast
  have run: "session ref_env ref_platform r0 T0 [?command] r (T0 @ bs) (mset (repo_calls bs))"
    using session.event [OF session.start deliverable.interest [OF step(1,2)] step(3)] by simp
  have "deliverable (T0 @ bs) (mset (repo_calls bs)) ?command (mset (repo_calls bs))"
    by (rule deliverable.interest) (use step(1,2) in \<open>auto simp: served_def\<close>)
  from repository_refines_service [OF st run this] obtain as where "service_trace ref_lib
      (supported ref_env ref_platform) (as_stored ref_env (repoStorage r0)) (stored_as ref_env (repoStorage r0))
      (service_of ref_env r0) [?command] as (service_of ref_env r)" by auto
  moreover have "0 \<in> awaited (service_of ref_env r)" using out by (simp add: service_of_def)
  ultimately show ?thesis using st(1) by blast
qed

end
