(* ===== verification/Pattern_Fill.thy ===== *)
theory Pattern_Fill
  imports Service_Refinement
begin

text \<open>
  A fetch pattern from the command to the last packet, through the whole repository: command,
  timers and packets as events of the loop, and the interests that read the result.
\<close>

section \<open>The rounds of a counter pattern\<close>

text \<open>In a round its timer fires, and the packet for the interest it sends arrives.\<close>

fun fetch_rounds :: "addr \<Rightarrow> (nat \<Rightarrow> data) \<Rightarrow> nat \<Rightarrow> nat \<Rightarrow> event list" where
  "fetch_rounds a packet_of k 0 = []"
| "fetch_rounds a packet_of k (Suc m) =
     TimerFires (PatternCb (CounterDoFetch a)) # DataFor (PatternCb (CounterOnData a)) (packet_of k)
       # fetch_rounds a packet_of (Suc k) m"

abbreviation counter_request :: "name \<Rightarrow> nat \<Rightarrow> name" where
  "counter_request fp k \<equiv> fp @ [generic (to_string (int k))]"

abbreviation writes_succeed :: "'db env \<Rightarrow> bool" where
  "writes_succeed E \<equiv> \<forall>b k v. fst (kvPut (kv E) b k v)"

text \<open>The contents after a packet has been written; \<open>ren\<close> is the packet that is kept of a packet.\<close>

definition kept :: "(data \<Rightarrow> data) \<Rightarrow> data \<Rightarrow> (name \<Rightarrow> data option) \<Rightarrow> name \<Rightarrow> data option" where
  "kept ren d m = m(dName (ren d) \<mapsto> ren d)"

lemma kept_at [simp]:
  "kept ren d m (dName (ren d)) = Some (ren d)" "n \<noteq> dName (ren d) \<Longrightarrow> kept ren d m n = m n"
  by (simp_all add: kept_def)

lemma kept_all:
  "distinct (map (\<lambda>d. dName (ren d)) ds) \<Longrightarrow> d \<in> set ds \<Longrightarrow> fold (kept ren) ds m (dName (ren d)) = Some (ren d)"
proof (induction ds arbitrary: m)
  case (Cons x xs)
  have other: "fold (kept ren) xs m n = m n" if "n \<notin> (\<lambda>d. dName (ren d)) ` set xs" for n m
    using that by (induction xs arbitrary: m) auto
  from Cons show ?case
    by (cases "d = x") (auto simp: other)
qed simp

text \<open>The two steps of a round.\<close>

definition counting_at :: "('db, 't) repo \<Rightarrow> addr \<Rightarrow> name \<Rightarrow> nat \<Rightarrow> bool" where
  "counting_at r a fp k \<longleftrightarrow> (\<exists>c. omap_find (heap (patternHandle r)) a = Some (CounterObject c)
     \<and> running c \<and> counter c = Some (int k) \<and> fetchPrefix c = fp)"

definition finished_at :: "('db, 't) repo \<Rightarrow> addr \<Rightarrow> bool" where
  "finished_at r a \<longleftrightarrow> (\<exists>c. omap_find (heap (patternHandle r)) a = Some (CounterObject c) \<and> \<not> running c)"

lemma counter_timer_step:
  assumes "counting_at r a fp k"
  shows "repo_step E X (TimerFires (PatternCb (CounterDoFetch a))) r
     = Inr (r, [ExpressInterest (counter_interest (lib E) fp (int k)) (PatternCb (CounterOnData a)) None])"
  using assms by (auto simp: counting_at_def repo_simps pattern_timer_def counter_doFetch_def)

lemma put_written:
  assumes eng: "engine_ok E e" and "writes_succeed E"
  shows "\<exists>e'. se_put E e d = Inr (e', dName (as_stored E e d), dName d) \<and> engine_ok E e'
    \<and> stored E e' = kept (as_stored E e) d (stored E e)
    \<and> renamePrefix e' = renamePrefix e"
proof -
  obtain b where b: "db e = Some b" using eng by (rule engine_okE)
  obtain b' where "kvPut (kv E) b (toUri (lib E) (dName (as_stored E e d))) (wireEncode (lib E) (as_stored E e d))
      = (True, b')"
    using assms(2) by (metis prod.collapse)
  from put_effect [OF eng b this] show ?thesis by (auto simp: se_put_def kept_def)
qed

lemma counter_data_step:
  assumes at: "counting_at r a fp k" and eng: "engine_ok E (repoStorage r)" and w: "writes_succeed E" and "k < 10"
  obtains r' as where "repo_step E X (DataFor (PatternCb (CounterOnData a)) d) r = Inr (r', as)"
    "as = (if k + 1 < 10 then [CallLater 2000 (PatternCb (CounterDoFetch a))] else [])"
    "if k + 1 < 10 then counting_at r' a fp (k + 1) else finished_at r' a"
    "engine_ok E (repoStorage r')" "renamePrefix (repoStorage r') = renamePrefix (repoStorage r)"
    "stored E (repoStorage r') = kept (as_stored E (repoStorage r)) d (stored E (repoStorage r))"
    "repoConfig r' = repoConfig r"
proof -
  let ?e = "repoStorage r" and ?h = "patternHandle r"
  obtain c where c: "omap_find (heap ?h) a = Some (CounterObject c)" "running c" "counter c = Some (int k)"
    "fetchPrefix c = fp"
    using at by (auto simp: counting_at_def)
  obtain e' where e': "se_put E ?e d = Inr (e', dName (as_stored E ?e d), dName d)" "engine_ok E e'"
    "stored E e' = kept (as_stored E ?e) d (stored E ?e)" "renamePrefix e' = renamePrefix ?e"
    using put_written [OF eng w] by blast
  let ?c = "if k + 1 < 10 then c\<lparr>counter := Some (int (k + 1))\<rparr>
    else c\<lparr>counter := Some (int (k + 1)), running := False\<rparr>"
  let ?r = "r\<lparr>patternHandle := ?h\<lparr>heap := omap_store a (CounterObject ?c) (heap ?h)\<rparr>, repoStorage := e'\<rparr>"
  let ?as = "if k + 1 < 10 then [CallLater 2000 (CounterDoFetch a)] else []"
  have "pattern_data E ?e (CounterOnData a) d ?h
      = Inr (?h\<lparr>heap := omap_store a (CounterObject ?c) (heap ?h)\<rparr>, e', ?as)"
    using c e'(1) by (auto simp: pattern_data_def counter_onData_def add.commute)
  then have "repo_step E X (DataFor (PatternCb (CounterOnData a)) d) r
      = Inr (?r, if k + 1 < 10 then [CallLater 2000 (PatternCb (CounterDoFetch a))] else [])"
    by (simp add: repo_simps)
  moreover have "if k + 1 < 10 then counting_at ?r a fp (k + 1) else finished_at ?r a"
    using c by (simp add: counting_at_def finished_at_def om.find_store)
  ultimately show thesis using e' by (intro that [of ?r]) simp_all
qed

section \<open>All rounds\<close>

text \<open>The names that are requested and the packets that are stored, from the \<open>k\<close>th on.\<close>

lemma rounds_run:
  assumes "session E X r0 T0 evs r T (P + {#RTimer (PatternCb (CounterDoFetch a))#})"
    and "counting_at r a fp k" and "engine_ok E (repoStorage r)" and w: "writes_succeed E"
    and L: "packet_laws (lib E)" and "k + Suc m = 10"
    and producer: "\<And>j. j < 10 \<Longrightarrow> prefix (counter_request fp j) (dName (packet_of j))"
  shows "\<exists>r' as. session E X r0 T0 (evs @ fetch_rounds a packet_of k (Suc m)) r' (T @ as) P
    \<and> map (\<lambda>x. iName (fst x)) (expressed as) = map (counter_request fp) [k ..< 10] \<and> finished_at r' a
    \<and> engine_ok E (repoStorage r') \<and> repoConfig r' = repoConfig r
    \<and> stored E (repoStorage r') = fold (kept (as_stored E (repoStorage r)))
        (map packet_of [k ..< 10]) (stored E (repoStorage r)) \<and> sent as = []"
  using assms(1-3,6)
proof (induction m arbitrary: evs r T k)
  case (0 evs r T k)
  then have k: "k = 9" by simp
  let ?i = "counter_interest (lib E) fp (int k)" and ?cb = "PatternCb (CounterOnData a)"
  let ?as = "[ExpressInterest ?i ?cb None]"
  have t: "session E X r0 T0 (evs @ [TimerFires (PatternCb (CounterDoFetch a))]) r (T @ ?as) (P + {#RFetch ?i ?cb None#})"
    using session.event [OF 0(1) deliverable.timer counter_timer_step [OF 0(2)]] by simp
  have d: "deliverable (T @ ?as) (P + {#RFetch ?i ?cb None#}) (DataFor ?cb (packet_of k)) P"
    using deliverable.data [of ?i ?cb None "P + {#RFetch ?i ?cb None#}" "packet_of k" "T @ ?as"] producer [of k] L k by simp
  obtain r' as where s: "repo_step E X (DataFor ?cb (packet_of k)) r = Inr (r', as)" "as = []" "finished_at r' a"
    "engine_ok E (repoStorage r')" "repoConfig r' = repoConfig r"
    "stored E (repoStorage r') = kept (as_stored E (repoStorage r)) (packet_of k) (stored E (repoStorage r))"
    by (rule counter_data_step [OF 0(2,3) w, where X = X and d = "packet_of k"]) (use k in auto)
  have "[k ..< 10] = [k]" using k by (simp add: upt_rec)
  with session.event [OF t d s(1)] s L show ?case
    by (intro exI [of _ r'] exI [of _ ?as]) simp
next
  case (Suc m evs r T k)
  then have k: "k + 1 < 10" by simp
  let ?i = "counter_interest (lib E) fp (int k)" and ?cb = "PatternCb (CounterOnData a)"
    and ?timer = "CallLater 2000 (PatternCb (CounterDoFetch a))"
  let ?as = "[ExpressInterest ?i ?cb None]"
  have t: "session E X r0 T0 (evs @ [TimerFires (PatternCb (CounterDoFetch a))]) r (T @ ?as) (P + {#RFetch ?i ?cb None#})"
    using session.event [OF Suc.prems(1) deliverable.timer counter_timer_step [OF Suc.prems(2)]] by simp
  have d: "deliverable (T @ ?as) (P + {#RFetch ?i ?cb None#}) (DataFor ?cb (packet_of k)) P"
    using deliverable.data [of ?i ?cb None "P + {#RFetch ?i ?cb None#}" "packet_of k" "T @ ?as"] producer [of k] L k by simp
  obtain r1 as where s: "repo_step E X (DataFor ?cb (packet_of k)) r = Inr (r1, as)" "as = [?timer]" "counting_at r1 a fp (Suc k)"
    "engine_ok E (repoStorage r1)" "repoConfig r1 = repoConfig r" "renamePrefix (repoStorage r1) = renamePrefix (repoStorage r)"
    "stored E (repoStorage r1) = kept (as_stored E (repoStorage r)) (packet_of k) (stored E (repoStorage r))"
    by (rule counter_data_step [OF Suc.prems(2,3) w, where X = X and d = "packet_of k"]) (use k in auto)
  have "session E X r0 T0 ((evs @ [TimerFires (PatternCb (CounterDoFetch a))]) @ [DataFor ?cb (packet_of k)]) r1
      ((T @ ?as) @ [?timer]) (P + {#RTimer (PatternCb (CounterDoFetch a))#})"
    using session.event [OF t d s(1)] s(2) by simp
  moreover have "Suc k + Suc m = 10" using Suc.prems(4) by simp
  ultimately obtain r' bs where
    ih: "session E X r0 T0 (((evs @ [TimerFires (PatternCb (CounterDoFetch a))]) @ [DataFor ?cb (packet_of k)])
          @ fetch_rounds a packet_of (Suc k) (Suc m)) r' (((T @ ?as) @ [?timer]) @ bs) P"
      "map (\<lambda>x. iName (fst x)) (expressed bs) = map (counter_request fp) [Suc k ..< 10]" "finished_at r' a"
      "engine_ok E (repoStorage r')" "repoConfig r' = repoConfig r1"
      "stored E (repoStorage r') = fold (kept (as_stored E (repoStorage r1)))
        (map packet_of [Suc k ..< 10]) (stored E (repoStorage r1))" "sent bs = []"
    using Suc.IH s(3,4) by blast
  have upt: "[k ..< 10] = k # [Suc k ..< 10]" using k by (simp add: upt_conv_Cons)
  show ?case
    using ih s(5,7) L same_renaming [OF s(6), of E] unfolding upt
    by (intro exI [of _ r'] exI [of _ "?as @ [?timer] @ bs"]) simp
qed

section \<open>The command\<close>

lemma counter_command_step:
  assumes k: "0 < patternSlots r"
    and par: "extractParameter (lib E) i p = Inr par" "decodeNames (lib E) (pName par) = Some (pat, fp)"
    and new: "omap_find (patterns (patternHandle r)) fp = None"
    and counter: "factory_create (lib E) (handleFactory (patternHandle r)) pat = Some counter_create"
  obtains r' as where "repo_step E X (InterestAt PatternCommand p i rnd) r = Inr (r', as)"
    "repo_calls as = [RTimer (PatternCb (CounterDoFetch (nextAddr (patternHandle r))))]" "expressed as = []"
    "sent as = [answer (lib E) i (status_only 100)]"
    "counting_at r' (nextAddr (patternHandle r)) fp 0" "repoStorage r' = repoStorage r"
    "covered r' (stored_as E (repoStorage r) fp)"
proof -
  let ?s = "patternHandle r" and ?ren = "getRenamePrefix (repoStorage r)" and ?a = "nextAddr (patternHandle r)"
  let ?n = "ofUri (lib E) ?ren @ fp"
  let ?c = "fst (counter_fetch ?a fp counter_new)"
  let ?h = "?s\<lparr>patterns := omap_store fp ?a (patterns ?s), heap := omap_store ?a (CounterObject ?c) (heap ?s),
     nextAddr := Suc ?a\<rparr>"
  let ?as = "[CallLater 1 (CounterDoFetch ?a), EmitInsertion ?n, negativeReply (lib E) i 100]"
  have "pattern_onInterest (lib E) X ?ren p i ?s = (?h, ?as)"
    using par new counter by (simp add: pattern_onInterest_def counter_fetch_def Let_def)
  then obtain h as where cmd: "pattern_onInterest (lib E) X ?ren p i ?s = (h, as)"
    and h: "h = ?h" and as: "as = ?as" by blast
  obtain r' bs where rel: "relay (patternSlots r) PatternCb as (r\<lparr>patternHandle := h\<rparr>) = (r', bs)" by fastforce
  obtain ps where ps: "r' = add_data_prefixes ps (r\<lparr>patternHandle := h\<rparr>)"
    "\<forall>n \<in> set (signalled as). covered r' n" "repo_calls bs = repo_calls (map (map_action PatternCb) as)"
    using relay_effect [OF rel] k by blast
  have "registered as = {}" by (simp add: as)
  with relay_announces [OF rel k] have "sent bs = sent as" "expressed bs = map (via PatternCb) (expressed as)"
    by auto
  then have "sent bs = [answer (lib E) i (status_only 100)]" "expressed bs = []"
    by (simp_all add: as)
  moreover have "repo_step E X (InterestAt PatternCommand p i rnd) r = Inr (r', bs)"
    using cmd rel by (simp add: repo_simps)
  moreover have "counting_at r' ?a fp 0"
    using ps(1) by (simp add: h counting_at_def om.find_store counter_fetch_def)
  moreover have "covered r' (stored_as E (repoStorage r) fp)"
    using ps(2) by (simp add: as stored_as_def getRenamePrefix_def handler_simps)
  moreover have "repoStorage r' = repoStorage r" "repo_calls bs = [RTimer (PatternCb (CounterDoFetch ?a))]"
    using ps(1,3) by (simp_all add: as handler_simps)
  ultimately show thesis by (intro that [of r' bs]) simp_all
qed

lemma digit_inject: "j < 10 \<Longrightarrow> k < 10 \<Longrightarrow> to_string (int j) = to_string (int k) \<longleftrightarrow> j = k"
proof -
  assume "j < 10" "k < 10"
  have digit: "(of_char (hd (to_string (int n))) :: nat) = 48 + n" if "n < 10" for n
    using that by (simp add: to_string_def decimal.simps [of n])
  from digit [OF \<open>j < 10\<close>] digit [OF \<open>k < 10\<close>] show ?thesis by (metis add_left_cancel)
qed

lemma packets_distinct:
  assumes "env_ok E" and producer: "\<And>j. j < 10 \<Longrightarrow> prefix (counter_request fp j) (dName (packet_of j))"
  shows "distinct (map (\<lambda>d. dName (as_stored E e d)) (map packet_of [0 ..< 10]))"
proof -
  have "j = k" if "j < 10" "k < 10" "dName (packet_of j) = dName (packet_of k)" for j k
  proof -
    note jk = that
    obtain xs where xs: "dName (packet_of j) = counter_request fp j @ xs"
      using producer [OF jk(1)] by (rule prefixE)
    obtain ys where "dName (packet_of k) = counter_request fp k @ ys"
      using producer [OF jk(2)] by (rule prefixE)
    with xs jk(3) have "to_string (int j) = to_string (int k)" by simp
    with digit_inject [OF jk(1,2)] show ?thesis by simp
  qed
  then have "inj_on (\<lambda>j. dName (packet_of j)) {0 ..< 10}" by (auto intro: inj_onI)
  then show ?thesis
    by (simp add: as_stored_name [OF assms(1)] stored_as_def distinct_map inj_on_def)
qed

section \<open>Properties\<close>

text \<open>
  C6: a fetch pattern fills the repository. At any moment of a run, cancellations included, a
  command for the counter pattern with a fetch prefix that is not active is accepted. If the
  producer then answers each interest with a packet below the name asked for, and the database
  takes them, the pattern asks for the prefix with 0, 1, ... 9 appended, in this order, and
  stops: nothing of it is left pending. Every packet can be read under its name, renamed if so
  configured, and a prefix of all these names has been registered.
\<close>

theorem pattern_fills_repository:
  fixes r0 :: "('db, 't) repo"
  assumes start: "main_start E X C a = Inr (r0, T0)" and eng: "engine_ok E (repoStorage r0)"
    and run: "session E X r0 T0 evs r T P"
    and served: "served T p PatternCommand" "prefix p (iName i)"
    and par: "extractParameter (lib E) i p = Inr par" "decodeNames (lib E) (pName par) = Some (pat, fp)"
    and new: "omap_find (patterns (patternHandle r)) fp = None"
    and counter: "factory_create (lib E) (handleFactory (patternHandle r)) pat = Some counter_create"
    and producer: "\<And>k. k < 10 \<Longrightarrow> prefix (counter_request fp k) (dName (packet_of k))"
    and w: "writes_succeed E"
  shows "\<exists>r' as. session E X r0 T0 (evs @ InterestAt PatternCommand p i rnd
        # fetch_rounds (nextAddr (patternHandle r)) packet_of 0 10) r' (T @ as) P
    \<and> sent as = [answer (lib E) i (status_only 100)]
    \<and> map (\<lambda>x. iName (fst x)) (expressed as) = map (counter_request fp) [0 ..< 10]
    \<and> finished_at r' (nextAddr (patternHandle r))
    \<and> (\<forall>k < 10. \<forall>j q rnd'. iName j = stored_as E (repoStorage r) (dName (packet_of k)) \<and> \<not> canBePrefix j \<and> \<not> mustBeFresh j
        \<longrightarrow> repo_step E X (InterestAt ReadInterest q j rnd') r'
          = Inr (r', [PutData (as_stored E (repoStorage r) (packet_of k))]))
    \<and> (\<exists>q. RegisterPrefix q ReadInterest ReadRegisterFailed \<in> set (T @ as)
        \<and> (\<forall>k < 10. prefix q (stored_as E (repoStorage r) (dName (packet_of k)))))"
proof -
  let ?a = "nextAddr (patternHandle r)" and ?e = "repoStorage r"
  let ?ev = "InterestAt PatternCommand p i rnd"
  have E: "env_ok E" using engine_env [OF eng] .
  note L = env_packet [OF E]
  note inv = repo_run_invariant [OF session_run [OF run] start_inv [OF start eng] L]
  have "writeSlots r \<noteq> 0" "writeSlots r = patternSlots r"
    using connected_command [OF repo_invD(2) [OF inv] served(1)] repo_invD(2) [OF inv]
    by (simp_all add: commands_def connected_def)
  then have k: "0 < patternSlots r" by simp
  obtain r1 bs where c: "repo_step E X ?ev r = Inr (r1, bs)" "repo_calls bs = [RTimer (PatternCb (CounterDoFetch ?a))]"
    "expressed bs = []" "sent bs = [answer (lib E) i (status_only 100)]" "counting_at r1 ?a fp 0"
    "repoStorage r1 = ?e" "covered r1 (stored_as E ?e fp)"
    using counter_command_step [OF k par new counter] by blast
  have s1: "session E X r0 T0 (evs @ [?ev]) r1 (T @ bs) (P + {#RTimer (PatternCb (CounterDoFetch ?a))#})"
    using session.event [OF run deliverable.interest [OF served] c(1)] c(2) by simp
  have "engine_ok E (repoStorage r1)" using repo_invD(1) [OF inv] c(6) by simp
  from rounds_run [OF s1 c(5) this w L, of 9 packet_of] producer obtain r' as where
    s: "session E X r0 T0 ((evs @ [?ev]) @ fetch_rounds ?a packet_of 0 (Suc 9)) r' ((T @ bs) @ as) P"
      "map (\<lambda>x. iName (fst x)) (expressed as) = map (counter_request fp) [0 ..< 10]" "finished_at r' ?a"
      "engine_ok E (repoStorage r')" "repoConfig r' = repoConfig r1"
      "stored E (repoStorage r') = fold (kept (as_stored E ?e)) (map packet_of [0 ..< 10]) (stored E ?e)" "sent as = []"
    unfolding c(6) by auto
  have got: "stored E (repoStorage r') (stored_as E ?e (dName (packet_of k))) = Some (as_stored E ?e (packet_of k))"
    if "k < 10" for k
    using kept_all [OF packets_distinct [OF E producer], of "packet_of k" ?e "stored E ?e"] that s(6)
    by (simp add: as_stored_name [OF E])
  have read: "repo_step E X (InterestAt ReadInterest q j rnd') r' = Inr (r', [PutData (as_stored E ?e (packet_of k))])"
    if "k < 10" "iName j = stored_as E ?e (dName (packet_of k)) \<and> \<not> canBePrefix j \<and> \<not> mustBeFresh j" for k j q rnd'
    using that got by (simp add: repo_step_def interest_step_def read_exact [OF s(4)])
  obtain q where q: "q \<in> set (dataPrefixes (repoConfig r'))" "prefix q (stored_as E ?e fp)"
    using c(7) s(5) by (auto simp: covered_def)
  have "prefix q (stored_as E ?e (dName (packet_of k)))" if "k < 10" for k
  proof -
    have "prefix fp (dName (packet_of k))" using producer [OF that] by (rule append_prefixD)
    then have "prefix (stored_as E ?e fp) (stored_as E ?e (dName (packet_of k)))" by (simp add: stored_as_def)
    with q(2) show ?thesis by (rule prefix_order.trans)
  qed
  moreover have "RegisterPrefix q ReadInterest ReadRegisterFailed \<in> set ((T @ bs) @ as)"
    using repo_invD(4) [OF repo_run_invariant [OF session_run [OF s(1)] start_inv [OF start eng] L] q(1)] .
  ultimately have "\<exists>q. RegisterPrefix q ReadInterest ReadRegisterFailed \<in> set (T @ bs @ as)
      \<and> (\<forall>k < 10. prefix q (stored_as E ?e (dName (packet_of k))))" by auto
  moreover have "session E X r0 T0 (evs @ ?ev # fetch_rounds ?a packet_of 0 10) r' (T @ bs @ as) P"
    using s(1) by (simp add: eval_nat_numeral)
  ultimately show ?thesis
    using s(2,3,7) c(3,4) read by (intro exI [of _ r'] exI [of _ "bs @ as"]) simp
qed

theorem pattern_fills_repository_witness:
  "\<exists>(r0 :: ((string, bytes) omap, ptree) repo) T0 r as.
     main_start ref_env ref_platform (ref_conf sample_files) (ref_args False) = Inr (r0, T0)
   \<and> session ref_env ref_platform r0 T0 (InterestAt PatternCommand [generic ''r'', generic ''pattern'']
        (ref_pattern_command ''counter'' [''a'']) [] # fetch_rounds 0 (\<lambda>k. ref_packet [''a'', to_string (int k)] ''x'') 0 10)
        r (T0 @ as) {#}
   \<and> map (\<lambda>x. iName (fst x)) (expressed as) = map (counter_request [generic ''a'']) [0 ..< 10]"
proof -
  let ?p = "[generic ''r'', generic ''pattern'']" and ?i = "ref_pattern_command ''counter'' [''a'']"
    and ?d = "\<lambda>k :: nat. ref_packet [''a'', to_string (int k)] ''x''"
  obtain r0 :: "((string, bytes) omap, ptree) repo" and T0 where
    st: "main_start ref_env ref_platform (ref_conf sample_files) (ref_args False) = Inr (r0, T0)"
    "engine_ok ref_env (repoStorage r0)"
    using ref_start by blast
  have h: "patternHandle r0 = pattern_new ref_lib ref_platform" using start_handlers(1) [OF st(1)] by simp
  have pre: "prefix ?p (iName ?i)" by (simp add: ref_pattern_command_def ref_interest_def)
  obtain par pat where par: "extractParameter (lib ref_env) ?i ?p = Inr par"
    "decodeNames (lib ref_env) (pName par) = Some (pat, [generic ''a''])"
    "factory_create (lib ref_env) (handleFactory (patternHandle r0)) pat = Some counter_create"
    using ref_counter_known h
    by (simp add: ref_pattern_parameters pattern_new_def uri_lawsD(7) [OF ref_uri_laws, simplified])
  have new: "omap_find (patterns (patternHandle r0)) [generic ''a''] = None" by (simp add: h handle_new)
  have producer: "prefix (counter_request [generic ''a''] k) (dName (?d k))" for k
    by simp
  have w: "writes_succeed ref_env" by simp
  have a: "nextAddr (patternHandle r0) = 0" by (simp add: h pattern_new_def)
  from pattern_fills_repository [OF st session.start conjunct2 [OF ref_served [OF st(1)]] pre par(1,2) new par(3)
      producer w, of "[]", unfolded append_Nil a]
  obtain r as where "session ref_env ref_platform r0 T0 (InterestAt PatternCommand ?p ?i [] # fetch_rounds 0 ?d 0 10)
      r (T0 @ as) {#}"
    "map (\<lambda>x. iName (fst x)) (expressed as) = map (counter_request [generic ''a'']) [0 ..< 10]" by blast
  with st(1) show ?thesis by blast
qed

end
