(* ===== verification/Prefix_Tests.thy ===== *)
theory Prefix_Tests
  imports Storage_Properties Fetch_Pattern
begin

text \<open>
  \<open>tests/test_prefix_match.cc\<close>: the two tests that look packets up by prefix, as programs over the
  model. A test is the list of what its \<open>EXPECT\<close> macros find. The third test, which creates a
  storage and looks at its folder, is about the file system.
\<close>

section \<open>The tests\<close>













section \<open>What they rely on\<close>







section \<open>The tests pass\<close>













end
