(* ===== verification/Spec2Isabelle.thy ===== *)
theory Spec2Isabelle
  imports Storage_Properties Repo_Properties Client_Session Segment_Properties Delete_Handle
    Watch_Handle Segment_Complete Restart Repo_Storage Repo_Safe Service_Refinement Pattern_Fill Prefix_Tests
begin

text \<open>
  Verification library for fast-repo: an NDN repository in C++ that stores data packets in a
  key-value store (RocksDB), serves them to interests, and fetches new packets on command. The
  paths below are relative to the repository; a handler lives in \<open>src/handles\<close>.

  Parts and how they interact. \<open>src/main.cpp\<close> makes a configuration from the arguments or from a
  file (\<open>parseConfig\<close>), constructs \<open>FastRepo\<close> (\<open>src/repo/fast-repo.cpp\<close>), has it listen for
  commands unless it is read-only, and has it scan the store and register the data prefixes
  found. From then on everything is a callback of the face: an interest for a stored packet
  (read handler), an \<open>insert\<close> command (write handler), commands that start and cancel a fetch
  pattern (pattern handler, with the pattern objects of \<open>src/handles/patterns\<close>), an interest for
  the status document (status handler), and the packets, timeouts and timers of what these have
  asked for. A registration the face could not make comes back as a callback too, and the stream
  recorder of the NDN-RTC pattern calls a store function it was given. All handlers write to and
  read from one storage engine (\<open>src/storage/storage-engine.cpp\<close>). The write and the pattern
  handler announce insertions by a signal, on which \<open>FastRepo\<close> registers further data prefixes.
  Two programs in \<open>examples\<close> send pattern commands. Three handlers are kept in the tree under
  \<open>#if 0\<close>: segmented fetching in the write handler, the delete handler and the watch handler.

  Conventions. An operation is a function from the state of its object to the new state and the
  list of calls it makes to the outside (type \<open>action\<close>); what the code throws, or leaves
  undefined, is the left side of a sum (type \<open>result\<close>). A callback is a value that says which
  member function is bound to what, so that pending callbacks are data; so are the functions
  given to a registration for its failure (\<open>registration_failed\<close>) and to a recorder
  (\<open>store_fun\<close>). That an event fails means that the handler's call throws or is undefined; what
  the library around the handlers then does with the exception is not the program's. Libraries
  are parameters: records of functions (\<open>ndn_lib\<close>, \<open>rocksdb\<close>, \<open>json_lib\<close>, \<open>platform\<close>,
  \<open>conf_lib\<close>, \<open>old_lib\<close>, \<open>selector_lib\<close>, \<open>client_lib\<close>) with their documented behaviour as
  predicates (\<open>uri_laws\<close>, \<open>wire_laws\<close>, \<open>packet_laws\<close>, \<open>kv_laws\<close>, \<open>segment_laws\<close>, \<open>client_laws\<close>),
  all of which are shown to hold of concrete libraries in \<open>Reference_Lib\<close>, \<open>Rocks_Db\<close>,
  \<open>Reference_Engine\<close>, \<open>Reference_Old\<close> and \<open>Client_Session\<close>; the witnesses of the properties run
  on these.
\<close>

section \<open>Theories\<close>

text \<open>
  Foundations. \<open>Prelude\<close>: byte strings, results, collections of simplification rules.
  \<open>Std_Map\<close>: \<open>std::map\<close> as a type of sorted associations, with its contract as a locale.
  \<open>Ndn_Types\<close>: names, packets, interests, the two protobuf messages, the NDN library.
  \<open>Reference_Lib\<close>: a concrete NDN library, with the proofs that encoding and URIs invert.

  Storage. \<open>Rocks_Db\<close>: the database interface and a model of it. \<open>Name_Trie\<close>: the trie of key
  components. \<open>Storage_Engine\<close>: \<open>StorageEngine\<close> and \<open>StorageEngineImpl\<close> (the record \<open>engine\<close> has
  the members of the latter), and the contract \<open>packet_store\<close>. \<open>Storage_Read\<close>: what the prefix
  scan computes, in terms of packets. \<open>Storage_Properties\<close>: round trip of \<open>put\<close> and \<open>read\<close>,
  renaming, the exact result of a prefix match with its two weak points, and the prefixes found
  by the scan. \<open>Prefix_Tests\<close>: the two prefix tests in \<open>tests/test_prefix_match.cc\<close>, as programs
  over the engine, and the proof that they pass.

  Handlers. \<open>Base_Handle\<close>: actions, replies, and the contract of a command handler.
  \<open>Read_Handle\<close>, \<open>Write_Handle\<close> (the compiled part) with \<open>Write_Properties\<close>: every command is
  answered and starts one fetch, the process table does not leak, packets are stored and never
  removed. \<open>Fetch_Pattern\<close>: the counter, NDN-RTC and generalised-object patterns and their
  factory, and the function through which a stream recorder stores packets (\<open>recorder_store\<close>).
  \<open>Counter_Run\<close>: a counter pattern from start to end. \<open>Pattern_Handle\<close>, \<open>Pattern_Properties\<close>,
  \<open>Pattern_Run\<close>: the pattern commands, with pattern objects on an explicit heap, because their
  callbacks hold raw pointers; table and heap agree in every run, callbacks are safe as long as
  nothing is cancelled, and are not afterwards. \<open>Json\<close> and \<open>Status_Handle\<close>: the status document.

  The repository. \<open>Repo_Config\<close>: \<open>Config\<close>, \<open>parseConfig\<close>, and what \<open>main\<close> makes of its
  arguments. \<open>Fast_Repo\<close>: \<open>FastRepoImpl\<close>, the signals between the handlers, one step of the
  event loop (\<open>repo_step\<close>) over all handlers, recorders and failed registrations, and the
  handler of the operating system's signals in \<open>main\<close> (\<open>terminate\<close>). \<open>Repo_Run\<close>: what can be
  delivered at a moment (\<open>deliverable\<close>), runs from the start, as states (\<open>repo_run\<close>) and with
  their events (\<open>session\<close>), with the invariant that stored packets are under a registered
  prefix, those of recorders apart. \<open>Repo_Properties\<close>: start, insert-then-read, the read-only
  mode. \<open>Repo_Storage\<close>: which events change the store and how, and that its statistics are those
  of the start. \<open>Restart\<close>: a second session finds, answers and registers what the first has
  stored. \<open>Repo_Safe\<close>: whatever can be delivered is handled, as long as no cancel command and no
  status request arrives and no command prefix fails to register; these can break the
  repository, by a dangling timer (\<open>Pattern_Run\<close>), a parse error (\<open>Status_Handle\<close>) and the
  exception of the failure callback. \<open>Repo_Callbacks\<close>: what holds of the pending callbacks with
  cancellations too, and which events then are not handled (\<open>breaks\<close>). \<open>Content_Service\<close>: the
  abstract specification, a service with contents, announced prefixes, packets it waits for and
  active fetch prefixes (record \<open>service\<close>), its operations, when each is allowed, which
  operation, with which arguments, a command stands for and what it shows to the outside
  (\<open>exhibits\<close>), its traces, and that what it stores can be reached. \<open>Service_Steps\<close>: the
  abstraction \<open>service_of\<close> and the simulation of each kind of event. \<open>Service_Refinement\<close>: the
  repository implements the service, and what is stored is served. \<open>Pattern_Fill\<close>: a counter
  pattern from its command to its last packet, in the repository.

  The clients. \<open>Example_Clients\<close>: \<open>examples/pattern-fetch.cpp\<close> and
  \<open>examples/pattern-cancel.cpp\<close>. \<open>Client_Session\<close>: a sequence of client runs against the pattern
  handler implements a set of active prefixes; when a client ends, by a response, a timeout or
  an exception, and with which exit code.

  The handlers that are compiled out. \<open>Old_Protocol\<close>: the message classes, library calls and the
  storage class they were written for, which are not in the repository, as parameters.
  \<open>Segment_Handle\<close>: the segmented write handler, operation by operation. \<open>Segment_Run\<close>: what
  a fetch keeps invariant (\<open>flow_ok\<close>: credits, outstanding segments and retry counts fit;
  \<open>live_ok\<close>: the queue holds the next segment as long as there is one). \<open>Segment_Invariant\<close>: the
  step relation of the handler and the proof that all processes keep it. \<open>Segment_Properties\<close>:
  callbacks are safe, at most twelve interests of a process are pending, a fetch does not stall,
  and which segments a command asks for first. \<open>Segment_Complete\<close>: when a fetch reports status
  200, every segment of its range has been stored; the proof follows the set of the segments
  stored and counted (\<open>fetched\<close>), over runs in which packets are lost and rejected, and rests on
  the contract \<open>segment_store\<close>, which the storage engine is shown to fulfil. \<open>Delete_Handle\<close>:
  deletion commands; the loop over a range against its specification, and when it ends.
  \<open>Watch_Handle\<close>: watches, their limits on time and interests, and what stopping one watch does
  to the others.
\<close>

section \<open>Bounds and fuel\<close>

text \<open>
  Process ids, segment numbers and counters of messages are 64-bit words, and the arithmetic of
  \<open>segInit\<close> and of the ranges is the wrapping one. \<open>seg_loop\<close> has a termination measure, the
  distance to its bound. \<open>delete_loop\<close> is a partial function into options, because a range that
  ends at the greatest number never ends; when it returns is a property, not an assumption. The
  loop of a client is a recursion over the list of its rounds, and what it takes to end is stated
  on that list. The safety of the segmented handler is proved for runs of fewer than \<open>2 ^ 62\<close>
  events, so that segment numbers counted up from a start cannot come round to one that is still
  outstanding. Runs of patterns, of the write handler and of the repository have no bound. The
  credit and the retry counts are the integers of the code within their proved bounds; the 64-bit
  counters of the watch handler and the counter of a counter pattern are unbounded integers, as
  they grow by one per packet or interest.
\<close>

section \<open>Not modelled\<close>

text \<open>
  Argument parsing in \<open>src/main.cpp\<close> (docopt, a library; its result is the record \<open>args\<close>),
  logging (\<open>init_logging\<close> has no effect) and the console output of the handlers: no decision of
  the program depends on them. RocksDB, ndn-cpp, protobuf, the name space library, NDN-RTC,
  boost and the JSON library under \<open>third_party\<close> are parameters. The event loop
  \<open>io_service::run\<close>, which \<open>main\<close> calls last, is boost's: the model has the handlers it calls,
  in any order the face can deliver, and not the loop. A face that was told to shut down may go
  on to deliver events in a session, which only adds behaviours. Validation in the handlers that
  are compiled out is the library's: its verdict is an argument. The build without RocksDB
  always fails in the constructor of the engine (\<open>impl_new_without_db\<close>), so its other operations
  are not modelled; the options \<open>HAVE_LIBNDNRTC\<close> and \<open>HAVE_LIBCNL_CPP\<close> are fields of \<open>platform\<close>.
  The gobj-stream pattern is an empty file. Of the test program the test of the database folder,
  which is about the file system, and the signal handler are left out. What remains of the
  sources are class declarations, comments, and the empty bodies of destructors.
\<close>

end
